(* ===== verification/ASE_Prelude.thy ===== *)
theory ASE_Prelude
  imports Main "HOL-Library.Word"
begin

unbundle bit_operations_syntax

text \<open>
  Shared vocabulary of the development: the C integer types as words, the ways in which
  a run of the C code can stop without returning (a fault), the result type of a fallible
  operation with its sequencing operator, and the generic lemmas on words, lists and
  results that the component theories use through the simplifier.
\<close>

section \<open>Types\<close>

type_synonym u8 = "8 word"
type_synonym u16 = "16 word"
type_synonym u32 = "32 word"
type_synonym u64 = "64 word"

text \<open>
  A fault is the end of a run that the C source does not turn into a return value: an
  access through an invalid pointer or outside an array, a division by zero, a failed \<open>assert\<close>, an explicit
  \<open>raise(SIGABRT)\<close> or \<open>exit\<close>, and a wait that cannot end (a lock the caller already holds,
  a busy loop on a condition nothing changes).
\<close>

datatype fault = Segv | Sigfpe | AssertFail | Sigabrt | ExitCall | Blocked

type_synonym 'a res = "fault + 'a"

definition rbind :: "'a res \<Rightarrow> ('a \<Rightarrow> 'b res) \<Rightarrow> 'b res" where
  "rbind r f = (case r of Inl e \<Rightarrow> Inl e | Inr x \<Rightarrow> f x)"

section \<open>Collections of simplification rules\<close>

named_theorems ase_defs \<open>definitions of small helpers of the C code, unfolded by proofs\<close>
named_theorems ase_bits \<open>facts about single bits of encoded words\<close>

section \<open>Results\<close>

lemma rbind_simps [simp]:
  "rbind (Inl e) f = Inl e"
  "rbind (Inr x) f = f x"
  by (simp_all add: rbind_def)

lemma rbind_Inr_iff:
  "rbind r f = Inr y \<longleftrightarrow> (\<exists>x. r = Inr x \<and> f x = Inr y)"
  by (cases r) auto

lemma rbind_InrE [elim!]:
  assumes "rbind r f = Inr y"
  obtains x where "r = Inr x" and "f x = Inr y"
  using assms by (cases r) auto

lemma rbind_assoc: "rbind (rbind r f) g = rbind r (\<lambda>x. rbind (f x) g)"
  by (cases r) auto

lemma rbind_Inr_right [simp]: "rbind r Inr = r"
  by (cases r) auto

lemma rbind_cong [fundef_cong]:
  "r = r' \<Longrightarrow> (\<And>x. r' = Inr x \<Longrightarrow> f x = f' x) \<Longrightarrow> rbind r f = rbind r' f'"
  by (cases r') auto

section \<open>Words\<close>

lemma word_less_exp_bit:
  fixes w :: "'a::len word"
  assumes "w < 2 ^ n" and "n < LENGTH('a)" and "n \<le> i"
  shows "\<not> bit w i"
proof -
  have "uint w < 2 ^ n" using assms(1,2) by transfer simp
  then have "take_bit n (uint w) = uint w" by (intro take_bit_int_eq_self) auto
  then have "\<not> bit (uint w) i" using assms(3) by (metis bit_take_bit_iff not_less)
  then show ?thesis using bit_imp_le_length by (auto simp: bit_uint_iff)
qed

lemma unat_bound: "unat (w :: 'a::len word) < 2 ^ LENGTH('a)"
  by (rule unsigned_less)

lemma unat_exp_u64: "n < 64 \<Longrightarrow> unat (2 ^ n :: u64) = 2 ^ n"
  by (transfer fixing: n) (simp add: take_bit_int_eq_self)

lemma u32_of_nat: "n < 2 ^ 32 \<Longrightarrow> unat (of_nat n :: u32) = n"
  by (simp add: unat_of_nat)

lemma unat_u16_u32: "unat (ucast (v :: u16) :: u32) = unat v"
  by (simp add: unsigned_ucast_eq take_bit_nat_eq_self less_trans [OF unat_bound])

lemma drop_bit_63_neq_0: "drop_bit 63 (x :: u64) \<noteq> 0 \<longleftrightarrow> bit x 63"
proof
  assume "drop_bit 63 x \<noteq> 0"
  then obtain n where "bit (drop_bit 63 x) n" by (auto simp: bit_eq_iff)
  then have *: "bit x (63 + n)" by (simp add: bit_simps)
  then have "63 + n < 64" using bit_imp_le_length by fastforce
  with * show "bit x 63" by simp
next
  assume "bit x 63"
  then have "bit (drop_bit 63 x) 0" by (simp add: bit_simps)
  then show "drop_bit 63 x \<noteq> 0" by auto
qed

lemma word_eq_by_bits:
  fixes x y :: "'a::len word"
  assumes "\<And>n. n < LENGTH('a) \<Longrightarrow> bit x n = bit y n"
  shows "x = y"
  by (rule bit_word_eqI) (use assms in auto)

text \<open>
  The numerals that the C code uses as masks, by their bits.
\<close>

lemma mask_numeral_eqs:
  "(1 :: 'a::len word) = mask 1" "(3 :: 'a word) = mask 2" "(7 :: 'a word) = mask 3"
  "(0xf :: 'a word) = mask 4" "(0x1f :: 'a word) = mask 5" "(0x7f :: 'a word) = mask 7"
  "(0xff :: 'a word) = mask 8" "(0x1ff :: 'a word) = mask 9" "(0x3ff :: 'a word) = mask 10"
  "(0x7ff :: 'a word) = mask 11" "(0xfff :: 'a word) = mask 12" "(0xffff :: 'a word) = mask 16"
  "(0xfffff :: 'a word) = mask 20" "(0xffffff :: 'a word) = mask 24"
  by (simp_all add: mask_eq_exp_minus_1)

lemma bit_masks [ase_bits]:
  fixes n :: nat
  shows "bit (1 :: 'a::len word) n \<longleftrightarrow> n < 1"
    and "bit (3 :: 'a word) n \<longleftrightarrow> n < 2 \<and> n < LENGTH('a)"
    and "bit (7 :: 'a word) n \<longleftrightarrow> n < 3 \<and> n < LENGTH('a)"
    and "bit (0xf :: 'a word) n \<longleftrightarrow> n < 4 \<and> n < LENGTH('a)"
    and "bit (0x1f :: 'a word) n \<longleftrightarrow> n < 5 \<and> n < LENGTH('a)"
    and "bit (0x7f :: 'a word) n \<longleftrightarrow> n < 7 \<and> n < LENGTH('a)"
    and "bit (0xff :: 'a word) n \<longleftrightarrow> n < 8 \<and> n < LENGTH('a)"
    and "bit (0x1ff :: 'a word) n \<longleftrightarrow> n < 9 \<and> n < LENGTH('a)"
    and "bit (0x3ff :: 'a word) n \<longleftrightarrow> n < 10 \<and> n < LENGTH('a)"
    and "bit (0x7ff :: 'a word) n \<longleftrightarrow> n < 11 \<and> n < LENGTH('a)"
    and "bit (0xfff :: 'a word) n \<longleftrightarrow> n < 12 \<and> n < LENGTH('a)"
    and "bit (0xffff :: 'a word) n \<longleftrightarrow> n < 16 \<and> n < LENGTH('a)"
    and "bit (0xfffff :: 'a word) n \<longleftrightarrow> n < 20 \<and> n < LENGTH('a)"
    and "bit (0xffffff :: 'a word) n \<longleftrightarrow> n < 24 \<and> n < LENGTH('a)"
  by (simp add: bit_1_iff) (unfold mask_numeral_eqs bit_mask_iff min_less_iff_conj, auto)

lemma mask_int_eqs:
  "(3 :: int) = mask 2"
  "(7 :: int) = mask 3"
  "(0xf :: int) = mask 4"
  "(0x1f :: int) = mask 5"
  "(0x7f :: int) = mask 7"
  "(0xff :: int) = mask 8"
  "(0x1ff :: int) = mask 9"
  "(0x3ff :: int) = mask 10"
  "(0x7ff :: int) = mask 11"
  "(0xfff :: int) = mask 12"
  "(0xffff :: int) = mask 16"
  "(0xfffff :: int) = mask 20"
  "(0xffffff :: int) = mask 24"
  by (simp_all add: mask_eq_exp_minus_1)

lemma bit_int_masks [ase_bits]:
  fixes n :: nat
  shows "bit (3 :: int) n \<longleftrightarrow> n < 2"
    and "bit (7 :: int) n \<longleftrightarrow> n < 3"
    and "bit (0xf :: int) n \<longleftrightarrow> n < 4"
    and "bit (0x1f :: int) n \<longleftrightarrow> n < 5"
    and "bit (0x7f :: int) n \<longleftrightarrow> n < 7"
    and "bit (0xff :: int) n \<longleftrightarrow> n < 8"
    and "bit (0x1ff :: int) n \<longleftrightarrow> n < 9"
    and "bit (0x3ff :: int) n \<longleftrightarrow> n < 10"
    and "bit (0x7ff :: int) n \<longleftrightarrow> n < 11"
    and "bit (0xfff :: int) n \<longleftrightarrow> n < 12"
    and "bit (0xffff :: int) n \<longleftrightarrow> n < 16"
    and "bit (0xfffff :: int) n \<longleftrightarrow> n < 20"
    and "bit (0xffffff :: int) n \<longleftrightarrow> n < 24"
  unfolding mask_int_eqs bit_mask_iff by auto

end
