(* ===== verification/Page_Table.thy ===== *)
theory Page_Table
  imports ASE_Prelude
begin

text \<open>
  The simulated page table of \<open>src/ase/sw/ase_host_memory.c\<close> (from line 521 on): a radix
  tree of four levels that maps a simulated physical space (IOVAs of one AFU, or simulated
  PAs) back to virtual addresses of the application. A table is a page of 512 words found
  in an explicit memory by its address; an entry is 0 (nothing), the address of the table
  one level down, or a terminal entry (bit 63 set) that carries a page address in bits
  12 to 62 and a reference count in bits 0 to 7. Where the C code follows a pointer the
  model reads the memory, and a read of an address that holds no table is \<open>Segv\<close>.

  The parameter \<open>mm\<close> of the operations that allocate is the \<open>mmap\<close> of the operating
  system: given the tables in use it yields the address of a fresh page, or \<open>None\<close> for
  \<open>MAP_FAILED\<close>. The page it yields reads as zero (\<open>MAP_ANONYMOUS\<close>).
\<close>

section \<open>Definitions\<close>

subsection \<open>Entries\<close>

definition ASE_PT_ADDR_MASK :: u64 where
  "ASE_PT_ADDR_MASK = 0x7ffffffffffff000"

definition ase_pt_entry_is_terminal :: "u64 \<Rightarrow> bool" where
  "ase_pt_entry_is_terminal pt \<longleftrightarrow> drop_bit 63 pt \<noteq> 0"

text \<open>
  The operand \<open>(uint8_t)v + 1\<close> of the C code is an \<open>int\<close>, so 255 becomes 256 and not 0;
  likewise \<open>(uint8_t)v - 1\<close> becomes -1 and, in the 64 bit word, all ones.
\<close>

definition ase_pt_incr_refcnt :: "u64 \<Rightarrow> (u64 \<times> u8) res" where
  "ase_pt_incr_refcnt pt =
     (if pt = 0 then Inr (push_bit 63 1 OR 1, 1)
      else if \<not> ase_pt_entry_is_terminal pt then Inl AssertFail
      else let v = (pt AND NOT 0xff) OR (ucast (ucast pt :: u8) + 1); c = ucast v :: u8
           in if c = 0 then Inl AssertFail else Inr (v, c))"

definition ase_pt_decr_refcnt :: "u64 \<Rightarrow> (u64 \<times> u8) res" where
  "ase_pt_decr_refcnt pt =
     (if \<not> ase_pt_entry_is_terminal pt then Inl AssertFail
      else let v = (pt AND NOT 0xff) OR (ucast (ucast pt :: u8) - 1); c = ucast v :: u8
           in if c = 0xff then Inl AssertFail else Inr (v, c))"

definition ase_pt_get_refcnt :: "u64 \<Rightarrow> u8" where
  "ase_pt_get_refcnt pt = ucast (pt AND 0xff)"

definition ase_pt_set_addr :: "u64 \<Rightarrow> u64 \<Rightarrow> u64" where
  "ase_pt_set_addr pt addr = (addr AND ASE_PT_ADDR_MASK) OR (pt AND NOT ASE_PT_ADDR_MASK)"

definition ase_pt_get_addr :: "u64 \<Rightarrow> u64" where
  "ase_pt_get_addr pt_entry = pt_entry AND ASE_PT_ADDR_MASK"

subsection \<open>Levels and indices\<close>

definition KB :: u64 where "KB = 1024"
definition MB :: u64 where "MB = 1024 * KB"
definition GB :: u64 where "GB = 1024 * MB"

definition ase_pt_length_to_level :: "u64 \<Rightarrow> int" where
  "ase_pt_length_to_level len =
     (if len > 2 * MB then (if len = GB then 2 else -1)
      else if len > 4 * KB then (if len \<le> 2 * MB then 1 else -1)
      else 0)"

definition ase_pt_level_to_bit_idx :: "nat \<Rightarrow> nat" where
  "ase_pt_level_to_bit_idx pt_level = 12 + pt_level * 9"

text \<open>
  The index \<open>0x1ff & (iova >> \<dots>)\<close> selects one of 512 entries, so it is kept as a 9 bit
  word. The C function asserts a level of at most 3, which each of its callers passes.
\<close>

definition ase_pt_idx :: "u64 \<Rightarrow> nat \<Rightarrow> 9 word" where
  "ase_pt_idx iova pt_level = ucast (0x1ff AND drop_bit (ase_pt_level_to_bit_idx pt_level) iova)"

subsection \<open>Table memory\<close>

type_synonym pt_table = "9 word \<Rightarrow> u64"
type_synonym pt_mem = "u64 \<Rightarrow> pt_table option"

definition pt_read :: "pt_mem \<Rightarrow> u64 \<Rightarrow> 9 word \<Rightarrow> u64 res" where
  "pt_read m pt idx = (case m pt of None \<Rightarrow> Inl Segv | Some t \<Rightarrow> Inr (t idx))"

definition pt_write :: "pt_mem \<Rightarrow> u64 \<Rightarrow> 9 word \<Rightarrow> u64 \<Rightarrow> pt_mem res" where
  "pt_write m pt idx v =
     (case m pt of None \<Rightarrow> Inl Segv | Some t \<Rightarrow> Inr (m(pt \<mapsto> t(idx := v))))"

definition pt_zero_page :: pt_table where
  "pt_zero_page = (\<lambda>_. 0)"

subsection \<open>Operations\<close>

text \<open>
  \<open>ase_pt_delete_tree\<close>: the recursion on the level stops at level 0, whose entries are
  not pointers.
\<close>

primrec ase_pt_delete_tree :: "nat \<Rightarrow> pt_mem \<Rightarrow> u64 \<Rightarrow> pt_mem res" where
  "ase_pt_delete_tree 0 m pt =
     (if pt = 0 \<or> ase_pt_entry_is_terminal pt then Inr m else Inr (m(pt := None)))"
| "ase_pt_delete_tree (Suc pt_level) m pt =
     (if pt = 0 \<or> ase_pt_entry_is_terminal pt then Inr m
      else rbind
        (fold (\<lambda>idx r. rbind r (\<lambda>m. rbind (pt_read m pt (of_nat idx))
                 (\<lambda>sub. ase_pt_delete_tree pt_level m sub)))
           [0..<512] (Inr m))
        (\<lambda>m. Inr (m(pt := None))))"

text \<open>
  \<open>ase_pt_lookup_addr\<close>: the loop from level 3 down to level 1 and the final test of the
  level 0 entry. The result pairs the address (0 when not found) with \<open>*pt_level\<close>.
\<close>

fun ase_pt_lookup_walk :: "pt_mem \<Rightarrow> u64 \<Rightarrow> u64 \<Rightarrow> nat \<Rightarrow> (u64 \<times> int) res" where
  "ase_pt_lookup_walk m pa pt 0 =
     (if pt \<noteq> 0
      then rbind (pt_read m pt (ase_pt_idx pa 0))
             (\<lambda>e. if ase_pt_get_refcnt e \<noteq> 0 then Inr (ase_pt_get_addr e, 0) else Inr (0, -1))
      else Inr (0, -1))"
| "ase_pt_lookup_walk m pa pt (Suc l) =
     (if pt = 0 then Inr (0, -1)
      else rbind (pt_read m pt (ase_pt_idx pa (Suc l)))
             (\<lambda>e. if ase_pt_entry_is_terminal e then Inr (ase_pt_get_addr e, int (Suc l))
                  else ase_pt_lookup_walk m pa e l))"

definition ase_pt_lookup_addr :: "pt_mem \<Rightarrow> u64 \<Rightarrow> u64 \<Rightarrow> (u64 \<times> int) res" where
  "ase_pt_lookup_addr m pa pt_root = ase_pt_lookup_walk m pa pt_root 3"

text \<open>
  The last part of \<open>ase_pt_pin_page\<close>, reached when the walk arrives at the level of the
  page: a sub-tree of smaller pages is dropped, the count goes up, the address is set.
\<close>

definition ase_pt_pin_entry :: "u64 \<Rightarrow> u64 \<Rightarrow> pt_mem \<Rightarrow> u64 \<Rightarrow> nat \<Rightarrow> (pt_mem \<times> int) res" where
  "ase_pt_pin_entry va iova m pt level =
     (let idx = ase_pt_idx iova level in
      rbind (pt_read m pt idx) (\<lambda>e.
      rbind (if level \<noteq> 0 \<and> \<not> ase_pt_entry_is_terminal e \<and> e \<noteq> 0
             then rbind (ase_pt_delete_tree (level - 1) m e) (\<lambda>m. pt_write m pt idx 0)
             else Inr m) (\<lambda>m.
      rbind (pt_read m pt idx) (\<lambda>e.
      rbind (ase_pt_incr_refcnt e) (\<lambda>(v, c).
      rbind (pt_write m pt idx (ase_pt_set_addr v va)) (\<lambda>m. Inr (m, 0)))))))"

text \<open>
  The loop of \<open>ase_pt_pin_page\<close>: allocate the missing table, refuse to descend into a huge
  page, go one level down. The level in the page table only reaches 0 when \<open>pt_level\<close> is 0.
\<close>

fun ase_pt_pin_walk ::
  "(pt_mem \<Rightarrow> u64 option) \<Rightarrow> u64 \<Rightarrow> u64 \<Rightarrow> nat \<Rightarrow> pt_mem \<Rightarrow> u64 \<Rightarrow> nat \<Rightarrow> (pt_mem \<times> int) res" where
  "ase_pt_pin_walk mm va iova pt_level m pt 0 = ase_pt_pin_entry va iova m pt 0"
| "ase_pt_pin_walk mm va iova pt_level m pt (Suc l) =
     (if Suc l = pt_level then ase_pt_pin_entry va iova m pt (Suc l)
      else let idx = ase_pt_idx iova (Suc l) in
        rbind (pt_read m pt idx) (\<lambda>e.
          if e = 0
          then (case mm m of
                  None \<Rightarrow> Inr (m, -1)
                | Some a \<Rightarrow>
                    rbind (pt_write (m(a \<mapsto> pt_zero_page)) pt idx a) (\<lambda>m.
                    if ase_pt_entry_is_terminal a then Inr (m, -1)
                    else ase_pt_pin_walk mm va iova pt_level m a l))
          else if ase_pt_entry_is_terminal e then Inr (m, -1)
          else ase_pt_pin_walk mm va iova pt_level m e l))"

definition ase_pt_pin_page ::
  "(pt_mem \<Rightarrow> u64 option) \<Rightarrow> pt_mem \<Rightarrow> u64 \<Rightarrow> u64 \<Rightarrow> u64 \<Rightarrow> int \<Rightarrow> (pt_mem \<times> int) res" where
  "ase_pt_pin_page mm m va iova pt_root pt_level =
     (if 0 \<le> pt_level \<and> pt_level < 3
      then ase_pt_pin_walk mm va iova (nat pt_level) m pt_root 3
      else Inl AssertFail)"

definition ase_pt_unpin_entry :: "u64 \<Rightarrow> pt_mem \<Rightarrow> u64 \<Rightarrow> nat \<Rightarrow> (pt_mem \<times> int) res" where
  "ase_pt_unpin_entry iova m pt level =
     (let idx = ase_pt_idx iova level in
      if level \<noteq> 0 then
        rbind (pt_read m pt idx) (\<lambda>e.
          if \<not> ase_pt_entry_is_terminal e then Inr (m, -1)
          else rbind (ase_pt_decr_refcnt e) (\<lambda>(v, c).
            rbind (pt_write m pt idx (if c = 0 then 0 else v)) (\<lambda>m. Inr (m, 0))))
      else if pt \<noteq> 0 then
        rbind (pt_read m pt idx) (\<lambda>e.
          if \<not> ase_pt_entry_is_terminal e then Inr (m, -1)
          else rbind (ase_pt_decr_refcnt e) (\<lambda>(v, c).
            rbind (pt_write m pt idx v) (\<lambda>m. Inr (m, 0))))
      else Inr (m, 0))"

text \<open>
  The loop of \<open>ase_pt_unpin_page\<close>. As in the source, \<open>pt[idx]\<close> is read first and the test
  for a huge page looks at \<open>pt\<close>, the table the entry was read from, not at the entry.
\<close>

fun ase_pt_unpin_walk :: "u64 \<Rightarrow> nat \<Rightarrow> pt_mem \<Rightarrow> u64 \<Rightarrow> nat \<Rightarrow> (pt_mem \<times> int) res" where
  "ase_pt_unpin_walk iova pt_level m pt 0 = ase_pt_unpin_entry iova m pt 0"
| "ase_pt_unpin_walk iova pt_level m pt (Suc l) =
     (if Suc l = pt_level then ase_pt_unpin_entry iova m pt (Suc l)
      else rbind (pt_read m pt (ase_pt_idx iova (Suc l))) (\<lambda>e.
        if e = 0 then Inr (m, -1)
        else if ase_pt_entry_is_terminal pt then Inr (m, -1)
        else ase_pt_unpin_walk iova pt_level m e l))"

definition ase_pt_unpin_page :: "pt_mem \<Rightarrow> u64 \<Rightarrow> u64 \<Rightarrow> int \<Rightarrow> (pt_mem \<times> int) res" where
  "ase_pt_unpin_page m iova pt_root pt_level =
     (if 0 \<le> pt_level \<and> pt_level < 3
      then ase_pt_unpin_walk iova (nat pt_level) m pt_root 3
      else Inl AssertFail)"

subsection \<open>Specification: the tree behind a root and the entry that covers an address\<close>

definition is_table :: "u64 \<Rightarrow> bool" where
  "is_table e \<longleftrightarrow> e \<noteq> 0 \<and> \<not> ase_pt_entry_is_terminal e"

definition mmap_fresh :: "(pt_mem \<Rightarrow> u64 option) \<Rightarrow> bool" where
  "mmap_fresh mm \<longleftrightarrow> (\<forall>m a. mm m = Some a \<longrightarrow> m a = None \<and> is_table a)"

text \<open>The tables of the tree whose root, at a given level, is at address \<open>a\<close>.\<close>

primrec pt_tables :: "nat \<Rightarrow> pt_mem \<Rightarrow> u64 \<Rightarrow> u64 set" where
  "pt_tables 0 m a = {a}"
| "pt_tables (Suc l) m a =
     insert a (\<Union>i. case m a of None \<Rightarrow> {}
                    | Some t \<Rightarrow> if is_table (t i) then pt_tables l m (t i) else {})"

text \<open>
  A tree is well formed when each pointer leads to a table, no table is reached twice, a
  level 0 table holds no pointer and a huge page entry has a count above 0.
\<close>

primrec pt_wf :: "nat \<Rightarrow> pt_mem \<Rightarrow> u64 \<Rightarrow> bool" where
  "pt_wf 0 m a \<longleftrightarrow>
     is_table a \<and> (\<exists>t. m a = Some t \<and> (\<forall>i. \<not> is_table (t i)))"
| "pt_wf (Suc l) m a \<longleftrightarrow>
     is_table a \<and> (\<exists>t. m a = Some t \<and>
       (\<forall>i. is_table (t i) \<longrightarrow> pt_wf l m (t i) \<and> a \<notin> pt_tables l m (t i)) \<and>
       (\<forall>i. ase_pt_entry_is_terminal (t i) \<longrightarrow> ase_pt_get_refcnt (t i) \<noteq> 0) \<and>
       (\<forall>i j. i \<noteq> j \<longrightarrow> is_table (t i) \<longrightarrow> is_table (t j) \<longrightarrow>
          pt_tables l m (t i) \<inter> pt_tables l m (t j) = {}))"

text \<open>The level and the word of the terminal entry that covers address \<open>x\<close>.\<close>

primrec pt_find :: "nat \<Rightarrow> pt_mem \<Rightarrow> u64 \<Rightarrow> u64 \<Rightarrow> (nat \<times> u64) option" where
  "pt_find 0 m a x =
     (case m a of None \<Rightarrow> None
      | Some t \<Rightarrow> let e = t (ase_pt_idx x 0) in if e = 0 then None else Some (0, e))"
| "pt_find (Suc l) m a x =
     (case m a of None \<Rightarrow> None
      | Some t \<Rightarrow> let e = t (ase_pt_idx x (Suc l)) in
          if e = 0 then None
          else if ase_pt_entry_is_terminal e then Some (Suc l, e)
          else pt_find l m e x)"

definition same_page :: "nat \<Rightarrow> nat \<Rightarrow> u64 \<Rightarrow> u64 \<Rightarrow> bool" where
  "same_page l k x y \<longleftrightarrow> (\<forall>j \<in> {k..l}. ase_pt_idx x j = ase_pt_idx y j)"

text \<open>
  How an operation on the tree at \<open>a\<close> may change the memory: the tree stays well formed,
  it grows only by pages that were free, a table that leaves it is unmapped, and nothing
  else changes: no page is leaked and the tables of other trees are untouched.
\<close>

definition pt_evolves :: "nat \<Rightarrow> u64 \<Rightarrow> pt_mem \<Rightarrow> pt_mem \<Rightarrow> bool" where
  "pt_evolves l a m m' \<longleftrightarrow>
     pt_wf l m' a \<and>
     pt_tables l m' a \<subseteq> pt_tables l m a \<union> {x. m x = None} \<and>
     (\<forall>x. x \<notin> pt_tables l m' a \<longrightarrow> m' x = (if x \<in> pt_tables l m a then None else m x))"

text \<open>The word that a pin leaves in the entry of its page, given the word it found.\<close>

definition pinned_entry :: "nat \<Rightarrow> (nat \<times> u64) option \<Rightarrow> u64 \<Rightarrow> u64 res" where
  "pinned_entry k old va =
     rbind (ase_pt_incr_refcnt (case old of Some (k', e) \<Rightarrow> if k' = k then e else 0 | None \<Rightarrow> 0))
       (\<lambda>(v, c). Inr (ase_pt_set_addr v va))"

definition lookup_result :: "(nat \<times> u64) option \<Rightarrow> u64 \<times> int" where
  "lookup_result r = (case r of None \<Rightarrow> (0, -1)
     | Some (k, e) \<Rightarrow> if ase_pt_get_refcnt e = 0 then (0, -1) else (ase_pt_get_addr e, int k))"

section \<open>Entries\<close>

lemma is_terminal_bit: "ase_pt_entry_is_terminal e \<longleftrightarrow> bit e 63"
  by (simp add: ase_pt_entry_is_terminal_def drop_bit_63_neq_0)

lemma ADDR_MASK_eq: "ASE_PT_ADDR_MASK = push_bit 12 (mask 51)"
  by (simp add: ASE_PT_ADDR_MASK_def mask_eq_exp_minus_1 push_bit_eq_mult)

lemma bit_ADDR_MASK [ase_bits]: "bit ASE_PT_ADDR_MASK n \<longleftrightarrow> 12 \<le> n \<and> n < 63"
  unfolding ADDR_MASK_eq bit_push_bit_iff bit_mask_iff by auto

lemma is_terminal_0 [simp]: "\<not> ase_pt_entry_is_terminal 0"
  by (simp add: is_terminal_bit)

lemma not_is_table_0 [simp]: "\<not> is_table 0"
  by (simp add: is_table_def)

lemma is_table_not_terminal: "is_table e \<Longrightarrow> \<not> ase_pt_entry_is_terminal e"
  by (simp add: is_table_def)

lemma is_table_neq_0 [simp]: "is_table e \<Longrightarrow> e \<noteq> 0"
  by (auto simp: is_table_def)

lemma is_terminal_not_table: "ase_pt_entry_is_terminal e \<Longrightarrow> \<not> is_table e"
  by (simp add: is_table_def)

lemma entry_cases:
  obtains "e = 0" | "ase_pt_entry_is_terminal e" | "is_table e"
  by (auto simp: is_table_def)

lemma get_refcnt_ucast: "ase_pt_get_refcnt e = ucast e"
  by (rule bit_word_eqI) (simp add: ase_pt_get_refcnt_def bit_simps ase_bits)

lemma set_addr_simps [simp]:
  "ase_pt_get_addr (ase_pt_set_addr e va) = va AND ASE_PT_ADDR_MASK"
  "ase_pt_get_refcnt (ase_pt_set_addr e va) = ase_pt_get_refcnt e"
  "ase_pt_entry_is_terminal (ase_pt_set_addr e va) = ase_pt_entry_is_terminal e"
  by (rule bit_word_eqI, auto simp: ase_pt_get_addr_def ase_pt_set_addr_def bit_simps ase_bits)
    (rule bit_word_eqI, auto simp: get_refcnt_ucast ase_pt_set_addr_def bit_simps ase_bits,
     auto simp: is_terminal_bit ase_pt_set_addr_def bit_simps ase_bits)

lemma ucast_byte_parts:
  fixes w :: u64 and b :: u8
  shows "ucast ((w AND NOT 0xff) OR ucast b) = b"
  by (rule bit_word_eqI) (auto simp: bit_simps ase_bits)

lemma ucast_byte_parts_numeral:
  fixes w :: u64 and b :: u8
  shows "ucast ((w AND - 256) OR ucast b) = b"
  using ucast_byte_parts [of w b] by simp

lemma byte_255: "(0xff :: u8) = - 1"
  by simp

lemma byte_wrap: "(b :: u8) + 1 = 0 \<Longrightarrow> b = 0xff" "(b :: u8) - 1 = 0xff \<Longrightarrow> b = 0"
  using byte_255 by (metis eq_neg_iff_add_eq_0) (metis byte_255 diff_eq_eq add.left_inverse)

lemma ucast_byte_succ: "b \<noteq> 0xff \<Longrightarrow> (ucast (b :: u8) + 1 :: u64) = ucast (b + 1)"
proof -
  assume "b \<noteq> 0xff"
  then have "unat b \<noteq> 255" by (simp add: word_unat_eq_iff)
  moreover have "unat b < 256" using unsigned_less [where w = b] by simp
  ultimately have "unat b + 1 < 256" by simp
  then have "unat (b + 1) = unat b + 1"
    by (simp add: unat_word_ariths)
  then show ?thesis
    by (metis of_nat_1 of_nat_add of_nat_unat)
qed

lemma ucast_byte_pred: "b \<noteq> 0 \<Longrightarrow> (ucast (b :: u8) - 1 :: u64) = ucast (b - 1)"
proof -
  assume "b \<noteq> 0"
  then have "b - 1 \<noteq> 0xff"
    using byte_wrap(2) by blast
  from ucast_byte_succ [OF this] have "(ucast (b - 1) + 1 :: u64) = ucast b" by simp
  then show ?thesis by (metis add_diff_cancel)
qed

lemma bit_int_256: "bit (0x100 :: int) n \<longleftrightarrow> n = 8"
proof -
  have "(0x100 :: int) = 2 ^ 8" by simp
  then show ?thesis by (simp only: bit_exp_iff) simp
qed

text \<open>What the count functions do to a terminal entry.\<close>

lemma incr_refcnt_cases:
  "ase_pt_incr_refcnt e =
     (if e = 0 then Inr (push_bit 63 1 OR 1, 1)
      else if \<not> ase_pt_entry_is_terminal e \<or> ase_pt_get_refcnt e = 0xff then Inl AssertFail
      else Inr ((e AND NOT 0xff) OR ucast (ase_pt_get_refcnt e + 1), ase_pt_get_refcnt e + 1))"
proof (cases "ase_pt_get_refcnt e = 0xff")
  case True
  have "(ucast ((e AND NOT 0xff) OR (0x100 :: u64)) :: u8) = 0"
    by (rule bit_word_eqI) (auto simp: bit_simps ase_bits bit_int_256)
  with True show ?thesis by (simp add: ase_pt_incr_refcnt_def get_refcnt_ucast)
next
  case False
  then have "ucast e + 1 \<noteq> (0 :: u8)"
    using byte_wrap(1) by (metis get_refcnt_ucast)
  with False show ?thesis
    by (simp add: ase_pt_incr_refcnt_def get_refcnt_ucast ucast_byte_succ ucast_byte_parts_numeral Let_def)
qed

lemma decr_refcnt_cases:
  "ase_pt_decr_refcnt e =
     (if \<not> ase_pt_entry_is_terminal e \<or> ase_pt_get_refcnt e = 0 then Inl AssertFail
      else Inr ((e AND NOT 0xff) OR ucast (ase_pt_get_refcnt e - 1), ase_pt_get_refcnt e - 1))"
proof (cases "ase_pt_get_refcnt e = 0")
  case True
  have "(ucast (- 1 :: u64) :: u8) = 0xff" by code_simp
  with True show ?thesis by (simp add: ase_pt_decr_refcnt_def get_refcnt_ucast Let_def)
next
  case False
  then have "ucast e - 1 \<noteq> (0xff :: u8)"
    using byte_wrap(2) by (metis get_refcnt_ucast)
  with False show ?thesis
    by (simp add: ase_pt_decr_refcnt_def get_refcnt_ucast ucast_byte_pred ucast_byte_parts_numeral Let_def)
qed

lemma is_terminal_parts [simp]:
  "ase_pt_entry_is_terminal ((e AND - 256) OR ucast (c :: u8)) = ase_pt_entry_is_terminal e"
  "ase_pt_entry_is_terminal 0x8000000000000001"
proof -
  have "ase_pt_entry_is_terminal ((e AND NOT 0xff) OR ucast c) = ase_pt_entry_is_terminal e"
    by (auto simp: is_terminal_bit bit_simps ase_bits dest: bit_imp_le_length)
  then show "ase_pt_entry_is_terminal ((e AND - 256) OR ucast c) = ase_pt_entry_is_terminal e"
    by simp
  show "ase_pt_entry_is_terminal 0x8000000000000001"
    by (simp add: ase_pt_entry_is_terminal_def)
qed

lemma incr_refcnt_Inr:
  assumes "ase_pt_incr_refcnt e = Inr (v, c)"
  shows "ase_pt_entry_is_terminal v" and "ase_pt_get_refcnt v = c" and "c \<noteq> 0"
    and "c = ase_pt_get_refcnt e + 1"
  using assms byte_wrap(1) [of "ucast e"]
  by (auto simp: incr_refcnt_cases get_refcnt_ucast ucast_byte_parts_numeral split: if_splits)

lemma decr_refcnt_Inr:
  assumes "ase_pt_decr_refcnt e = Inr (v, c)"
  shows "ase_pt_entry_is_terminal v" and "ase_pt_get_refcnt v = c"
    and "c = ase_pt_get_refcnt e - 1" and "ase_pt_get_addr v = ase_pt_get_addr e"
proof -
  have "ase_pt_get_addr ((e AND NOT 0xff) OR ucast (b :: u8)) = ase_pt_get_addr e" for b
    by (rule bit_word_eqI) (auto simp: ase_pt_get_addr_def bit_simps ase_bits
        dest: bit_imp_le_length)
  then show "ase_pt_entry_is_terminal v" "ase_pt_get_refcnt v = c"
    "c = ase_pt_get_refcnt e - 1" "ase_pt_get_addr v = ase_pt_get_addr e"
    using assms
    by (auto simp: decr_refcnt_cases get_refcnt_ucast ucast_byte_parts_numeral split: if_splits)
qed

section \<open>Trees\<close>

lemma pt_read_Some [simp]: "m pt = Some t \<Longrightarrow> pt_read m pt i = Inr (t i)"
  by (simp add: pt_read_def)

lemma pt_write_Some [simp]: "m pt = Some t \<Longrightarrow> pt_write m pt i v = Inr (m(pt \<mapsto> t(i := v)))"
  by (simp add: pt_write_def)

lemma pt_tables_self [simp]: "a \<in> pt_tables l m a"
  by (cases l) auto

lemma pt_tables_child:
  "m a = Some t \<Longrightarrow> is_table (t i) \<Longrightarrow> pt_tables l m (t i) \<subseteq> pt_tables (Suc l) m a"
  by (fastforce split: option.splits)

lemma pt_wf_table: "pt_wf l m a \<Longrightarrow> is_table a"
  by (cases l) auto

lemma pt_wf_Some: "pt_wf l m a \<Longrightarrow> \<exists>t. m a = Some t"
  by (cases l) auto

lemma pt_wf_SucD:
  assumes "pt_wf (Suc l) m a" and "m a = Some t"
  shows "is_table (t i) \<Longrightarrow> pt_wf l m (t i)"
    and "is_table (t i) \<Longrightarrow> a \<notin> pt_tables l m (t i)"
    and "ase_pt_entry_is_terminal (t i) \<Longrightarrow> ase_pt_get_refcnt (t i) \<noteq> 0"
    and "i \<noteq> j \<Longrightarrow> is_table (t i) \<Longrightarrow> is_table (t j) \<Longrightarrow>
           pt_tables l m (t i) \<inter> pt_tables l m (t j) = {}"
  using assms by auto

lemma pt_tables_dom:
  "pt_wf l m a \<Longrightarrow> x \<in> pt_tables l m a \<Longrightarrow> (\<exists>t. m x = Some t) \<and> is_table x"
proof (induction l arbitrary: a)
  case (Suc l)
  then obtain t where t: "m a = Some t" using pt_wf_Some by blast
  show ?case
  proof (cases "x = a")
    case True
    then show ?thesis using Suc.prems t pt_wf_table by blast
  next
    case False
    then obtain i where "is_table (t i)" and "x \<in> pt_tables l m (t i)"
      using Suc.prems t by (auto split: if_splits)
    then show ?thesis using Suc.IH pt_wf_SucD(1) [OF Suc.prems(1) t] by blast
  qed
qed auto

text \<open>Nothing outside its tables matters to a tree.\<close>

lemma pt_tables_frame:
  "(\<And>x. x \<in> pt_tables l m a \<Longrightarrow> m' x = m x) \<Longrightarrow> pt_tables l m' a = pt_tables l m a"
proof (induction l arbitrary: a)
  case (Suc l)
  have a: "m' a = m a" using Suc.prems by simp
  have "pt_tables l m' (t i) = pt_tables l m (t i)" if "m a = Some t" "is_table (t i)" for t i
    using that pt_tables_child [of m a t i l] by (intro Suc.IH Suc.prems) auto
  with a show ?case by (auto split: option.splits if_splits)
qed simp

lemma pt_wf_frame:
  "pt_wf l m a \<Longrightarrow> (\<And>x. x \<in> pt_tables l m a \<Longrightarrow> m' x = m x) \<Longrightarrow> pt_wf l m' a"
proof (induction l arbitrary: a)
  case (Suc l)
  then obtain t where t: "m a = Some t" using pt_wf_Some by blast
  have t': "m' a = Some t" using Suc.prems(2) t by simp
  have sub: "m' x = m x" if "is_table (t i)" "x \<in> pt_tables l m (t i)" for x i
    using that pt_tables_child [of m a t i l] t by (intro Suc.prems(2)) auto
  have "pt_tables l m' (t i) = pt_tables l m (t i)" if "is_table (t i)" for i
    using sub that by (intro pt_tables_frame) auto
  moreover have "pt_wf l m' (t i)" if "is_table (t i)" for i
    using sub that pt_wf_SucD(1) [OF Suc.prems(1) t] by (intro Suc.IH) auto
  ultimately show ?case
    using pt_wf_SucD [OF Suc.prems(1) t] pt_wf_table [OF Suc.prems(1)] t' by auto
qed auto

lemma pt_find_frame:
  "(\<And>x. x \<in> pt_tables l m a \<Longrightarrow> m' x = m x) \<Longrightarrow> pt_find l m' a y = pt_find l m a y"
proof (induction l arbitrary: a)
  case (Suc l)
  have a: "m' a = m a" using Suc.prems by simp
  have "pt_find l m' (t i) y = pt_find l m (t i) y" if "m a = Some t" "is_table (t i)" for t i
    using that pt_tables_child [of m a t i l] by (intro Suc.IH Suc.prems) auto
  with a show ?case by (auto simp: Let_def is_table_def split: option.splits)
qed (simp split: option.splits)

text \<open>The lookup loop computes \<open>pt_find\<close>.\<close>

lemma refcnt_0 [simp]: "ase_pt_get_refcnt 0 = 0"
  by (simp add: ase_pt_get_refcnt_def)

lemma lookup_walk_find:
  "pt_wf l m a \<Longrightarrow> ase_pt_lookup_walk m x a l = Inr (lookup_result (pt_find l m a x))"
proof (induction l arbitrary: a)
  case 0
  then show ?case by (auto simp: lookup_result_def Let_def is_table_def)
next
  case (Suc l)
  then obtain t where t: "m a = Some t" using pt_wf_Some by blast
  let ?e = "t (ase_pt_idx x (Suc l))"
  have a0: "a \<noteq> 0" using Suc.prems pt_wf_table by fastforce
  consider "?e = 0" | "ase_pt_entry_is_terminal ?e" | "is_table ?e" by (rule entry_cases)
  then show ?case
  proof cases
    case 1
    then show ?thesis using t a0 by (cases l) (auto simp: lookup_result_def)
  next
    case 2
    moreover from 2 have "?e \<noteq> 0" by auto
    ultimately show ?thesis
      using t a0 pt_wf_SucD(3) [OF Suc.prems t] by (auto simp: lookup_result_def Let_def)
  next
    case 3
    then have "pt_wf l m ?e" using pt_wf_SucD(1) [OF Suc.prems t] by blast
    then show ?thesis using t a0 3 Suc.IH by (auto simp: Let_def is_table_def)
  qed
qed

text \<open>A page fresh from \<open>mmap\<close> is a tree with no page in it, at every level.\<close>

lemma pt_zero:
  assumes "m a = Some pt_zero_page" and "is_table a"
  shows "pt_wf l m a" and "pt_tables l m a = {a}" and "pt_find l m a x = None"
  using assms by (cases l; simp add: pt_zero_page_def)+

text \<open>Deleting a tree unmaps its tables and nothing else, and never faults.\<close>

lemma fold_delete_children:
  assumes wf: "pt_wf (Suc l) m a" and t: "m a = Some t"
    and IH: "\<And>m b. pt_wf l m b \<Longrightarrow>
      ase_pt_delete_tree l m b = Inr (\<lambda>x. if x \<in> pt_tables l m b then None else m x)"
    and n: "n \<le> 512"
  shows "fold (\<lambda>idx r. rbind r (\<lambda>m. rbind (pt_read m a (of_nat idx))
                 (\<lambda>sub. ase_pt_delete_tree l m sub))) [0..<n] (Inr m) =
     Inr (\<lambda>x. if \<exists>i < n. is_table (t (of_nat i)) \<and> x \<in> pt_tables l m (t (of_nat i))
              then None else m x)"
  using n
proof (induction n)
  case (Suc n)
  let ?D = "\<lambda>n x. \<exists>i < n. is_table (t (of_nat i)) \<and> x \<in> pt_tables l m (t (of_nat i))"
  let ?m = "\<lambda>x. if ?D n x then None else m x"
  let ?e = "t (of_nat n)"
  have a: "?m a = Some t" using pt_wf_SucD(2) [OF wf t] t by auto
  have "ase_pt_delete_tree l ?m ?e = Inr (\<lambda>x. if ?D (Suc n) x then None else m x)"
  proof (cases "is_table ?e")
    case False
    then have "ase_pt_delete_tree l ?m ?e = Inr ?m" by (cases l) (auto simp: is_table_def)
    moreover have "?D (Suc n) x = ?D n x" for x using False by (auto simp: less_Suc_eq)
    ultimately show ?thesis by (simp only: if_True if_False)
  next
    case True
    have neq: "(of_nat i :: 9 word) \<noteq> of_nat n" if "i < n" for i
      using that Suc.prems by (simp add: word_unat_eq_iff unat_of_nat take_bit_nat_eq_self)
    have same: "?m x = m x" if "x \<in> pt_tables l m ?e" for x
    proof -
      have "\<not> ?D n x"
      proof
        assume "?D n x"
        then obtain i where i: "i < n" "is_table (t (of_nat i))" "x \<in> pt_tables l m (t (of_nat i))"
          by blast
        with that pt_wf_SucD(4) [OF wf t neq [OF i(1)] i(2) True] show False by blast
      qed
      then show ?thesis by (rule if_not_P)
    qed
    have "pt_wf l ?m ?e" using pt_wf_SucD(1) [OF wf t True] same by (rule pt_wf_frame)
    moreover have "pt_tables l ?m ?e = pt_tables l m ?e" using same by (rule pt_tables_frame)
    ultimately show ?thesis using IH True by (auto simp: less_Suc_eq fun_eq_iff)
  qed
  with Suc a show ?case by simp
qed simp

lemma delete_tree_spec:
  "pt_wf l m a \<Longrightarrow>
   ase_pt_delete_tree l m a = Inr (\<lambda>x. if x \<in> pt_tables l m a then None else m x)"
proof (induction l arbitrary: m a)
  case 0
  then show ?case by (auto simp: is_table_def)
next
  case (Suc l)
  then obtain t where t: "m a = Some t" using pt_wf_Some by blast
  have all: "(\<exists>i < 512. P (of_nat i :: 9 word)) = (\<exists>i. P i)" for P
  proof
    assume "\<exists>i. P i"
    then obtain i where "P i" by blast
    moreover have "unat i < 512" using unsigned_less [where w = i] by simp
    ultimately show "\<exists>i < 512. P (of_nat i)"
      by (intro exI [of _ "unat i"]) simp
  qed blast
  note f = fold_delete_children [OF Suc.prems t Suc.IH order_refl,
      unfolded all [of "\<lambda>i. is_table (t i) \<and> x \<in> pt_tables l m (t i)" for x]]
  have "is_table a" using Suc.prems pt_wf_table by blast
  then show ?case
    using f t by (auto simp: is_table_def fun_eq_iff)
qed

text \<open>
  Replacing one entry of a table: the shared step of every operation that changes a tree.
\<close>

lemma pt_update_child:
  assumes wf: "pt_wf (Suc l) m a" and t: "m a = Some t"
    and new: "m' a = Some (t(i := e'))"
    and rest: "\<And>x. x \<noteq> a \<Longrightarrow> \<not> (is_table e' \<and> x \<in> pt_tables l m' e') \<Longrightarrow>
                 m' x = (if is_table (t i) \<and> x \<in> pt_tables l m (t i) then None else m x)"
    and child: "is_table e' \<Longrightarrow> pt_wf l m' e'"
    and grow: "\<And>x. is_table e' \<Longrightarrow> x \<in> pt_tables l m' e' \<Longrightarrow>
                 m x = None \<or> is_table (t i) \<and> x \<in> pt_tables l m (t i)"
    and cnt: "ase_pt_entry_is_terminal e' \<Longrightarrow> ase_pt_get_refcnt e' \<noteq> 0"
  shows "pt_evolves (Suc l) a m m'"
    and "j \<noteq> i \<Longrightarrow> is_table (t j) \<Longrightarrow> pt_find l m' (t j) y = pt_find l m (t j) y"
proof -
  note wfD = pt_wf_SucD [OF wf t]
  have frame: "m' x = m x" if "m x \<noteq> None" "x \<noteq> a"
      "\<not> (is_table (t i) \<and> x \<in> pt_tables l m (t i))" for x
  proof -
    have "\<not> (is_table e' \<and> x \<in> pt_tables l m' e')" using grow [of x] that by blast
    then show ?thesis using rest [OF that(2)] that(3) by simp
  qed
  have sib: "m' x = m x" if "j \<noteq> i" "is_table (t j)" "x \<in> pt_tables l m (t j)" for j x
  proof (rule frame)
    show "m x \<noteq> None" using pt_tables_dom [OF wfD(1) [OF that(2)] that(3)] by auto
    show "x \<noteq> a" using wfD(2) [OF that(2)] that(3) by blast
    show "\<not> (is_table (t i) \<and> x \<in> pt_tables l m (t i))"
      using wfD(4) [OF that(1,2)] that(3) by blast
  qed
  have tab: "pt_tables l m' (t j) = pt_tables l m (t j)" if "j \<noteq> i" "is_table (t j)" for j
    by (rule pt_tables_frame [OF sib [OF that]])
  have wfc: "pt_wf l m' (t j)" if "j \<noteq> i" "is_table (t j)" for j
    by (rule pt_wf_frame [OF wfD(1) [OF that(2)] sib [OF that]])
  show "pt_find l m' (t j) y = pt_find l m (t j) y" if "j \<noteq> i" "is_table (t j)"
    by (rule pt_find_frame [OF sib [OF that]])
  have disj: "x \<notin> pt_tables l m (t j)"
    if "j \<noteq> i" "is_table (t j)" "is_table e'" "x \<in> pt_tables l m' e'" for j x
  proof
    assume x: "x \<in> pt_tables l m (t j)"
    then have "m x \<noteq> None" using pt_tables_dom [OF wfD(1) [OF that(2)]] by auto
    with grow [OF that(3,4)] have "is_table (t i)" "x \<in> pt_tables l m (t i)" by auto
    with wfD(4) [OF that(1,2)] x show False by blast
  qed
  have na: "a \<notin> pt_tables l m' e'" if "is_table e'"
    using grow [OF that, of a] t wfD(2) by auto
  have "pt_wf (Suc l) m' a"
    using new pt_wf_table [OF wf] wfD tab wfc disj na child cnt
    by (auto simp: fun_upd_apply)
  moreover have "pt_tables (Suc l) m' a \<subseteq> pt_tables (Suc l) m a \<union> {x. m x = None}"
    using new t tab grow by (fastforce split: if_splits)
  moreover have "m' x = (if x \<in> pt_tables (Suc l) m a then None else m x)"
    if x: "x \<notin> pt_tables (Suc l) m' a" for x
  proof -
    have xa: "x \<noteq> a" using x pt_tables_self by blast
    have new': "\<not> (is_table e' \<and> x \<in> pt_tables l m' e')"
      using x pt_tables_child [of m' a "t(i := e')" i l, OF new] by (auto simp del: pt_tables.simps)
    have sibs: "x \<notin> pt_tables l m (t j)" if "j \<noteq> i" "is_table (t j)" for j
      using x pt_tables_child [of m' a "t(i := e')" j l, OF new] tab [OF that] that
      by (auto simp del: pt_tables.simps)
    have "x \<in> pt_tables (Suc l) m a \<longleftrightarrow> is_table (t i) \<and> x \<in> pt_tables l m (t i)"
      using t xa sibs by (auto split: if_splits) metis+
    then show ?thesis using rest [OF xa new'] by simp
  qed
  ultimately show "pt_evolves (Suc l) a m m'" unfolding pt_evolves_def by blast
qed

lemma pt_evolves_frame:
  "pt_evolves l a m m' \<Longrightarrow> m x \<noteq> None \<Longrightarrow> x \<notin> pt_tables l m a \<Longrightarrow> m' x = m x"
  unfolding pt_evolves_def by (metis (mono_tags, lifting) UnE mem_Collect_eq subsetD)

lemma pt_evolves_refl: "pt_wf l m a \<Longrightarrow> pt_evolves l a m m"
  by (simp add: pt_evolves_def)

lemma pt_evolves_wf: "pt_evolves l a m m' \<Longrightarrow> pt_wf l m' a"
  by (simp add: pt_evolves_def)

lemma pt_evolves_trans:
  assumes e1: "pt_evolves l a m m1" and e2: "pt_evolves l a m1 m2"
  shows "pt_evolves l a m m2"
proof -
  let ?T = "\<lambda>m. pt_tables l m a"
  have s1: "x \<in> ?T m \<or> m x = None" if "x \<in> ?T m1" for x
    using e1 that by (auto simp: pt_evolves_def)
  have r1: "m1 x = (if x \<in> ?T m then None else m x)" if "x \<notin> ?T m1" for x
    using e1 that by (simp add: pt_evolves_def)
  have s2: "x \<in> ?T m1 \<or> m1 x = None" if "x \<in> ?T m2" for x
    using e2 that by (auto simp: pt_evolves_def)
  have r2: "m2 x = (if x \<in> ?T m1 then None else m1 x)" if "x \<notin> ?T m2" for x
    using e2 that by (simp add: pt_evolves_def)
  have "x \<in> ?T m \<or> m x = None" if "x \<in> ?T m2" for x
    using s2 [OF that] s1 r1 [of x] by (cases "x \<in> ?T m1") (auto split: if_splits)
  moreover have "m2 x = (if x \<in> ?T m then None else m x)" if "x \<notin> ?T m2" for x
    using r2 [OF that] s1 [of x] r1 [of x] by (cases "x \<in> ?T m1") auto
  ultimately show ?thesis using e2 by (auto simp: pt_evolves_def)
qed

lemma pt_descend:
  assumes wf: "pt_wf (Suc l) m a" and t: "m a = Some t" and i: "is_table (t i)"
    and ev: "pt_evolves l (t i) m m'"
  shows "pt_evolves (Suc l) a m m'"
    and "pt_find (Suc l) m' a y =
           (if ase_pt_idx y (Suc l) = i then pt_find l m' (t i) y else pt_find (Suc l) m a y)"
proof -
  have na: "a \<notin> pt_tables l m (t i)" using pt_wf_SucD(2) [OF wf t i] .
  then have t': "m' a = Some t" using pt_evolves_frame [OF ev] t by simp
  have rest: "m' x = (if is_table (t i) \<and> x \<in> pt_tables l m (t i) then None else m x)"
    if "\<not> (is_table (t i) \<and> x \<in> pt_tables l m' (t i))" for x
    using ev that i by (simp add: pt_evolves_def)
  have grow: "m x = None \<or> is_table (t i) \<and> x \<in> pt_tables l m (t i)"
    if "x \<in> pt_tables l m' (t i)" for x
    using ev that i by (auto simp: pt_evolves_def)
  have t'': "m' a = Some (t(i := t i))" using t' by simp
  note upd = pt_update_child [OF wf t t'' rest]
  have child: "pt_wf l m' (t i)" using ev by (simp add: pt_evolves_def)
  show "pt_evolves (Suc l) a m m'"
    using child grow pt_wf_SucD(3) [OF wf t] by (intro upd(1)) auto
  have sib: "pt_find l m' (t j) y = pt_find l m (t j) y" if "j \<noteq> i" "is_table (t j)" for j
    using child grow pt_wf_SucD(3) [OF wf t] that by (intro upd(2)) auto
  show "pt_find (Suc l) m' a y =
           (if ase_pt_idx y (Suc l) = i then pt_find l m' (t i) y else pt_find (Suc l) m a y)"
    using t t' i sib by (auto simp: Let_def is_table_def)
qed

lemma pt_alloc:
  assumes wf: "pt_wf (Suc l) m a" and t: "m a = Some t" and i: "t i = 0"
    and b: "m b = None" "is_table b"
  defines "m1 \<equiv> m(b \<mapsto> pt_zero_page, a \<mapsto> t(i := b))"
  shows "pt_evolves (Suc l) a m m1" and "pt_find (Suc l) m1 a y = pt_find (Suc l) m a y"
proof -
  have ab: "a \<noteq> b" using t b by auto
  then have zb: "m1 b = Some pt_zero_page" by (simp add: m1_def)
  note z = pt_zero [of m1 b, OF zb b(2)]
  have rest: "m1 x = (if is_table (t i) \<and> x \<in> pt_tables l m (t i) then None else m x)"
    if "x \<noteq> a" "\<not> (is_table b \<and> x \<in> pt_tables l m1 b)" for x
    using that b i z(2) by (simp add: m1_def)
  have t1: "m1 a = Some (t(i := b))" by (simp add: m1_def)
  note upd = pt_update_child [OF wf t t1 rest z(1)]
  show "pt_evolves (Suc l) a m m1"
    using b z(2) is_table_not_terminal [OF b(2)] by (intro upd(1)) auto
  have sib: "pt_find l m1 (t j) y = pt_find l m (t j) y" if "j \<noteq> i" "is_table (t j)" for j
    using b z(2) is_table_not_terminal [OF b(2)] that by (intro upd(2)) auto
  show "pt_find (Suc l) m1 a y = pt_find (Suc l) m a y"
    using t t1 i b(2) z(3) sib is_table_not_terminal [OF b(2)]
    by (auto simp: Let_def is_table_def)
qed

lemma pin_entry_eq:
  fixes iova va :: u64
  assumes wf: "pt_wf l m a" and t: "m a = Some t"
  defines "i \<equiv> ase_pt_idx iova l"
  defines "m1 \<equiv> \<lambda>x. if is_table (t i) \<and> x \<in> pt_tables (l - 1) m (t i) then None else m x"
  shows "ase_pt_pin_entry va iova m a l =
     rbind (ase_pt_incr_refcnt (if is_table (t i) then 0 else t i))
       (\<lambda>(v, c). Inr (m1(a \<mapsto> t(i := ase_pt_set_addr v va)), 0))"
proof (cases "is_table (t i)")
  case False
  then have "m1 = m" by (simp add: m1_def)
  moreover have "\<not> (\<not> ase_pt_entry_is_terminal (t i) \<and> t i \<noteq> 0)"
    using False by (auto simp: is_table_def)
  ultimately show ?thesis
    using False t by (auto simp: ase_pt_pin_entry_def i_def [symmetric] Let_def case_prod_beta)
next
  case True
  then obtain l' where l: "l = Suc l'" using wf t by (cases l) auto
  have a: "m1 a = Some t" using pt_wf_SucD(2) [OF wf [unfolded l] t True] t l by (simp add: m1_def)
  have del: "ase_pt_delete_tree l' m (t i) = Inr m1"
    using delete_tree_spec [OF pt_wf_SucD(1) [OF wf [unfolded l] t True]] True l
    by (simp add: m1_def)
  show ?thesis
    using True t a del l is_table_not_terminal [OF True] is_table_neq_0 [OF True]
    by (simp add: ase_pt_pin_entry_def i_def Let_def case_prod_beta)
qed

lemma same_page_Suc:
  "k \<le> l \<Longrightarrow> same_page (Suc l) k x y \<longleftrightarrow>
     ase_pt_idx x (Suc l) = ase_pt_idx y (Suc l) \<and> same_page l k x y"
  by (auto simp: same_page_def atLeastAtMostSuc_conv le_Suc_eq)

lemma same_page_self: "same_page k k x y \<longleftrightarrow> ase_pt_idx x k = ase_pt_idx y k"
  by (simp add: same_page_def)

lemma pt_find_level: "pt_find l m a y = Some (k, e) \<Longrightarrow> k \<le> l"
  by (induction l arbitrary: a) (fastforce simp: Let_def split: option.splits if_splits)+

text \<open>Pinning at the level that was reached.\<close>

lemma pin_entry_spec:
  assumes wf: "pt_wf l m a"
  shows "case ase_pt_pin_entry va iova m a l of
      Inl f \<Rightarrow> f = AssertFail \<and> pinned_entry l (pt_find l m a iova) va = Inl AssertFail
    | Inr (m', s) \<Rightarrow> s = 0 \<and> pt_evolves l a m m' \<and>
        (\<exists>e'. pinned_entry l (pt_find l m a iova) va = Inr e' \<and>
          (\<forall>y. pt_find l m' a y =
             (if same_page l l iova y then Some (l, e') else pt_find l m a y)))"
proof -
  obtain t where t: "m a = Some t" using pt_wf_Some [OF wf] by blast
  let ?i = "ase_pt_idx iova l"
  let ?e = "if is_table (t ?i) then 0 else t ?i"
  let ?m1 = "\<lambda>x. if is_table (t ?i) \<and> x \<in> pt_tables (l - 1) m (t ?i) then None else m x"
  have old: "pinned_entry l (pt_find l m a iova) va =
      rbind (ase_pt_incr_refcnt ?e) (\<lambda>(v, c). Inr (ase_pt_set_addr v va))"
  proof (cases l)
    case 0
    then show ?thesis using wf t by (auto simp: pinned_entry_def Let_def)
  next
    case (Suc l')
    then show ?thesis
      using t pt_find_level [of l' m] by (fastforce simp: pinned_entry_def Let_def is_table_def split: option.splits)
  qed
  show ?thesis
  proof (cases "ase_pt_incr_refcnt ?e")
    case (Inl f)
    then have "f = AssertFail" by (auto simp: incr_refcnt_cases split: if_splits)
    with Inl show ?thesis by (simp add: pin_entry_eq [OF wf t] old)
  next
    case (Inr vc)
    obtain v c where vc: "ase_pt_incr_refcnt ?e = Inr (v, c)" using Inr by (cases vc) auto
    let ?e' = "ase_pt_set_addr v va"
    let ?m' = "?m1(a \<mapsto> t(?i := ?e'))"
    note v = incr_refcnt_Inr [OF vc]
    have ter: "ase_pt_entry_is_terminal ?e'" and e0: "?e' \<noteq> 0"
      using v by auto (metis is_terminal_0 set_addr_simps(3))
    have "pt_evolves l a m ?m' \<and> (\<forall>y. pt_find l ?m' a y =
             (if same_page l l iova y then Some (l, ?e') else pt_find l m a y))"
    proof (cases l)
      case 0
      then show ?thesis
        using wf t ter e0 is_terminal_not_table [OF ter]
        by (auto simp: pt_evolves_def same_page_self Let_def)
    next
      case (Suc l')
      note wf' = wf [unfolded Suc]
      have new: "?m' a = Some (t(?i := ?e'))" by simp
      have rest: "?m' x = (if is_table (t ?i) \<and> x \<in> pt_tables l' m (t ?i) then None else m x)"
        if "x \<noteq> a" for x
        using that Suc by auto
      note upd = pt_update_child [OF wf' t new rest]
      have ev: "pt_evolves (Suc l') a m ?m'"
        using ter v by (intro upd(1)) (auto simp: is_terminal_not_table)
      have sib: "pt_find l' ?m' (t j) y = pt_find l' m (t j) y"
        if "j \<noteq> ?i" "is_table (t j)" for j y
        using ter v that by (intro upd(2)) (auto simp: is_terminal_not_table)
      show ?thesis
        using Suc ev new t ter e0 sib by (auto simp: same_page_self Let_def is_table_def)
    qed
    then show ?thesis using vc by (auto simp: pin_entry_eq [OF wf t] old)
  qed
qed

definition pin_post ::
  "nat \<Rightarrow> nat \<Rightarrow> u64 \<Rightarrow> u64 \<Rightarrow> pt_mem \<Rightarrow> u64 \<Rightarrow> (pt_mem \<times> int) res \<Rightarrow> bool" where
  "pin_post l k va iova m a r \<longleftrightarrow> (case r of
      Inl f \<Rightarrow> f = AssertFail \<and> pinned_entry k (pt_find l m a iova) va = Inl AssertFail
    | Inr (m', s) \<Rightarrow> pt_evolves l a m m' \<and>
        (s = 0 \<and> (\<exists>e'. pinned_entry k (pt_find l m a iova) va = Inr e' \<and>
           (\<forall>y. pt_find l m' a y =
              (if same_page l k iova y then Some (k, e') else pt_find l m a y)))
         \<or> s = -1 \<and> (\<forall>y. pt_find l m' a y = pt_find l m a y)))"

lemma pin_post_descend:
  assumes wf: "pt_wf (Suc l) m a" and t: "m a = Some t" and k: "k \<le> l"
    and i: "is_table (t (ase_pt_idx iova (Suc l)))"
    and IH: "pin_post l k va iova m (t (ase_pt_idx iova (Suc l))) r"
  shows "pin_post (Suc l) k va iova m a r"
proof -
  have f: "pt_find (Suc l) m a y = pt_find l m (t (ase_pt_idx iova (Suc l))) y"
    if "ase_pt_idx y (Suc l) = ase_pt_idx iova (Suc l)" for y
    using t i that by (simp add: Let_def is_table_def)
  show ?thesis
  proof (cases r)
    case (Inl e)
    then show ?thesis using IH f by (simp add: pin_post_def)
  next
    case (Inr ms)
    obtain m' s where ms: "r = Inr (m', s)" using Inr by (cases ms) auto
    then have ev: "pt_evolves l (t (ase_pt_idx iova (Suc l))) m m'"
      using IH by (simp add: pin_post_def)
    note d = pt_descend [OF wf t i ev]
    show ?thesis
      using IH ms d f by (auto simp: pin_post_def same_page_Suc [OF k])
  qed
qed

lemma pin_post_alloc:
  assumes ev: "pt_evolves l a m m1" and find: "\<And>y. pt_find l m1 a y = pt_find l m a y"
    and post: "pin_post l k va iova m1 a r"
  shows "pin_post l k va iova m a r"
  using post pt_evolves_trans [OF ev] by (auto simp: pin_post_def find split: sum.splits)

lemma pin_post_fail:
  "pt_evolves l a m m' \<Longrightarrow> (\<And>y. pt_find l m' a y = pt_find l m a y) \<Longrightarrow>
   pin_post l k va iova m a (Inr (m', -1))"
  by (simp add: pin_post_def)

lemma pin_walk_spec:
  assumes mm: "mmap_fresh mm"
  shows "pt_wf l m a \<Longrightarrow> k \<le> l \<Longrightarrow> pin_post l k va iova m a (ase_pt_pin_walk mm va iova k m a l)"
proof (induction l arbitrary: m a)
  case 0
  then show ?case using pin_entry_spec [OF 0(1), where va = va and iova = iova]
    by (auto simp: pin_post_def split: sum.splits)
next
  case (Suc l)
  show ?case
  proof (cases "Suc l = k")
    case True
    then show ?thesis using pin_entry_spec [OF Suc.prems(1), where va = va and iova = iova]
      by (auto simp: pin_post_def split: sum.splits)
  next
    case False
    then have k: "k \<le> l" using Suc.prems by simp
    obtain t where t: "m a = Some t" using pt_wf_Some [OF Suc.prems(1)] by blast
    let ?i = "ase_pt_idx iova (Suc l)"
    note refl = pt_evolves_refl [OF Suc.prems(1)]
    consider "t ?i = 0" | "ase_pt_entry_is_terminal (t ?i)" | "is_table (t ?i)"
      by (rule entry_cases)
    then show ?thesis
    proof cases
      case 1
      show ?thesis
      proof (cases "mm m")
        case None
        then show ?thesis using False t 1 pin_post_fail [OF refl] by (simp add: Let_def)
      next
        case (Some b)
        then have b: "m b = None" "is_table b" using mm by (auto simp: mmap_fresh_def)
        let ?m1 = "m(b \<mapsto> pt_zero_page, a \<mapsto> t(?i := b))"
        note al = pt_alloc [OF Suc.prems(1) t 1 b]
        have wf1: "pt_wf (Suc l) ?m1 a" using al(1) by (simp add: pt_evolves_def)
        have t1: "?m1 a = Some (t(?i := b))" by simp
        have ib: "is_table ((t(?i := b)) ?i)" using b(2) by simp
        have "pt_wf l ?m1 b" using pt_wf_SucD(1) [OF wf1 t1 ib] by (simp only: fun_upd_same)
        then have "pin_post l k va iova ?m1 b (ase_pt_pin_walk mm va iova k ?m1 b l)"
          using Suc.IH k by blast
        then have "pin_post (Suc l) k va iova ?m1 a (ase_pt_pin_walk mm va iova k ?m1 b l)"
          using pin_post_descend [OF wf1 t1 k ib] by (simp only: fun_upd_same)
        moreover have "a \<noteq> b" using t b by auto
        ultimately show ?thesis
          using False t 1 Some pin_post_alloc [OF al] is_table_not_terminal [OF b(2)]
          by (simp add: Let_def)
      qed
    next
      case 2
      then have "t ?i \<noteq> 0" by auto
      then show ?thesis using False t 2 pin_post_fail [OF refl] by (simp add: Let_def)
    next
      case 3
      then have "pin_post l k va iova m (t ?i) (ase_pt_pin_walk mm va iova k m (t ?i) l)"
        using Suc.IH k pt_wf_SucD(1) [OF Suc.prems(1) t] by blast
      then show ?thesis
        using False t 3 pin_post_descend [OF Suc.prems(1) t k 3] is_table_not_terminal [OF 3]
        by (simp add: Let_def)
    qed
  qed
qed

text \<open>
  Unpinning, by what covers the address: a page of the level that is asked for loses one
  reference, a larger page makes the walk follow the terminal entry as if it were a table
  address, anything else is reported as missing.
\<close>

definition pt_mem_ok :: "pt_mem \<Rightarrow> bool" where
  "pt_mem_ok m \<longleftrightarrow> (\<forall>a. m a \<noteq> None \<longrightarrow> is_table a)"

definition unpinned_entry :: "nat \<Rightarrow> u64 \<Rightarrow> (nat \<times> u64) option" where
  "unpinned_entry k v = (if k \<noteq> 0 \<and> ase_pt_get_refcnt v = 0 then None else Some (k, v))"

definition unpin_post ::
  "nat \<Rightarrow> nat \<Rightarrow> u64 \<Rightarrow> pt_mem \<Rightarrow> u64 \<Rightarrow> (pt_mem \<times> int) res \<Rightarrow> bool" where
  "unpin_post l k iova m a r \<longleftrightarrow> (case pt_find l m a iova of
      None \<Rightarrow> r = Inr (m, -1)
    | Some (k', e) \<Rightarrow>
        if k' < k then r = Inr (m, -1)
        else if k < k' then r = Inl Segv
        else (case ase_pt_decr_refcnt e of
            Inl f \<Rightarrow> r = Inl f
          | Inr (v, c) \<Rightarrow> \<exists>m'. r = Inr (m', 0) \<and> pt_evolves l a m m' \<and>
              (\<forall>y. pt_find l m' a y =
                 (if same_page l k iova y then unpinned_entry k v else pt_find l m a y))))"

lemma unpin_entry_spec:
  assumes wf: "pt_wf l m a"
  shows "unpin_post l l iova m a (ase_pt_unpin_entry iova m a l)"
proof -
  obtain t where t: "m a = Some t" using pt_wf_Some [OF wf] by blast
  have a0: "a \<noteq> 0" using pt_wf_table [OF wf] by auto
  let ?i = "ase_pt_idx iova l"
  show ?thesis
  proof (cases "ase_pt_entry_is_terminal (t ?i)")
    case False
    then have "ase_pt_unpin_entry iova m a l = Inr (m, -1)"
      using t a0 by (auto simp: ase_pt_unpin_entry_def Let_def)
    moreover have "\<not> (\<exists>e k. pt_find l m a iova = Some (k, e) \<and> l \<le> k)"
    proof (cases l)
      case 0
      then show ?thesis using False wf t by (auto simp: Let_def is_table_def)
    next
      case (Suc l')
      then show ?thesis
        using False t by (auto simp: Let_def dest!: pt_find_level split: if_splits)
    qed
    ultimately show ?thesis by (auto simp: unpin_post_def not_le split: option.splits)
  next
    case True
    then have nz: "t ?i \<noteq> 0" and nt: "\<not> is_table (t ?i)" by (auto simp: is_terminal_not_table)
    have found: "pt_find l m a iova = Some (l, t ?i)"
      using True t nz by (cases l) (simp_all add: Let_def)
    show ?thesis
    proof (cases "ase_pt_decr_refcnt (t ?i)")
      case (Inl f)
      then show ?thesis
        using True t a0 found
        by (cases "l = 0") (simp_all add: unpin_post_def ase_pt_unpin_entry_def Let_def)
    next
      case (Inr vc)
      obtain v c where vc: "ase_pt_decr_refcnt (t ?i) = Inr (v, c)" using Inr by (cases vc) auto
      note v = decr_refcnt_Inr [OF vc]
      have v0: "v \<noteq> 0" using v(1) by auto
      let ?e' = "if l \<noteq> 0 \<and> c = 0 then 0 else v"
      let ?m' = "m(a \<mapsto> t(?i := ?e'))"
      have r: "ase_pt_unpin_entry iova m a l = Inr (?m', 0)"
        using True t a0 vc by (cases "l = 0") (simp_all add: ase_pt_unpin_entry_def Let_def)
      have ent: "(if ?e' = 0 then None else Some (l, ?e')) = unpinned_entry l v"
        using v v0 by (simp add: unpinned_entry_def)
      have "pt_evolves l a m ?m' \<and> (\<forall>y. pt_find l ?m' a y =
             (if same_page l l iova y then unpinned_entry l v else pt_find l m a y))"
      proof (cases l)
        case 0
        then show ?thesis
          using wf t v v0 ent is_terminal_not_table [OF v(1)]
          by (auto simp: pt_evolves_def same_page_self Let_def)
      next
        case (Suc l')
        note wf' = wf [unfolded Suc]
        have new: "?m' a = Some (t(?i := ?e'))" by simp
        have rest: "?m' x = (if is_table (t ?i) \<and> x \<in> pt_tables l' m (t ?i) then None else m x)"
          if "x \<noteq> a" for x
          using that nt by auto
        note upd = pt_update_child [OF wf' t new rest]
        have cnt: "ase_pt_entry_is_terminal ?e' \<Longrightarrow> ase_pt_get_refcnt ?e' \<noteq> 0"
          using v Suc by (auto split: if_splits)
        have ntab: "\<not> is_table ?e'" using v by (simp add: is_terminal_not_table)
        have ev: "pt_evolves (Suc l') a m ?m'"
          using cnt ntab by (intro upd(1)) blast+
        have sib: "pt_find l' ?m' (t j) y = pt_find l' m (t j) y"
          if "j \<noteq> ?i" "is_table (t j)" for j y
          using cnt ntab that by (intro upd(2)) blast+
        have "pt_find (Suc l') ?m' a y =
             (if same_page l l iova y then unpinned_entry l v else pt_find (Suc l') m a y)" for y
          using Suc t v v0 sib
          by (auto simp: same_page_self Let_def is_table_def unpinned_entry_def)
        then show ?thesis using Suc ev by simp
      qed
      then show ?thesis using found vc r by (auto simp: unpin_post_def)
    qed
  qed
qed

lemma unpin_post_descend:
  assumes wf: "pt_wf (Suc l) m a" and t: "m a = Some t" and k: "k \<le> l"
    and i: "is_table (t (ase_pt_idx iova (Suc l)))"
    and IH: "unpin_post l k iova m (t (ase_pt_idx iova (Suc l))) r"
  shows "unpin_post (Suc l) k iova m a r"
proof -
  let ?e = "t (ase_pt_idx iova (Suc l))"
  have f: "pt_find (Suc l) m a y = pt_find l m ?e y"
    if "ase_pt_idx y (Suc l) = ase_pt_idx iova (Suc l)" for y
    using t i that by (simp add: Let_def is_table_def)
  have up: "pt_evolves (Suc l) a m m' \<and> (\<forall>y. pt_find (Suc l) m' a y =
      (if same_page (Suc l) k iova y then u else pt_find (Suc l) m a y))"
    if "pt_evolves l ?e m m'"
      "\<forall>y. pt_find l m' ?e y = (if same_page l k iova y then u else pt_find l m ?e y)" for m' u
    using pt_descend [OF wf t i that(1)] that(2) f by (auto simp: same_page_Suc [OF k])
  show ?thesis
  proof (cases "\<exists>e v c. pt_find l m ?e iova = Some (k, e) \<and> ase_pt_decr_refcnt e = Inr (v, c)")
    case False
    then show ?thesis
      using IH unfolding unpin_post_def f [OF refl] by (auto split: option.splits sum.splits)
  next
    case True
    then obtain e v c where e: "pt_find l m ?e iova = Some (k, e)" "ase_pt_decr_refcnt e = Inr (v, c)"
      by blast
    with IH obtain m' where m': "r = Inr (m', 0)" "pt_evolves l ?e m m'"
      "\<forall>y. pt_find l m' ?e y = (if same_page l k iova y then unpinned_entry k v else pt_find l m ?e y)"
      by (auto simp: unpin_post_def)
    show ?thesis
      using e m'(1) up [OF m'(2,3)] unfolding unpin_post_def f [OF refl] by simp
  qed
qed

lemma unpin_walk_spec:
  assumes ok: "pt_mem_ok m"
  shows "pt_wf l m a \<Longrightarrow> k \<le> l \<Longrightarrow> unpin_post l k iova m a (ase_pt_unpin_walk iova k m a l)"
proof (induction l arbitrary: a)
  case 0
  then show ?case using unpin_entry_spec [OF 0(1)] by simp
next
  case (Suc l)
  show ?case
  proof (cases "Suc l = k")
    case True
    then have k: "k = Suc l" by simp
    show ?thesis using unpin_entry_spec [OF Suc.prems(1)] unfolding k by simp
  next
    case False
    then have k: "k \<le> l" using Suc.prems by simp
    obtain t where t: "m a = Some t" using pt_wf_Some [OF Suc.prems(1)] by blast
    note nta = is_table_not_terminal [OF pt_wf_table [OF Suc.prems(1)]]
    let ?e = "t (ase_pt_idx iova (Suc l))"
    consider "?e = 0" | "ase_pt_entry_is_terminal ?e" | "is_table ?e" by (rule entry_cases)
    then show ?thesis
    proof cases
      case 1
      then show ?thesis using False t by (simp add: unpin_post_def)
    next
      case 2
      then have e0: "?e \<noteq> 0" and none: "m ?e = None"
        using ok by (auto simp: pt_mem_ok_def is_table_def)
      then have "ase_pt_unpin_walk iova k m ?e l = Inl Segv"
        by (cases l) (auto simp: ase_pt_unpin_entry_def pt_read_def Let_def)
      then show ?thesis using False t 2 e0 k nta by (simp add: unpin_post_def Let_def)
    next
      case 3
      then have "unpin_post l k iova m ?e (ase_pt_unpin_walk iova k m ?e l)"
        using Suc.IH k pt_wf_SucD(1) [OF Suc.prems(1) t] by blast
      then show ?thesis
        using False t 3 nta unpin_post_descend [OF Suc.prems(1) t k 3] by simp
    qed
  qed
qed

section \<open>The page table operations\<close>

text \<open>The four level trees that the rest of the program hands to the operations.\<close>

abbreviation pt_root_ok :: "pt_mem \<Rightarrow> u64 \<Rightarrow> bool" where
  "pt_root_ok m root \<equiv> pt_wf 3 m root"

lemma pt_lookup_addr_find:
  "pt_root_ok m root \<Longrightarrow> ase_pt_lookup_addr m x root = Inr (lookup_result (pt_find 3 m root x))"
  by (simp add: ase_pt_lookup_addr_def lookup_walk_find)

lemma pt_pin_page_spec:
  assumes "mmap_fresh mm" and "pt_root_ok m root" and "0 \<le> k" and "k < 3"
  shows "pin_post 3 (nat k) va iova m root (ase_pt_pin_page mm m va iova root k)"
  using pin_walk_spec [OF assms(1,2), of "nat k"] assms(3,4) by (simp add: ase_pt_pin_page_def)

lemma pt_unpin_page_spec:
  assumes "pt_mem_ok m" and "pt_root_ok m root" and "0 \<le> k" and "k < 3"
  shows "unpin_post 3 (nat k) iova m root (ase_pt_unpin_page m iova root k)"
  using unpin_walk_spec [OF assms(1,2), of "nat k"] assms(3,4) by (simp add: ase_pt_unpin_page_def)

lemma pt_evolves_mem_ok:
  assumes "pt_mem_ok m" and ev: "pt_evolves l a m m'"
  shows "pt_mem_ok m'"
proof -
  have "is_table x" if "m' x \<noteq> None" for x
  proof (cases "x \<in> pt_tables l m' a")
    case True
    then show ?thesis using ev pt_tables_dom by (auto simp: pt_evolves_def)
  next
    case False
    then have "m x \<noteq> None" using ev that by (auto simp: pt_evolves_def split: if_splits)
    then show ?thesis using assms(1) by (simp add: pt_mem_ok_def)
  qed
  then show ?thesis by (simp add: pt_mem_ok_def)
qed

text \<open>A tree that shares no table with the one an operation works on is not affected.\<close>

lemma pt_evolves_other:
  assumes ev: "pt_evolves l a m m'" and b: "pt_wf l' m b"
    and disj: "pt_tables l m a \<inter> pt_tables l' m b = {}"
  shows "pt_wf l' m' b" and "pt_find l' m' b y = pt_find l' m b y"
    and "pt_tables l' m' b = pt_tables l' m b" and "pt_tables l m' a \<inter> pt_tables l' m' b = {}"
proof -
  have same: "m' x = m x" if "x \<in> pt_tables l' m b" for x
    using that disj pt_tables_dom [OF b that] by (intro pt_evolves_frame [OF ev]) auto
  show "pt_wf l' m' b" by (rule pt_wf_frame [OF b same])
  show "pt_find l' m' b y = pt_find l' m b y" by (rule pt_find_frame [OF same])
  show t: "pt_tables l' m' b = pt_tables l' m b" by (rule pt_tables_frame [OF same])
  show "pt_tables l m' a \<inter> pt_tables l' m' b = {}"
    using ev disj pt_tables_dom [OF b] unfolding t by (fastforce simp: pt_evolves_def)
qed

lemma pinned_entry_Inr:
  assumes "pinned_entry k old va = Inr e'"
  shows "ase_pt_entry_is_terminal e'" and "ase_pt_get_refcnt e' \<noteq> 0"
    and "ase_pt_get_addr e' = va AND ASE_PT_ADDR_MASK"
proof -
  from assms obtain e v c where "ase_pt_incr_refcnt e = Inr (v, c)" and "e' = ase_pt_set_addr v va"
    by (auto simp: pinned_entry_def)
  then show "ase_pt_entry_is_terminal e'" "ase_pt_get_refcnt e' \<noteq> 0"
    "ase_pt_get_addr e' = va AND ASE_PT_ADDR_MASK"
    using incr_refcnt_Inr [of e v c] by simp_all
qed

lemma first_refcnt: "ase_pt_get_refcnt 0x8000000000000001 = 1"
  by (simp add: ase_pt_get_refcnt_def)

section \<open>The interface\<close>

text \<open>
  What the address translation code relies on: a map from pages to entries behind a lookup,
  a pin and an unpin operation. The lemmas of the locale hold for any implementation of it;
  the page table below implements it, with the state being the allocator, the memory and
  the root of the tree.
\<close>

locale page_map =
  fixes ok :: "'s \<Rightarrow> bool"
    and entry :: "'s \<Rightarrow> u64 \<Rightarrow> (nat \<times> u64) option"
    and lookup :: "'s \<Rightarrow> u64 \<Rightarrow> (u64 \<times> int) res"
    and pin :: "'s \<Rightarrow> u64 \<Rightarrow> u64 \<Rightarrow> int \<Rightarrow> ('s \<times> int) res"
    and unpin :: "'s \<Rightarrow> u64 \<Rightarrow> int \<Rightarrow> ('s \<times> int) res"
  assumes lookup_entry: "ok s \<Longrightarrow> lookup s x = Inr (lookup_result (entry s x))"
    and entry_terminal: "ok s \<Longrightarrow> entry s x = Some (j, e) \<Longrightarrow>
          ase_pt_entry_is_terminal e \<and> (j \<noteq> 0 \<longrightarrow> ase_pt_get_refcnt e \<noteq> 0)"
    and pin_done: "ok s \<Longrightarrow> 0 \<le> k \<Longrightarrow> k < 3 \<Longrightarrow> pin s va iova k = Inr (s', 0) \<Longrightarrow>
          ok s' \<and> (\<exists>e'. pinned_entry (nat k) (entry s iova) va = Inr e' \<and>
            (\<forall>y. entry s' y =
               (if same_page 3 (nat k) iova y then Some (nat k, e') else entry s y)))"
    and pin_failed: "ok s \<Longrightarrow> 0 \<le> k \<Longrightarrow> k < 3 \<Longrightarrow> pin s va iova k = Inr (s', st) \<Longrightarrow> st \<noteq> 0 \<Longrightarrow>
          ok s' \<and> entry s' = entry s"
    and unpin_done: "ok s \<Longrightarrow> 0 \<le> k \<Longrightarrow> k < 3 \<Longrightarrow> entry s iova = Some (nat k, e) \<Longrightarrow>
          ase_pt_decr_refcnt e = Inr (v, c) \<Longrightarrow>
          \<exists>s'. unpin s iova k = Inr (s', 0) \<and> ok s' \<and>
            (\<forall>y. entry s' y =
               (if same_page 3 (nat k) iova y then unpinned_entry (nat k) v else entry s y))"
begin

lemma lookup_pinned:
  assumes "ok s" "0 \<le> k" "k < 3" "pin s va iova k = Inr (s', 0)" "same_page 3 (nat k) iova y"
  shows "lookup s' y = Inr (va AND ASE_PT_ADDR_MASK, k)"
proof -
  obtain e' where s': "ok s'" and e': "pinned_entry (nat k) (entry s iova) va = Inr e'"
    and y: "entry s' y = Some (nat k, e')"
    using pin_done [OF assms(1-4)] assms(5) by auto
  then show ?thesis
    using pinned_entry_Inr [OF e'] assms(2) by (simp add: lookup_entry lookup_result_def)
qed

lemma lookup_other_page:
  assumes "ok s" "0 \<le> k" "k < 3" "pin s va iova k = Inr (s', st)"
    "st = 0 \<Longrightarrow> \<not> same_page 3 (nat k) iova y"
  shows "lookup s' y = lookup s y"
  using assms pin_done [of s k va iova s'] pin_failed [of s k va iova s' st]
  by (cases "st = 0") (auto simp: lookup_entry)

text \<open>A pin followed by an unpin of the same page leaves every translation as it was.\<close>

lemma pin_unpin_lookup:
  assumes "ok s" "0 \<le> k" "k < 3" "pin s va iova k = Inr (s', 0)"
    and old: "entry s iova = None \<and> (\<forall>y. same_page 3 (nat k) iova y \<longrightarrow> entry s y = None)"
  shows "\<exists>s''. unpin s' iova k = Inr (s'', 0) \<and> ok s'' \<and> (\<forall>y. lookup s'' y = lookup s y)"
proof -
  have self: "same_page 3 (nat k) iova iova" by (simp add: same_page_def)
  obtain e' where s': "ok s'" and e': "pinned_entry (nat k) (entry s iova) va = Inr e'"
    and ent: "\<And>y. entry s' y = (if same_page 3 (nat k) iova y then Some (nat k, e') else entry s y)"
    using pin_done [OF assms(1-4)] by auto
  have e: "e' = ase_pt_set_addr 0x8000000000000001 va"
    using e' old by (simp add: pinned_entry_def incr_refcnt_cases)
  then have cnt: "ase_pt_get_refcnt e' = 1" "ase_pt_entry_is_terminal e'"
    by (simp_all add: first_refcnt)
  then obtain v c where vc: "ase_pt_decr_refcnt e' = Inr (v, c)"
    by (simp add: decr_refcnt_cases)
  have v: "ase_pt_get_refcnt v = 0" using decr_refcnt_Inr [OF vc] cnt by simp
  obtain s'' where s'': "unpin s' iova k = Inr (s'', 0)" "ok s''"
    and ent': "\<And>y. entry s'' y = (if same_page 3 (nat k) iova y then unpinned_entry (nat k) v
                                  else entry s' y)"
  proof -
    have "entry s' iova = Some (nat k, e')" using ent self by simp
    from unpin_done [OF s' assms(2,3) this vc] show ?thesis using that by blast
  qed
  have "lookup s'' y = lookup s y" for y
    using ent ent' v old assms(1) s''(2) self
    by (auto simp: lookup_entry unpinned_entry_def lookup_result_def)
  with s'' show ?thesis by blast
qed

end


section \<open>The page table implements the interface\<close>

type_synonym pt_state = "(pt_mem \<Rightarrow> u64 option) \<times> pt_mem \<times> u64"

definition pts_ok :: "pt_state \<Rightarrow> bool" where
  "pts_ok = (\<lambda>(mm, m, root). mmap_fresh mm \<and> pt_mem_ok m \<and> pt_root_ok m root)"

definition pts_entry :: "pt_state \<Rightarrow> u64 \<Rightarrow> (nat \<times> u64) option" where
  "pts_entry = (\<lambda>(mm, m, root). pt_find 3 m root)"

definition pts_lookup :: "pt_state \<Rightarrow> u64 \<Rightarrow> (u64 \<times> int) res" where
  "pts_lookup = (\<lambda>(mm, m, root) x. ase_pt_lookup_addr m x root)"

definition pts_pin :: "pt_state \<Rightarrow> u64 \<Rightarrow> u64 \<Rightarrow> int \<Rightarrow> (pt_state \<times> int) res" where
  "pts_pin = (\<lambda>(mm, m, root) va iova k.
     rbind (ase_pt_pin_page mm m va iova root k) (\<lambda>(m', st). Inr ((mm, m', root), st)))"

definition pts_unpin :: "pt_state \<Rightarrow> u64 \<Rightarrow> int \<Rightarrow> (pt_state \<times> int) res" where
  "pts_unpin = (\<lambda>(mm, m, root) iova k.
     rbind (ase_pt_unpin_page m iova root k) (\<lambda>(m', st). Inr ((mm, m', root), st)))"

lemma pt_find_terminal:
  "pt_wf l m a \<Longrightarrow> pt_find l m a x = Some (j, e) \<Longrightarrow>
   ase_pt_entry_is_terminal e \<and> (j \<noteq> 0 \<longrightarrow> ase_pt_get_refcnt e \<noteq> 0)"
proof (induction l arbitrary: a)
  case 0
  then show ?case by (auto simp: Let_def is_table_def split: if_splits)
next
  case (Suc l)
  then obtain t where t: "m a = Some t" using pt_wf_Some by blast
  show ?case
    using Suc.prems(2) t pt_wf_SucD(3) [OF Suc.prems(1) t]
      Suc.IH [OF pt_wf_SucD(1) [OF Suc.prems(1) t]]
    by (auto simp: Let_def is_table_def split: if_splits)
qed

interpretation pt: page_map pts_ok pts_entry pts_lookup pts_pin pts_unpin
proof (unfold_locales, goal_cases)
  case (1 s x)
  then show ?case
    by (cases s) (auto simp: pts_ok_def pts_entry_def pts_lookup_def pt_lookup_addr_find)
next
  case (2 s x j e)
  then show ?case
    by (cases s) (auto simp: pts_ok_def pts_entry_def dest: pt_find_terminal)
next
  case (3 s k va iova s')
  obtain mm m root where s: "s = (mm, m, root)" by (cases s)
  then have ok: "mmap_fresh mm" "pt_mem_ok m" "pt_root_ok m root" using 3(1) by (auto simp: pts_ok_def)
  from 3(4) s obtain m' where m': "ase_pt_pin_page mm m va iova root k = Inr (m', 0)"
    and s': "s' = (mm, m', root)" by (auto simp: pts_pin_def)
  show ?case
    using pt_pin_page_spec [OF ok(1,3) 3(2,3), of va iova] ok pt_evolves_mem_ok [OF ok(2)]
    unfolding m' s s' by (auto simp: pts_ok_def pts_entry_def pin_post_def dest: pt_evolves_wf)
next
  case (4 s k va iova s' st)
  obtain mm m root where s: "s = (mm, m, root)" by (cases s)
  then have ok: "mmap_fresh mm" "pt_mem_ok m" "pt_root_ok m root" using 4(1) by (auto simp: pts_ok_def)
  from 4(4) s obtain m' where m': "ase_pt_pin_page mm m va iova root k = Inr (m', st)"
    and s': "s' = (mm, m', root)" by (auto simp: pts_pin_def)
  show ?case
    using pt_pin_page_spec [OF ok(1,3) 4(2,3), of va iova] ok pt_evolves_mem_ok [OF ok(2)] 4(5)
    unfolding m' s s' by (auto simp: pts_ok_def pts_entry_def pin_post_def dest: pt_evolves_wf)
next
  case (5 s k iova e v c)
  obtain mm m root where s: "s = (mm, m, root)" by (cases s)
  then have ok: "mmap_fresh mm" "pt_mem_ok m" "pt_root_ok m root" using 5(1) by (auto simp: pts_ok_def)
  obtain m' where m': "ase_pt_unpin_page m iova root k = Inr (m', 0)" "pt_evolves 3 root m m'"
    "\<forall>y. pt_find 3 m' root y =
       (if same_page 3 (nat k) iova y then unpinned_entry (nat k) v else pt_find 3 m root y)"
    using pt_unpin_page_spec [OF ok(2,3) 5(2,3), of iova] 5(4,5) s
    by (auto simp: unpin_post_def pts_entry_def)
  show ?case
    using m' ok pt_evolves_mem_ok [OF ok(2) m'(2)] pt_evolves_wf [OF m'(2)] s
    by (intro exI [of _ "(mm, m', root)"]) (simp add: pts_ok_def pts_entry_def pts_unpin_def)
qed

section \<open>Properties\<close>

text \<open>
  C5: pinning a page makes exactly the addresses of that page translate to it. After
  \<open>ase_pt_pin_page\<close> the lookup of an address in the pinned page yields the page address and
  the level of the page; the lookup of any other address, and of every address when the
  call reports failure, is what it was before.
\<close>

theorem pin_page_lookup:
  assumes "mmap_fresh mm" and "pt_mem_ok m" and "pt_root_ok m root" and "0 \<le> k" and "k < 3"
    and "ase_pt_pin_page mm m va iova root k = Inr (m', st)"
  shows "ase_pt_lookup_addr m' y root =
    (if st = 0 \<and> same_page 3 (nat k) iova y then Inr (va AND ASE_PT_ADDR_MASK, k)
     else ase_pt_lookup_addr m y root)"
proof -
  have s: "pts_ok (mm, m, root)" "pts_pin (mm, m, root) va iova k = Inr ((mm, m', root), st)"
    using assms by (simp_all add: pts_ok_def pts_pin_def)
  show ?thesis
    using pt.lookup_pinned [OF s(1) assms(4,5), of va iova "(mm, m', root)" y]
      pt.lookup_other_page [OF s(1) assms(4,5) s(2), of y] s(2)
    by (auto simp: pts_lookup_def)
qed

definition demo_mmap :: "pt_mem \<Rightarrow> u64 option" where
  "demo_mmap m = find (\<lambda>a. m a = None) [0x2000, 0x3000, 0x4000, 0x5000]"

definition demo_mem :: pt_mem where
  "demo_mem = [0x1000 \<mapsto> pt_zero_page]"

lemma demo_mmap_fresh: "mmap_fresh demo_mmap"
  by (auto simp: mmap_fresh_def demo_mmap_def is_table_def ase_pt_entry_is_terminal_def
      split: if_splits)

lemma demo_mem_ok: "pt_mem_ok demo_mem" "pt_root_ok demo_mem 0x1000"
proof -
  have t: "is_table 0x1000" by (simp add: is_table_def ase_pt_entry_is_terminal_def)
  then show "pt_mem_ok demo_mem" by (simp add: pt_mem_ok_def demo_mem_def)
  show "pt_root_ok demo_mem 0x1000"
    by (rule pt_zero(1) [OF _ t]) (simp add: demo_mem_def)
qed

lemma demo_pin:
  "\<exists>m'. ase_pt_pin_page demo_mmap demo_mem 0x7f0000200000 0x40000000 0x1000 1 = Inr (m', 0)"
  by (simp add: ase_pt_pin_page_def demo_mmap_def demo_mem_def numeral_3_eq_3 pt_read_def
      pt_write_def pt_zero_page_def Let_def ase_pt_pin_entry_def ase_pt_idx_def
      ase_pt_level_to_bit_idx_def ase_pt_entry_is_terminal_def ase_pt_incr_refcnt_def)

theorem pin_page_lookup_witness:
  "\<exists>m'. ase_pt_pin_page demo_mmap demo_mem 0x7f0000200000 0x40000000 0x1000 1 = Inr (m', 0) \<and>
        ase_pt_lookup_addr m' 0x40000123 0x1000 = Inr (0x7f0000200000, 1)"
proof -
  obtain m' where m': "ase_pt_pin_page demo_mmap demo_mem 0x7f0000200000 0x40000000 0x1000 1 = Inr (m', 0)"
    using demo_pin by blast
  have "same_page 3 1 0x40000000 0x40000123"
    by (simp add: same_page_def ase_pt_idx_def ase_pt_level_to_bit_idx_def atLeastAtMost_upt upt_rec)
  then show ?thesis
    using m' pin_page_lookup [OF demo_mmap_fresh demo_mem_ok, of 1 _ _ m' 0 "0x40000123"]
    by (auto simp: ASE_PT_ADDR_MASK_def)
qed

text \<open>
  C6: pinning is memory safe and touches one tree only. From a well-formed tree
  \<open>ase_pt_pin_page\<close> never follows a bad pointer: it returns, or it stops at the assertion
  on the reference count of a page that is pinned 255 times. When it returns, the memory
  holds tables only, the tree is well formed, it has grown by free pages only, and any other
  tree that shared no table with it is still well formed, disjoint, and translates as before.
\<close>

theorem pin_page_safe:
  assumes "mmap_fresh mm" and "pt_mem_ok m" and "pt_root_ok m root" and "pt_root_ok m other"
    and "pt_tables 3 m root \<inter> pt_tables 3 m other = {}" and "0 \<le> k" and "k < 3"
  shows "case ase_pt_pin_page mm m va iova root k of
      Inl f \<Rightarrow> f = AssertFail \<and>
        (\<exists>e. pt_find 3 m root iova = Some (nat k, e) \<and> ase_pt_get_refcnt e = 0xff)
    | Inr (m', st) \<Rightarrow> pt_mem_ok m' \<and> pt_root_ok m' root \<and> pt_root_ok m' other \<and>
        pt_tables 3 m' root \<inter> pt_tables 3 m' other = {} \<and>
        (\<forall>y. ase_pt_lookup_addr m' y other = ase_pt_lookup_addr m y other)"
proof -
  note post = pt_pin_page_spec [OF assms(1,3,6,7), of va iova]
  show ?thesis
  proof (cases "ase_pt_pin_page mm m va iova root k")
    case (Inl f)
    then have "pinned_entry (nat k) (pt_find 3 m root iova) va = Inl AssertFail" "f = AssertFail"
      using post by (auto simp: pin_post_def)
    then show ?thesis
      using Inl pt_find_terminal [OF assms(3), of iova]
      by (auto simp: pinned_entry_def incr_refcnt_cases rbind_def split: option.splits if_splits)
  next
    case (Inr r)
    then obtain m' st where r: "ase_pt_pin_page mm m va iova root k = Inr (m', st)" by (cases r) auto
    then have ev: "pt_evolves 3 root m m'" using post by (simp add: pin_post_def)
    note other = pt_evolves_other [OF ev assms(4,5)]
    then have "ase_pt_lookup_addr m' y other = ase_pt_lookup_addr m y other" for y
      using assms(4) by (simp add: pt_lookup_addr_find)
    then show ?thesis
      using r other(1,4) pt_evolves_mem_ok [OF assms(2) ev] pt_evolves_wf [OF ev] by simp
  qed
qed

definition demo_mem2 :: pt_mem where
  "demo_mem2 = [0x1000 \<mapsto> pt_zero_page, 0x8000 \<mapsto> pt_zero_page]"

lemma demo_mem2_ok:
  "pt_mem_ok demo_mem2" "pt_root_ok demo_mem2 0x1000" "pt_root_ok demo_mem2 0x8000"
  "pt_tables 3 demo_mem2 0x1000 \<inter> pt_tables 3 demo_mem2 0x8000 = {}"
proof -
  have t: "is_table 0x1000" "is_table 0x8000"
    by (simp_all add: is_table_def ase_pt_entry_is_terminal_def)
  have z: "demo_mem2 0x1000 = Some pt_zero_page" "demo_mem2 0x8000 = Some pt_zero_page"
    by (simp_all add: demo_mem2_def)
  show "pt_mem_ok demo_mem2" using t by (simp add: pt_mem_ok_def demo_mem2_def)
  show "pt_root_ok demo_mem2 0x1000" "pt_root_ok demo_mem2 0x8000"
    using pt_zero(1) [of demo_mem2, OF z(1) t(1)] pt_zero(1) [of demo_mem2, OF z(2) t(2)]
    by simp_all
  show "pt_tables 3 demo_mem2 0x1000 \<inter> pt_tables 3 demo_mem2 0x8000 = {}"
    using pt_zero(2) [of demo_mem2, OF z(1) t(1)] pt_zero(2) [of demo_mem2, OF z(2) t(2)]
    by simp
qed

lemma demo_pin2:
  "\<exists>m'. ase_pt_pin_page demo_mmap demo_mem2 0x7f0000200000 0x40000000 0x1000 1 = Inr (m', 0)"
  by (simp add: ase_pt_pin_page_def demo_mmap_def demo_mem2_def numeral_3_eq_3 pt_read_def
      pt_write_def pt_zero_page_def Let_def ase_pt_pin_entry_def ase_pt_idx_def
      ase_pt_level_to_bit_idx_def ase_pt_entry_is_terminal_def ase_pt_incr_refcnt_def)

theorem pin_page_safe_witness:
  "\<exists>m'. ase_pt_pin_page demo_mmap demo_mem2 0x7f0000200000 0x40000000 0x1000 1 = Inr (m', 0) \<and>
     pt_root_ok m' 0x1000 \<and> pt_root_ok m' 0x8000 \<and>
     ase_pt_lookup_addr m' 0x40000123 0x8000 = ase_pt_lookup_addr demo_mem2 0x40000123 0x8000"
  using demo_pin2 pin_page_safe [OF demo_mmap_fresh demo_mem2_ok,
      where k = 1 and va = "0x7f0000200000" and iova = "0x40000000"] by auto



text \<open>
  C19: unpinning a page that lies inside a larger pinned page is not reported as an error.
  The test in the loop of \<open>ase_pt_unpin_page\<close> that should detect the case looks at the
  table and not at the entry it just read, so the walk uses the huge page entry as a table
  address and the access faults.
\<close>

theorem unpin_inside_huge_page_faults:
  assumes "pt_mem_ok m" and "pt_root_ok m root" and "0 \<le> k" and "k < 3"
    and "pt_find 3 m root iova = Some (j, e)" and "nat k < j"
  shows "ase_pt_unpin_page m iova root k = Inl Segv"
  using pt_unpin_page_spec [OF assms(1-4), of iova] assms(5,6) by (simp add: unpin_post_def)

theorem unpin_inside_huge_page_faults_witness:
  "\<exists>m'. ase_pt_pin_page demo_mmap demo_mem 0x7f0000200000 0x40000000 0x1000 1 = Inr (m', 0) \<and>
        ase_pt_unpin_page m' 0x40001000 0x1000 0 = Inl Segv"
proof -
  obtain m' where m': "ase_pt_pin_page demo_mmap demo_mem 0x7f0000200000 0x40000000 0x1000 1 = Inr (m', 0)"
    using demo_pin by blast
  have p: "pts_ok (demo_mmap, demo_mem, 0x1000)"
    "pts_pin (demo_mmap, demo_mem, 0x1000) 0x7f0000200000 0x40000000 1
       = Inr ((demo_mmap, m', 0x1000), 0)"
    using demo_mmap_fresh demo_mem_ok m' by (simp_all add: pts_ok_def pts_pin_def)
  then obtain e where ok: "pt_mem_ok m'" "pt_root_ok m' 0x1000"
    and f: "\<And>y. same_page 3 1 0x40000000 y \<Longrightarrow> pt_find 3 m' 0x1000 y = Some (1, e)"
    using pt.pin_done [OF p(1) _ _ p(2)] by (auto simp: pts_ok_def pts_entry_def)
  have "same_page 3 1 0x40000000 0x40001000"
    by (simp add: same_page_def ase_pt_idx_def ase_pt_level_to_bit_idx_def atLeastAtMost_upt upt_rec)
  then show ?thesis
    using m' unpin_inside_huge_page_faults [OF ok, of 0 "0x40001000" 1 e] f by auto
qed

end
