(* ===== verification/Host_Memory.thy ===== *)
theory Host_Memory
  imports Page_Table
begin

text \<open>
  Simulated host memory, the first part of \<open>src/ase/sw/ase_host_memory.c\<close>: the table roots
  (one IOVA space per AFU and one PA space for address translation services), the lock that
  guards them, the cache of the last page size lookup, and the operations that pin, unpin
  and translate. Code outside the repository enters as arguments: \<open>mm\<close> is \<open>mmap\<close> (see
  the page table), \<open>ma\<close> bundles the IOVA allocator of \<open>opae/mem_alloc.h\<close>, and \<open>smaps\<close> is
  the content of \<open>/proc/self/smaps\<close> with each line classified as the scanning loop does.

  The mutex is the default, non-recursive one: locking it again from the path that holds it
  never returns, which is the fault \<open>Blocked\<close>. Messages to the simulator that only feed its
  log are kept in \<open>hm_notes\<close>.
\<close>

section \<open>Definitions\<close>

subsection \<open>State\<close>

definition ASE_MAX_TOKENS :: int where "ASE_MAX_TOKENS = 32"

datatype hm_note = NotePinned u64 u64 u64 | NoteUnpinned u64 u64

record 'al hm_state =
  hm_mem :: pt_mem
  ase_iova_pt_root :: "nat \<Rightarrow> u64"
  ase_pa_pt_root :: u64
  iova_mem_alloc :: 'al
  ase_pt_lock :: bool
  cached_page_len_valid :: bool
  cached_page_range_start :: u64
  cached_page_range_end :: u64
  cached_page_len :: u64
  hm_notes :: "hm_note list"

text \<open>The allocator of the OPAE SDK: each call returns a status and the new allocator.\<close>

record 'al mem_alloc =
  mem_alloc_init :: 'al
  mem_alloc_destroy :: "'al \<Rightarrow> 'al"
  mem_alloc_add_free :: "'al \<Rightarrow> u64 \<Rightarrow> u64 \<Rightarrow> 'al"
  mem_alloc_get :: "'al \<Rightarrow> u64 \<Rightarrow> int \<times> u64 \<times> 'al"
  mem_alloc_put :: "'al \<Rightarrow> u64 \<Rightarrow> int \<times> 'al"

text \<open>
  A line of \<open>smaps\<close>: one that begins with an address range, one that holds the kernel page
  size in kB, or any other.
\<close>

datatype smaps_line = SmapsRange u64 u64 | SmapsPageSize u32 | SmapsOther

subsection \<open>Locking\<close>

definition hm_lock :: "'al hm_state \<Rightarrow> 'al hm_state res" where
  "hm_lock s = (if ase_pt_lock s then Inl Blocked else Inr (s\<lparr>ase_pt_lock := True\<rparr>))"

definition ase_host_memory_unlock :: "'al hm_state \<Rightarrow> 'al hm_state" where
  "ase_host_memory_unlock s = s\<lparr>cached_page_len_valid := False, ase_pt_lock := False\<rparr>"

definition note_pinned_page :: "u64 \<Rightarrow> u64 \<Rightarrow> u64 \<Rightarrow> 'al hm_state \<Rightarrow> 'al hm_state" where
  "note_pinned_page va iova len s = s\<lparr>hm_notes := hm_notes s @ [NotePinned va iova len]\<rparr>"

definition note_unpinned_page :: "u64 \<Rightarrow> u64 \<Rightarrow> 'al hm_state \<Rightarrow> 'al hm_state" where
  "note_unpinned_page iova len s = s\<lparr>hm_notes := hm_notes s @ [NoteUnpinned iova len]\<rparr>"

subsection \<open>IOVA space\<close>

definition round_iova_length :: "u64 \<Rightarrow> u64" where
  "round_iova_length len =
     (if len > 2 * MB then GB * ((len + GB - 1) div GB)
      else if len > 4 * KB then 2 * MB * ((len + 2 * MB - 1) div (2 * MB))
      else 4 * KB * ((len + 4 * KB - 1) div (4 * KB)))"

definition ase_host_memory_alloc_iova ::
  "'al mem_alloc \<Rightarrow> 'al hm_state \<Rightarrow> u64 \<Rightarrow> (int \<times> u64 \<times> 'al hm_state) res" where
  "ase_host_memory_alloc_iova ma s len =
     rbind (hm_lock s) (\<lambda>s.
       let (status, iova, al) = mem_alloc_get ma (iova_mem_alloc s) (round_iova_length len)
       in Inr (status, iova, ase_host_memory_unlock (s\<lparr>iova_mem_alloc := al\<rparr>)))"

definition ase_host_memory_free_iova ::
  "'al mem_alloc \<Rightarrow> 'al hm_state \<Rightarrow> u64 \<Rightarrow> (int \<times> 'al hm_state) res" where
  "ase_host_memory_free_iova ma s iova =
     rbind (hm_lock s) (\<lambda>s.
       let (status, al) = mem_alloc_put ma (iova_mem_alloc s) iova
       in Inr (status, ase_host_memory_unlock (s\<lparr>iova_mem_alloc := al\<rparr>)))"

definition afu_idx_ok :: "int \<Rightarrow> bool" where
  "afu_idx_ok afu_idx \<longleftrightarrow> 0 \<le> afu_idx \<and> afu_idx < ASE_MAX_TOKENS"

text \<open>
  \<open>ase_host_memory_pin\<close>. The root table of the AFU is created on first use; if that \<open>mmap\<close>
  fails the source stores \<open>MAP_FAILED\<close> (all ones) as the root and returns with the lock held.
\<close>

definition ase_host_memory_pin ::
  "(pt_mem \<Rightarrow> u64 option) \<Rightarrow> 'al hm_state \<Rightarrow> int \<Rightarrow> u64 \<Rightarrow> u64 \<Rightarrow> u64 \<Rightarrow>
   (int \<times> 'al hm_state) res" where
  "ase_host_memory_pin mm s afu_idx va iova len =
     (if \<not> afu_idx_ok afu_idx then Inl AssertFail
      else rbind (hm_lock s) (\<lambda>s.
        let pt_level = ase_pt_length_to_level len; i = nat afu_idx in
        if pt_level = -1 then Inr (-1, ase_host_memory_unlock s)
        else
          (let r = (if ase_iova_pt_root s i = 0
                    then (case mm (hm_mem s) of
                            None \<Rightarrow> (False, s\<lparr>ase_iova_pt_root := (ase_iova_pt_root s)(i := - 1)\<rparr>)
                          | Some a \<Rightarrow> (True, s\<lparr>hm_mem := (hm_mem s)(a \<mapsto> pt_zero_page),
                                               ase_iova_pt_root := (ase_iova_pt_root s)(i := a)\<rparr>))
                    else (True, s))
           in if \<not> fst r then Inr (-1, snd r)
              else let s = snd r in
                rbind (ase_pt_pin_page mm (hm_mem s) va iova (ase_iova_pt_root s i) pt_level)
                  (\<lambda>(m, status).
                    let s = s\<lparr>hm_mem := m\<rparr> in
                    if status \<noteq> 0 then Inr (status, ase_host_memory_unlock s)
                    else Inr (0, note_pinned_page va iova len (ase_host_memory_unlock s))))))"

text \<open>\<open>ase_host_memory_unpin\<close>: the return on a bad length comes before the unlock.\<close>

definition ase_host_memory_unpin ::
  "'al hm_state \<Rightarrow> int \<Rightarrow> u64 \<Rightarrow> u64 \<Rightarrow> (int \<times> 'al hm_state) res" where
  "ase_host_memory_unpin s afu_idx iova len =
     (if \<not> afu_idx_ok afu_idx then Inl AssertFail
      else rbind (hm_lock s) (\<lambda>s.
        let i = nat afu_idx in
        if ase_iova_pt_root s i \<noteq> 0
        then (let pt_level = ase_pt_length_to_level len in
              if pt_level = -1 then Inr (-1, s)
              else rbind (ase_pt_unpin_page (hm_mem s) iova (ase_iova_pt_root s i) pt_level)
                (\<lambda>(m, status). Inr (status,
                   note_unpinned_page iova len (ase_host_memory_unlock (s\<lparr>hm_mem := m\<rparr>)))))
        else Inr (0, note_unpinned_page iova len (ase_host_memory_unlock s))))"

text \<open>
  The common tail of \<open>ase_host_memory_iova_to_va\<close> and \<open>ase_host_memory_pa_to_va\<close>: look the
  address up, release the lock unless the caller keeps it, add the offset in the page.
\<close>

definition hm_translate ::
  "'al hm_state \<Rightarrow> u64 \<Rightarrow> u64 \<Rightarrow> bool \<Rightarrow> (u64 \<times> 'al hm_state) res" where
  "hm_translate s x root keep =
     rbind (ase_pt_lookup_addr (hm_mem s) x root) (\<lambda>(va, pt_level).
       if va = 0 then Inr (0, ase_host_memory_unlock s)
       else let s = (if keep then s else ase_host_memory_unlock s);
                offset = x AND (push_bit (ase_pt_level_to_bit_idx (nat pt_level)) 1 - 1)
            in Inr (va OR offset, s))"

definition ase_host_memory_iova_to_va ::
  "'al hm_state \<Rightarrow> int \<Rightarrow> u64 \<Rightarrow> bool \<Rightarrow> (u64 \<times> 'al hm_state) res" where
  "ase_host_memory_iova_to_va s afu_idx iova keep =
     (if \<not> afu_idx_ok afu_idx then Inl AssertFail
      else rbind (hm_lock s) (\<lambda>s. hm_translate s iova (ase_iova_pt_root s (nat afu_idx)) keep))"

definition ase_host_memory_pa_to_va ::
  "'al hm_state \<Rightarrow> u64 \<Rightarrow> bool \<Rightarrow> (u64 \<times> 'al hm_state) res" where
  "ase_host_memory_pa_to_va s pa keep =
     rbind (hm_lock s) (\<lambda>s. hm_translate s pa (ase_pa_pt_root s) keep)"

subsection \<open>PA space\<close>

definition ase_host_memory_gen_xor_mask :: "nat \<Rightarrow> u64" where
  "ase_host_memory_gen_xor_mask pt_level =
     0x7fffffffffff AND push_bit (ase_pt_level_to_bit_idx pt_level) (NOT 0)"

text \<open>
  The scan of \<open>smaps\<close>: after a range that holds \<open>va\<close> the next page size line decides; if
  the file ends first the result is 0, as it is when no range matches.
\<close>

fun smaps_find_size :: "smaps_line list \<Rightarrow> u32 option" where
  "smaps_find_size [] = None"
| "smaps_find_size (SmapsPageSize kb # ls) = Some kb"
| "smaps_find_size (_ # ls) = smaps_find_size ls"

fun smaps_scan :: "u64 \<Rightarrow> smaps_line list \<Rightarrow> (u64 \<times> u64 \<times> u32) option" where
  "smaps_scan va [] = None"
| "smaps_scan va (SmapsRange start end # ls) =
     (if start > va \<or> end \<le> va then smaps_scan va ls
      else map_option (\<lambda>kb. (start, end, kb)) (smaps_find_size ls))"
| "smaps_scan va (_ # ls) = smaps_scan va ls"

definition page_kb_to_bytes :: "u32 \<Rightarrow> int" where
  "page_kb_to_bytes page_kb =
     (if page_kb \<ge> 1048576 then uint GB
      else if page_kb \<ge> 2048 then uint (2 * MB)
      else if page_kb \<ge> 4 then uint (4 * KB)
      else -1)"

definition ase_host_memory_va_page_len ::
  "smaps_line list option \<Rightarrow> 'al hm_state \<Rightarrow> u64 \<Rightarrow> int \<times> 'al hm_state" where
  "ase_host_memory_va_page_len smaps s va =
     (if cached_page_len_valid s \<and> cached_page_range_start s \<le> va \<and> va < cached_page_range_end s
      then (uint (cached_page_len s), s)
      else case smaps of
        None \<Rightarrow> (-1, s)
      | Some ls \<Rightarrow> (case smaps_scan va ls of
          None \<Rightarrow> (0, s)
        | Some (start, end, page_kb) \<Rightarrow>
            if page_kb = 0 \<or> page_kb_to_bytes page_kb = -1 then (-1, s)
            else (page_kb_to_bytes page_kb,
                  s\<lparr>cached_page_len_valid := True, cached_page_range_start := start,
                    cached_page_range_end := end,
                    cached_page_len := word_of_int (page_kb_to_bytes page_kb)\<rparr>)))"

text \<open>
  \<open>ase_host_memory_va_to_pa\<close> returns the PA (all ones on error) and, when it is written, the
  page length. An entry that is already present with another address only prints a message.
\<close>

definition ase_host_memory_va_to_pa ::
  "(pt_mem \<Rightarrow> u64 option) \<Rightarrow> smaps_line list option \<Rightarrow> 'al hm_state \<Rightarrow> u64 \<Rightarrow>
   (u64 \<times> u64 option \<times> 'al hm_state) res" where
  "ase_host_memory_va_to_pa mm smaps s va =
     rbind (hm_lock s) (\<lambda>s.
       if va = 0 then Inr (- 1, None, ase_host_memory_unlock s)
       else let (page_len, s) = ase_host_memory_va_page_len smaps s va in
         if page_len = -1 then Inr (- 1, None, ase_host_memory_unlock s)
         else if page_len = 0 then Inr (0, Some 0, ase_host_memory_unlock s)
         else let len = word_of_int page_len; pt_level = ase_pt_length_to_level len;
                  pa = va XOR ase_host_memory_gen_xor_mask (nat pt_level) in
           rbind (ase_pt_lookup_addr (hm_mem s) pa (ase_pa_pt_root s)) (\<lambda>(cur_table_va, cur_pt_level).
             if cur_table_va \<noteq> 0 then Inr (pa, Some len, ase_host_memory_unlock s)
             else rbind (ase_pt_pin_page mm (hm_mem s) va pa (ase_pa_pt_root s) pt_level)
               (\<lambda>(m, status).
                 let s = ase_host_memory_unlock (s\<lparr>hm_mem := m\<rparr>) in
                 if status \<noteq> 0 then Inr (- 1, None, s) else Inr (pa, Some len, s))))"

text \<open>
  The loop of \<open>ase_host_memory_inval_va_range\<close>. It advances by whole pages; the first
  argument bounds the number of iterations, and \<open>Blocked\<close> stands for a loop that is still
  running when the bound is used up.
\<close>

fun inval_va_loop ::
  "nat \<Rightarrow> smaps_line list option \<Rightarrow> 'al hm_state \<Rightarrow> u64 \<Rightarrow> u64 \<Rightarrow> 'al hm_state res" where
  "inval_va_loop 0 smaps s va va_end = (if va < va_end then Inl Blocked else Inr s)"
| "inval_va_loop (Suc n) smaps s va va_end =
     (if \<not> va < va_end then Inr s
      else let (page_len, s) = ase_host_memory_va_page_len smaps s va in
        if page_len \<le> 0 then Inr s
        else let len = word_of_int page_len;
                 va = va AND NOT (len - 1);
                 pt_level = ase_pt_length_to_level len;
                 pa = va XOR ase_host_memory_gen_xor_mask (nat pt_level) in
          rbind (ase_pt_unpin_page (hm_mem s) pa (ase_pa_pt_root s) pt_level) (\<lambda>(m, status).
            inval_va_loop n smaps (s\<lparr>hm_mem := m\<rparr>) (va + len) va_end))"

definition ase_host_memory_inval_va_range ::
  "nat \<Rightarrow> smaps_line list option \<Rightarrow> 'al hm_state \<Rightarrow> u64 \<Rightarrow> u64 \<Rightarrow> 'al hm_state res" where
  "ase_host_memory_inval_va_range fuel smaps s va len =
     rbind (hm_lock s) (\<lambda>s.
     rbind (inval_va_loop fuel smaps s va (va + len)) (\<lambda>s. Inr (ase_host_memory_unlock s)))"

subsection \<open>Start and end\<close>

definition ase_host_memory_initialize ::
  "(pt_mem \<Rightarrow> u64 option) \<Rightarrow> 'al mem_alloc \<Rightarrow> 'al hm_state \<Rightarrow> int \<times> 'al hm_state" where
  "ase_host_memory_initialize mm ma s =
     (let al = mem_alloc_add_free ma (mem_alloc_add_free ma (mem_alloc_init ma) 0 0xfee00000)
                 0xfef00000 0x1ffffff01100000 in
      if ase_pa_pt_root s = 0
      then (case mm (hm_mem s) of
              None \<Rightarrow> (-1, s\<lparr>ase_pa_pt_root := - 1\<rparr>)
            | Some a \<Rightarrow> (0, s\<lparr>hm_mem := (hm_mem s)(a \<mapsto> pt_zero_page), ase_pa_pt_root := a,
                             iova_mem_alloc := al\<rparr>))
      else (0, s\<lparr>iova_mem_alloc := al\<rparr>))"

definition ase_host_memory_terminate_afu :: "'al hm_state \<Rightarrow> int \<Rightarrow> 'al hm_state res" where
  "ase_host_memory_terminate_afu s afu_idx =
     (if afu_idx < 0 \<or> afu_idx \<ge> ASE_MAX_TOKENS then Inr s
      else let root = ase_iova_pt_root s (nat afu_idx) in
        if root \<noteq> 0
        then rbind (ase_pt_delete_tree 3 (hm_mem s) root) (\<lambda>m.
          Inr (s\<lparr>hm_mem := m, ase_iova_pt_root := (ase_iova_pt_root s)(nat afu_idx := 0)\<rparr>))
        else Inr s)"

definition ase_host_memory_terminate :: "'al mem_alloc \<Rightarrow> 'al hm_state \<Rightarrow> 'al hm_state res" where
  "ase_host_memory_terminate ma s =
     rbind (hm_lock s) (\<lambda>s.
     rbind (fold (\<lambda>i r. rbind r (\<lambda>s. ase_host_memory_terminate_afu s (int i))) [0..<32] (Inr s)) (\<lambda>s.
     rbind (ase_pt_delete_tree 3 (hm_mem s) (ase_pa_pt_root s)) (\<lambda>m.
       Inr (ase_host_memory_unlock (s\<lparr>hm_mem := m, ase_pa_pt_root := 0,
              iova_mem_alloc := mem_alloc_destroy ma (iova_mem_alloc s)\<rparr>)))))"

subsection \<open>Specification\<close>

text \<open>The table roots: \<open>None\<close> is the PA space, \<open>Some i\<close> the IOVA space of AFU \<open>i\<close>.\<close>

definition hm_root :: "'al hm_state \<Rightarrow> nat option \<Rightarrow> u64" where
  "hm_root s sp = (case sp of None \<Rightarrow> ase_pa_pt_root s | Some i \<Rightarrow> ase_iova_pt_root s i)"

definition hm_ok :: "'al hm_state \<Rightarrow> bool" where
  "hm_ok s \<longleftrightarrow> pt_mem_ok (hm_mem s) \<and>
     (\<forall>sp. hm_root s sp \<noteq> 0 \<longrightarrow> pt_root_ok (hm_mem s) (hm_root s sp)) \<and>
     (\<forall>sp sp'. sp \<noteq> sp' \<longrightarrow> hm_root s sp \<noteq> 0 \<longrightarrow> hm_root s sp' \<noteq> 0 \<longrightarrow>
        pt_tables 3 (hm_mem s) (hm_root s sp) \<inter> pt_tables 3 (hm_mem s) (hm_root s sp') = {})"

definition hm_entry :: "'al hm_state \<Rightarrow> nat option \<Rightarrow> u64 \<Rightarrow> (nat \<times> u64) option" where
  "hm_entry s sp x = (if hm_root s sp = 0 then None else pt_find 3 (hm_mem s) (hm_root s sp) x)"

text \<open>The cached page length is one of the three sizes of the simulated tables.\<close>

definition hm_cache_ok :: "'al hm_state \<Rightarrow> bool" where
  "hm_cache_ok s \<longleftrightarrow> (cached_page_len_valid s \<longrightarrow> cached_page_len s \<in> {4 * KB, 2 * MB, GB})"

text \<open>The virtual address that an entry gives to the address \<open>x\<close> it covers.\<close>

definition hm_va :: "(nat \<times> u64) option \<Rightarrow> u64 \<Rightarrow> u64" where
  "hm_va r x = (case lookup_result r of (va, k) \<Rightarrow>
     if va = 0 then 0 else va OR (x AND mask (ase_pt_level_to_bit_idx (nat k))))"

section \<open>The invariant\<close>

lemma hm_root_simps [simp]:
  "hm_root (s\<lparr>hm_mem := m\<rparr>) sp = hm_root s sp"
  "hm_root (s\<lparr>iova_mem_alloc := al\<rparr>) sp = hm_root s sp"
  "hm_root (s\<lparr>ase_pt_lock := b\<rparr>) sp = hm_root s sp"
  "hm_root (ase_host_memory_unlock s) sp = hm_root s sp"
  "hm_root (note_pinned_page va iova len s) sp = hm_root s sp"
  "hm_root (note_unpinned_page iova len s) sp = hm_root s sp"
  by (simp_all add: hm_root_def ase_host_memory_unlock_def note_pinned_page_def
      note_unpinned_page_def split: option.split)

lemma hm_mem_simps [simp]:
  "hm_mem (ase_host_memory_unlock s) = hm_mem s"
  "hm_mem (note_pinned_page va iova len s) = hm_mem s"
  "hm_mem (note_unpinned_page iova len s) = hm_mem s"
  by (simp_all add: ase_host_memory_unlock_def note_pinned_page_def note_unpinned_page_def)

lemma hm_lock_simps [simp]:
  "ase_pt_lock (ase_host_memory_unlock s) = False"
  "ase_pt_lock (note_pinned_page va iova len s) = ase_pt_lock s"
  "ase_pt_lock (note_unpinned_page iova len s) = ase_pt_lock s"
  by (simp_all add: ase_host_memory_unlock_def note_pinned_page_def note_unpinned_page_def)

text \<open>The invariant and the entries depend on the memory and the roots only.\<close>

lemma hm_same:
  assumes "hm_mem s' = hm_mem s" and "hm_root s' = hm_root s"
  shows "hm_ok s' = hm_ok s" and "hm_entry s' = hm_entry s"
proof -
  show "hm_ok s' = hm_ok s" unfolding hm_ok_def assms ..
  show "hm_entry s' = hm_entry s" by (intro ext) (simp add: hm_entry_def assms)
qed

lemma hm_ok_simps [simp]:
  "hm_ok (s\<lparr>iova_mem_alloc := al\<rparr>) = hm_ok s"
  "hm_ok (s\<lparr>ase_pt_lock := b\<rparr>) = hm_ok s"
  "hm_ok (ase_host_memory_unlock s) = hm_ok s"
  "hm_ok (note_pinned_page va iova len s) = hm_ok s"
  "hm_ok (note_unpinned_page iova len s) = hm_ok s"
  by (rule hm_same(1), simp, simp add: fun_eq_iff)+

lemma hm_entry_simps [simp]:
  "hm_entry (s\<lparr>iova_mem_alloc := al\<rparr>) = hm_entry s"
  "hm_entry (s\<lparr>ase_pt_lock := b\<rparr>) = hm_entry s"
  "hm_entry (ase_host_memory_unlock s) = hm_entry s"
  "hm_entry (note_pinned_page va iova len s) = hm_entry s"
  "hm_entry (note_unpinned_page iova len s) = hm_entry s"
  by (rule hm_same(2), simp, simp add: fun_eq_iff)+

lemma hm_okD:
  assumes "hm_ok s"
  shows "pt_mem_ok (hm_mem s)" and "hm_root s sp \<noteq> 0 \<Longrightarrow> pt_root_ok (hm_mem s) (hm_root s sp)"
    and "sp \<noteq> sp' \<Longrightarrow> hm_root s sp \<noteq> 0 \<Longrightarrow> hm_root s sp' \<noteq> 0 \<Longrightarrow>
      pt_tables 3 (hm_mem s) (hm_root s sp) \<inter> pt_tables 3 (hm_mem s) (hm_root s sp') = {}"
  using assms by (auto simp: hm_ok_def)

text \<open>An operation on the tree of one space keeps the invariant and the other spaces.\<close>

lemma hm_evolves:
  assumes ok: "hm_ok s" and sp: "hm_root s sp \<noteq> 0"
    and ev: "pt_evolves 3 (hm_root s sp) (hm_mem s) m"
  shows "hm_ok (s\<lparr>hm_mem := m\<rparr>)"
    and "sp' \<noteq> sp \<Longrightarrow> hm_entry (s\<lparr>hm_mem := m\<rparr>) sp' = hm_entry s sp'"
proof -
  note D = hm_okD [OF ok]
  have other: "pt_root_ok m (hm_root s y)"
    "pt_find 3 m (hm_root s y) x = pt_find 3 (hm_mem s) (hm_root s y) x"
    "pt_tables 3 m (hm_root s y) = pt_tables 3 (hm_mem s) (hm_root s y)"
    "pt_tables 3 m (hm_root s sp) \<inter> pt_tables 3 m (hm_root s y) = {}"
    if "y \<noteq> sp" "hm_root s y \<noteq> 0" for y x
    using pt_evolves_other [OF ev D(2) [OF that(2)] D(3) [OF that(1) [symmetric] sp that(2)]]
    by auto
  have "pt_tables 3 m (hm_root s y) \<inter> pt_tables 3 m (hm_root s z) = {}"
    if "y \<noteq> z" "hm_root s y \<noteq> 0" "hm_root s z \<noteq> 0" for y z
  proof (cases "y = sp \<or> z = sp")
    case True
    then show ?thesis using other(4) [of y] other(4) [of z] that by (auto simp: Int_commute)
  next
    case False
    then show ?thesis using other(3) that D(3) by simp
  qed
  moreover have "pt_root_ok m (hm_root s y)" if "hm_root s y \<noteq> 0" for y
    using other(1) that pt_evolves_wf [OF ev] by (cases "y = sp") auto
  ultimately show "hm_ok (s\<lparr>hm_mem := m\<rparr>)"
    using pt_evolves_mem_ok [OF D(1) ev] by (auto simp: hm_ok_def)
  show "hm_entry (s\<lparr>hm_mem := m\<rparr>) sp' = hm_entry s sp'" if "sp' \<noteq> sp"
    using other(2) that by (auto simp: hm_entry_def fun_eq_iff)
qed

text \<open>A fresh root is an empty space.\<close>

lemma hm_new_root:
  assumes ok: "hm_ok s" and a: "hm_mem s a = None" "is_table a" and zero: "hm_root s sp = 0"
    and s': "hm_mem s' = (hm_mem s)(a \<mapsto> pt_zero_page)" "hm_root s' = (hm_root s)(sp := a)"
  shows "hm_ok s'" and "hm_entry s' = hm_entry s" and "hm_root s' sp = a"
proof -
  note D = hm_okD [OF ok]
  note z = pt_zero [of "hm_mem s'" a, OF _ a(2)]
  have same: "hm_mem s' x = hm_mem s x" if "y \<noteq> sp" "hm_root s y \<noteq> 0"
      "x \<in> pt_tables 3 (hm_mem s) (hm_root s y)" for x y
    using pt_tables_dom [OF D(2) [OF that(2)] that(3)] a s' by auto
  have T: "pt_tables 3 (hm_mem s') (hm_root s y) = pt_tables 3 (hm_mem s) (hm_root s y)"
    if "y \<noteq> sp" "hm_root s y \<noteq> 0" for y by (rule pt_tables_frame [OF same [OF that]])
  have W: "pt_root_ok (hm_mem s') (hm_root s y)"
    if "y \<noteq> sp" "hm_root s y \<noteq> 0" for y
    by (rule pt_wf_frame [OF D(2) [OF that(2)] same [OF that]])
  have F: "pt_find 3 (hm_mem s') (hm_root s y) x = pt_find 3 (hm_mem s) (hm_root s y) x"
    if "y \<noteq> sp" "hm_root s y \<noteq> 0" for x y by (rule pt_find_frame [OF same [OF that]])
  have N: "a \<notin> pt_tables 3 (hm_mem s) (hm_root s y)" if "hm_root s y \<noteq> 0" for y
    using pt_tables_dom [OF D(2) [OF that], of a] a by auto
  have "pt_mem_ok (hm_mem s')" using D(1) a s' by (auto simp: pt_mem_ok_def)
  moreover have "pt_root_ok (hm_mem s') (hm_root s' y)" if "hm_root s' y \<noteq> 0" for y
    using that W z(1) s' by (cases "y = sp") auto
  moreover have "pt_tables 3 (hm_mem s') (hm_root s' y) \<inter> pt_tables 3 (hm_mem s') (hm_root s' y') = {}"
    if "y \<noteq> y'" "hm_root s' y \<noteq> 0" "hm_root s' y' \<noteq> 0" for y y'
    using that T N D(3) z(2) s' by (cases "y = sp"; cases "y' = sp") auto
  ultimately show "hm_ok s'" unfolding hm_ok_def by blast
  show "hm_entry s' = hm_entry s"
    using s' zero F z(3) by (intro ext) (auto simp: hm_entry_def is_table_def)
  show "hm_root s' sp = a" using s' by simp
qed

lemma exp_minus_1_mask: "2 ^ n - 1 = (mask n :: u64)"
  by (simp add: mask_eq_exp_minus_1)

lemma or_neq_0: "(a :: u64) \<noteq> 0 \<Longrightarrow> a OR b \<noteq> 0"
  by (metis or_eq_0_iff)

lemma hm_translate_eq:
  assumes "hm_ok s"
  shows "hm_translate s x (hm_root s sp) keep =
    Inr (hm_va (hm_entry s sp x) x,
         if keep \<and> hm_va (hm_entry s sp x) x \<noteq> 0 then s else ase_host_memory_unlock s)"
proof -
  have look: "ase_pt_lookup_addr (hm_mem s) x (hm_root s sp) = Inr (lookup_result (hm_entry s sp x))"
    using pt_lookup_addr_find [OF hm_okD(2) [OF assms]]
    by (auto simp: hm_entry_def ase_pt_lookup_addr_def numeral_3_eq_3 lookup_result_def)
  show ?thesis
    unfolding hm_translate_def look
    using or_neq_0 by (simp add: hm_va_def exp_minus_1_mask Let_def case_prod_beta)
qed

lemma hm_lock_Inr:
  "\<not> ase_pt_lock s \<Longrightarrow> hm_lock s = Inr (s\<lparr>ase_pt_lock := True\<rparr>)"
  "ase_pt_lock s \<Longrightarrow> hm_lock s = Inl Blocked"
  by (simp_all add: hm_lock_def)

lemma hm_root_Some [simp]: "hm_root s (Some i) = ase_iova_pt_root s i" "hm_root s None = ase_pa_pt_root s"
  by (simp_all add: hm_root_def)

lemma iova_to_va_eq:
  assumes "hm_ok s" and "\<not> ase_pt_lock s" and "afu_idx_ok afu_idx"
  shows "\<exists>s'. ase_host_memory_iova_to_va s afu_idx x keep =
           Inr (hm_va (hm_entry s (Some (nat afu_idx)) x) x, s') \<and> hm_ok s' \<and>
         hm_entry s' = hm_entry s \<and>
         ase_pt_lock s' = (keep \<and> hm_va (hm_entry s (Some (nat afu_idx)) x) x \<noteq> 0)"
  using hm_translate_eq [of "s\<lparr>ase_pt_lock := True\<rparr>" x "Some (nat afu_idx)" keep] assms
  by (simp add: ase_host_memory_iova_to_va_def hm_lock_Inr)

lemma pa_to_va_eq:
  assumes "hm_ok s" and "\<not> ase_pt_lock s"
  shows "\<exists>s'. ase_host_memory_pa_to_va s x keep = Inr (hm_va (hm_entry s None x) x, s') \<and>
         hm_ok s' \<and> hm_entry s' = hm_entry s \<and>
         ase_pt_lock s' = (keep \<and> hm_va (hm_entry s None x) x \<noteq> 0)"
  using hm_translate_eq [of "s\<lparr>ase_pt_lock := True\<rparr>" x None keep] assms
  by (simp add: ase_host_memory_pa_to_va_def hm_lock_Inr)

section \<open>Pinning\<close>

lemma length_to_level_range:
  "ase_pt_length_to_level len = -1 \<or> 0 \<le> ase_pt_length_to_level len \<and> ase_pt_length_to_level len < 3"
  by (simp add: ase_pt_length_to_level_def)

text \<open>Pinning a page into the tree of a space that has a root.\<close>

lemma hm_pin_tree:
  assumes ok: "hm_ok s" and mm: "mmap_fresh mm" and root: "hm_root s sp \<noteq> 0"
    and k: "0 \<le> k" "k < 3"
    and pin: "ase_pt_pin_page mm (hm_mem s) va iova (hm_root s sp) k = Inr (m, st)"
  shows "hm_ok (s\<lparr>hm_mem := m\<rparr>)"
    and "st \<noteq> 0 \<Longrightarrow> hm_entry (s\<lparr>hm_mem := m\<rparr>) = hm_entry s"
    and "st = 0 \<Longrightarrow> \<exists>e'. pinned_entry (nat k) (hm_entry s sp iova) va = Inr e' \<and>
      (\<forall>y x. hm_entry (s\<lparr>hm_mem := m\<rparr>) y x =
         (if y = sp \<and> same_page 3 (nat k) iova x then Some (nat k, e') else hm_entry s y x))"
proof -
  have post: "pin_post 3 (nat k) va iova (hm_mem s) (hm_root s sp) (Inr (m, st))"
    using pt_pin_page_spec [OF mm hm_okD(2) [OF ok root] k, of va iova] pin by simp
  then have ev: "pt_evolves 3 (hm_root s sp) (hm_mem s) m" by (simp add: pin_post_def)
  show "hm_ok (s\<lparr>hm_mem := m\<rparr>)" by (rule hm_evolves(1) [OF ok root ev])
  have other: "hm_entry (s\<lparr>hm_mem := m\<rparr>) y x = hm_entry s y x" if "y \<noteq> sp" for y x
    using hm_evolves(2) [OF ok root ev that] by simp
  have self: "hm_entry (s\<lparr>hm_mem := m\<rparr>) sp x = pt_find 3 m (hm_root s sp) x"
    "hm_entry s sp x = pt_find 3 (hm_mem s) (hm_root s sp) x" for x
    using root by (simp_all add: hm_entry_def)
  show "hm_entry (s\<lparr>hm_mem := m\<rparr>) = hm_entry s" if "st \<noteq> 0"
  proof (intro ext)
    fix y x show "hm_entry (s\<lparr>hm_mem := m\<rparr>) y x = hm_entry s y x"
      using post that other self by (cases "y = sp") (simp_all add: pin_post_def)
  qed
  show "\<exists>e'. pinned_entry (nat k) (hm_entry s sp iova) va = Inr e' \<and>
      (\<forall>y x. hm_entry (s\<lparr>hm_mem := m\<rparr>) y x =
         (if y = sp \<and> same_page 3 (nat k) iova x then Some (nat k, e') else hm_entry s y x))"
    if "st = 0"
  proof -
    have "\<exists>e'. pinned_entry (nat k) (hm_entry s sp iova) va = Inr e' \<and>
      (\<forall>x. hm_entry (s\<lparr>hm_mem := m\<rparr>) sp x =
         (if same_page 3 (nat k) iova x then Some (nat k, e') else hm_entry s sp x))"
      unfolding self using post that by (auto simp: pin_post_def)
    then obtain e' where e': "pinned_entry (nat k) (hm_entry s sp iova) va = Inr e'"
      "\<And>x. hm_entry (s\<lparr>hm_mem := m\<rparr>) sp x =
         (if same_page 3 (nat k) iova x then Some (nat k, e') else hm_entry s sp x)"
      by blast
    have "hm_entry (s\<lparr>hm_mem := m\<rparr>) y x =
         (if y = sp \<and> same_page 3 (nat k) iova x then Some (nat k, e') else hm_entry s y x)" for y x
      using e'(2) other by (cases "y = sp") simp_all
    with e'(1) show ?thesis by blast
  qed
qed

text \<open>The state of \<open>ase_host_memory_pin\<close> after the creation of the root.\<close>

definition hm_add_root :: "'al hm_state \<Rightarrow> nat \<Rightarrow> u64 \<Rightarrow> 'al hm_state" where
  "hm_add_root s i a = s\<lparr>hm_mem := (hm_mem s)(a \<mapsto> pt_zero_page),
                        ase_iova_pt_root := (ase_iova_pt_root s)(i := a)\<rparr>"

lemma hm_add_root:
  assumes "hm_ok s" and "mmap_fresh mm" and "mm (hm_mem s) = Some a" and "ase_iova_pt_root s i = 0"
  shows "hm_ok (hm_add_root s i a)" and "hm_entry (hm_add_root s i a) = hm_entry s"
    and "ase_iova_pt_root (hm_add_root s i a) i = a" and "a \<noteq> 0"
proof -
  have a: "hm_mem s a = None" "is_table a" using assms(2,3) by (auto simp: mmap_fresh_def)
  have r: "hm_root (hm_add_root s i a) = (hm_root s)(Some i := a)"
    by (intro ext) (auto simp: hm_root_def hm_add_root_def split: option.split)
  have m: "hm_mem (hm_add_root s i a) = (hm_mem s)(a \<mapsto> pt_zero_page)" by (simp add: hm_add_root_def)
  have z: "hm_root s (Some i) = 0" using assms(4) by simp
  show "hm_ok (hm_add_root s i a)" "hm_entry (hm_add_root s i a) = hm_entry s"
    using hm_new_root [OF assms(1) a z m r] by simp_all
  show "ase_iova_pt_root (hm_add_root s i a) i = a" by (simp add: hm_add_root_def)
  show "a \<noteq> 0" using a by auto
qed

text \<open>
  A successful pin, seen from outside: one page of one IOVA space gets a new entry and the
  lock is free again.
\<close>

lemma host_pin_done:
  assumes ok: "hm_ok s" and mm: "mmap_fresh mm"
    and pin: "ase_host_memory_pin mm s afu_idx va iova len = Inr (0, s')"
  defines "i \<equiv> nat afu_idx" and "k \<equiv> nat (ase_pt_length_to_level len)"
  shows "hm_ok s'" and "\<not> ase_pt_lock s'" and "0 \<le> ase_pt_length_to_level len" and "k < 3"
    and "\<exists>e'. pinned_entry k (hm_entry s (Some i) iova) va = Inr e' \<and>
      (\<forall>y x. hm_entry s' y x =
         (if y = Some i \<and> same_page 3 k iova x then Some (k, e') else hm_entry s y x))"
proof -
  from pin have afu: "afu_idx_ok afu_idx" and unl: "\<not> ase_pt_lock s"
    by (auto simp: ase_host_memory_pin_def hm_lock_def split: if_splits)
  let ?s = "s\<lparr>ase_pt_lock := True\<rparr>"
  have lv: "ase_pt_length_to_level len \<noteq> -1"
    using pin afu unl by (auto simp: ase_host_memory_pin_def hm_lock_Inr)
  then have k: "0 \<le> ase_pt_length_to_level len" "ase_pt_length_to_level len < 3"
    using length_to_level_range [of len] by auto
  then show "0 \<le> ase_pt_length_to_level len" "k < 3" by (auto simp: k_def)
  obtain s1 m where s1: "hm_ok s1" "hm_entry s1 = hm_entry s" "ase_iova_pt_root s1 i \<noteq> 0"
    and m: "ase_pt_pin_page mm (hm_mem s1) va iova (ase_iova_pt_root s1 i)
              (ase_pt_length_to_level len) = Inr (m, 0)"
    and s': "s' = note_pinned_page va iova len (ase_host_memory_unlock (s1\<lparr>hm_mem := m\<rparr>))"
  proof (cases "ase_iova_pt_root s i = 0")
    case False
    then show ?thesis
      using that [of ?s] pin afu unl lv ok
      by (auto simp: ase_host_memory_pin_def hm_lock_Inr Let_def i_def split: if_splits)
  next
    case True
    then obtain a where a: "mm (hm_mem s) = Some a"
      using pin afu unl lv
      by (auto simp: ase_host_memory_pin_def hm_lock_Inr Let_def i_def split: option.splits)
    note r = hm_add_root [of ?s mm a i] 
    show ?thesis
      using that [of "hm_add_root ?s i a"] r ok mm a True pin afu unl lv
      by (auto simp: ase_host_memory_pin_def hm_lock_Inr Let_def i_def hm_add_root_def
          split: if_splits)
  qed
  note t = hm_pin_tree [OF s1(1) mm, of "Some i", OF _ k]
  show "hm_ok s'" using t(1) m s1(3) s' by simp
  show "\<not> ase_pt_lock s'" using s' by simp
  show "\<exists>e'. pinned_entry k (hm_entry s (Some i) iova) va = Inr e' \<and>
      (\<forall>y x. hm_entry s' y x =
         (if y = Some i \<and> same_page 3 k iova x then Some (k, e') else hm_entry s y x))"
    using t(3) [OF _ _ refl, of va iova m, unfolded s1(2)] m s1(3) unfolding s' k_def
    by (simp split del: if_split)
qed

text \<open>Unpinning a page that is pinned with the same size.\<close>

lemma host_unpin_done:
  assumes ok: "hm_ok s" and unl: "\<not> ase_pt_lock s" and afu: "afu_idx_ok afu_idx"
    and lv: "ase_pt_length_to_level len \<noteq> - 1" and k: "k = nat (ase_pt_length_to_level len)"
    and ent: "hm_entry s (Some (nat afu_idx)) iova = Some (k, e)" and v: "ase_pt_decr_refcnt e = Inr (v, c)"
  shows "\<exists>s'. ase_host_memory_unpin s afu_idx iova len = Inr (0, s') \<and> hm_ok s' \<and> \<not> ase_pt_lock s' \<and>
    (\<forall>y x. hm_entry s' y x = (if y = Some (nat afu_idx) \<and> same_page 3 k iova x then unpinned_entry k v
       else hm_entry s y x))"
proof -
  let ?sp = "Some (nat afu_idx)"
  have root: "hm_root s ?sp \<noteq> 0" and f: "pt_find 3 (hm_mem s) (hm_root s ?sp) iova = Some (k, e)"
    using ent by (auto simp: hm_entry_def split: if_splits)
  have lv': "0 \<le> ase_pt_length_to_level len" "ase_pt_length_to_level len < 3"
    using lv length_to_level_range [of len] by auto
  obtain m where m: "ase_pt_unpin_page (hm_mem s) iova (hm_root s ?sp) (ase_pt_length_to_level len) = Inr (m, 0)"
    and ev: "pt_evolves 3 (hm_root s ?sp) (hm_mem s) m"
    and fm: "\<And>y. pt_find 3 m (hm_root s ?sp) y =
      (if same_page 3 k iova y then unpinned_entry k v else pt_find 3 (hm_mem s) (hm_root s ?sp) y)"
    using pt_unpin_page_spec [OF hm_okD(1) [OF ok] hm_okD(2) [OF ok root] lv', of iova] f v
    by (auto simp: unpin_post_def k)
  define s' where "s' = note_unpinned_page iova len (ase_host_memory_unlock ((s\<lparr>hm_mem := m\<rparr>)\<lparr>ase_pt_lock := True\<rparr>))"
  have "ase_host_memory_unpin s afu_idx iova len = Inr (0, s')"
    using m root lv afu unl 
    by (simp add: ase_host_memory_unpin_def hm_lock_def Let_def s'_def ase_host_memory_unlock_def)
  moreover have "hm_ok s'" "\<not> ase_pt_lock s'" using hm_evolves(1) [OF ok root ev] by (simp_all add: s'_def)
  moreover have "hm_entry s' y x = (if y = ?sp \<and> same_page 3 k iova x then unpinned_entry k v
       else hm_entry s y x)" for y x
  proof (cases "y = ?sp")
    case True
    then show ?thesis using fm [of x] root by (simp add: s'_def hm_entry_def)
  next
    case False
    then show ?thesis using hm_evolves(2) [OF ok root ev False] by (simp add: s'_def)
  qed
  ultimately show ?thesis by blast
qed

text \<open>The other direction: what a call with a held lock or a bad index does.\<close>

lemma hm_pin_unlocked:
  assumes "ase_host_memory_pin mm s afu_idx va iova len = Inr (0, s')"
  shows "\<not> ase_pt_lock s" and "afu_idx_ok afu_idx"
  using assms by (auto simp: ase_host_memory_pin_def hm_lock_def split: if_splits)

lemma iova_to_va_result:
  assumes "hm_ok s" and "\<not> ase_pt_lock s" and "afu_idx_ok afu_idx"
  shows "map_sum id fst (ase_host_memory_iova_to_va s afu_idx x False) =
    Inr (hm_va (hm_entry s (Some (nat afu_idx)) x) x)"
  using iova_to_va_eq [OF assms, of x False] by auto

lemma page_or_offset:
  fixes va x :: u64
  assumes "take_bit n va = 0"
  shows "va OR (x AND mask n) = va + take_bit n x"
proof -
  have "va AND take_bit n x = 0"
    using assms by (intro bit_word_eqI) (auto simp: bit_simps fun_eq_iff bit_eq_iff)
  then show ?thesis by (simp add: disjunctive_add_eq_or take_bit_eq_mask [symmetric])
qed

lemma addr_mask_page:
  fixes va :: u64
  assumes "take_bit n va = 0" and "12 \<le> n" and "va < 2 ^ 63"
  shows "va AND ASE_PT_ADDR_MASK = va"
proof (rule bit_word_eqI)
  fix i assume "i < LENGTH(64)"
  have "\<not> bit va i" if "i < 12"
    using assms(1,2) that by (auto simp: bit_eq_iff bit_take_bit_iff)
  moreover have "\<not> bit va 63"
    using word_less_exp_bit [OF assms(3), of 63] by simp
  ultimately show "bit (va AND ASE_PT_ADDR_MASK) i = bit va i"
    using \<open>i < LENGTH(64)\<close> by (cases "i = 63"; cases "i < 12") (auto simp: bit_and_iff bit_ADDR_MASK)
qed

text \<open>The address that a freshly pinned entry gives.\<close>

lemma hm_va_pinned:
  assumes "pinned_entry k old va = Inr e'" and "va \<noteq> 0" and "va < 2 ^ 63"
    and "take_bit (ase_pt_level_to_bit_idx k) va = 0"
  shows "hm_va (Some (k, e')) x = va + take_bit (ase_pt_level_to_bit_idx k) x"
  using pinned_entry_Inr [OF assms(1)] assms(2)
    addr_mask_page [OF assms(4) _ assms(3)] page_or_offset [OF assms(4), of x]
  by (simp add: hm_va_def lookup_result_def ase_pt_level_to_bit_idx_def)

section \<open>Address translation services\<close>

lemma va_page_len_simps:
  assumes "ase_host_memory_va_page_len smaps s va = (page_len, s')"
  shows "hm_root s' = hm_root s" and "hm_mem s' = hm_mem s" and "ase_pt_lock s' = ase_pt_lock s"
  using assms
  by (auto simp: ase_host_memory_va_page_len_def hm_root_def fun_eq_iff
      split: if_splits option.splits prod.splits)

lemma page_len_level:
  assumes "ase_host_memory_va_page_len smaps s va = (page_len, s')" and "hm_cache_ok s"
  shows "page_len \<in> {-1, 0, uint (4 * KB), uint (2 * MB), uint GB}" and "hm_cache_ok s'"
    and "0 < page_len \<Longrightarrow> ase_pt_length_to_level (word_of_int page_len) \<in> {0, 1, 2} \<and>
      word_of_int page_len = (2 :: u64) ^ ase_pt_level_to_bit_idx (nat (ase_pt_length_to_level (word_of_int page_len)))"
proof -
  show r: "page_len \<in> {-1, 0, uint (4 * KB), uint (2 * MB), uint GB}"
    using assms by (auto simp: ase_host_memory_va_page_len_def hm_cache_ok_def page_kb_to_bytes_def
        split: if_splits option.splits)
  show "hm_cache_ok s'"
    using assms by (auto simp: ase_host_memory_va_page_len_def hm_cache_ok_def page_kb_to_bytes_def
        split: if_splits option.splits)
  show "0 < page_len \<Longrightarrow> ase_pt_length_to_level (word_of_int page_len) \<in> {0, 1, 2} \<and>
      word_of_int page_len = (2 :: u64) ^ ase_pt_level_to_bit_idx (nat (ase_pt_length_to_level (word_of_int page_len)))"
    using r by (auto simp: ase_pt_length_to_level_def KB_def MB_def GB_def ase_pt_level_to_bit_idx_def)
qed

lemma gen_xor_mask_low: "take_bit (ase_pt_level_to_bit_idx k) (ase_host_memory_gen_xor_mask k) = 0"
  by (intro bit_word_eqI) (auto simp: ase_host_memory_gen_xor_mask_def bit_simps)

lemma same_page_drop_bit:
  assumes "drop_bit (ase_pt_level_to_bit_idx k) x = drop_bit (ase_pt_level_to_bit_idx k) y"
  shows "same_page 3 k x y"
proof -
  have "drop_bit (ase_pt_level_to_bit_idx j) x = drop_bit (ase_pt_level_to_bit_idx j) y"
    if "k \<le> j" for j
  proof -
    have "ase_pt_level_to_bit_idx j = (j - k) * 9 + ase_pt_level_to_bit_idx k"
      using that by (simp add: ase_pt_level_to_bit_idx_def diff_mult_distrib)
    then show ?thesis using assms by (metis drop_bit_drop_bit)
  qed
  then show ?thesis by (simp add: same_page_def ase_pt_idx_def)
qed

text \<open>
  A successful translation of an address whose page was not known to the PA table: the
  page gets an entry and nothing else changes.
\<close>

lemma va_to_pa_new:
  assumes ok: "hm_ok s" and mm: "mmap_fresh mm" and root: "ase_pa_pt_root s \<noteq> 0"
    and call: "ase_host_memory_va_to_pa mm smaps s va = Inr (pa, Some len, s')" and len: "len \<noteq> 0"
    and cache: "hm_cache_ok s"
    and new: "hm_va (hm_entry s None pa) pa = 0"
  defines "k \<equiv> nat (ase_pt_length_to_level len)"
  shows "hm_ok s'" and "\<not> ase_pt_lock s'" and "pa = va XOR ase_host_memory_gen_xor_mask k"
    and "\<exists>e'. pinned_entry k (hm_entry s None pa) va = Inr e' \<and>
      (\<forall>x. hm_entry s' None x = (if same_page 3 k pa x then Some (k, e') else hm_entry s None x))"
proof -
  from call have unl: "\<not> ase_pt_lock s" by (auto simp: ase_host_memory_va_to_pa_def hm_lock_def split: if_splits)
  let ?s = "s\<lparr>ase_pt_lock := True\<rparr>"
  obtain page_len s1 where pl: "ase_host_memory_va_page_len smaps ?s va = (page_len, s1)"
    by (cases "ase_host_memory_va_page_len smaps ?s va")
  note s1 = va_page_len_simps [OF pl]
  have c: "hm_cache_ok ?s" using cache by (simp add: hm_cache_ok_def)
  have pos: "0 < page_len"
    using page_len_level(1) [OF pl c] call unl len pl
    by (auto simp: ase_host_memory_va_to_pa_def hm_lock_Inr KB_def MB_def GB_def split: if_splits)
  have same: "hm_ok s1" "hm_entry s1 = hm_entry s" "hm_root s1 None \<noteq> 0"
    using hm_same [of s1 ?s] s1 ok root by simp_all
  have l: "len = word_of_int page_len" "pa = va XOR ase_host_memory_gen_xor_mask k"
    using call unl len pl
    by (auto simp: ase_host_memory_va_to_pa_def hm_lock_Inr Let_def k_def split: if_splits)
  then show "pa = va XOR ase_host_memory_gen_xor_mask k" by simp
  have look: "ase_pt_lookup_addr (hm_mem s1) pa (ase_pa_pt_root s1) = Inr (lookup_result (hm_entry s None pa))"
    using pt_lookup_addr_find [OF hm_okD(2) [OF same(1,3)]] same(2,3)
    by (metis hm_entry_def hm_root_Some(2))
  have z: "fst (lookup_result (hm_entry s None pa)) = 0"
    using new or_neq_0 by (auto simp: hm_va_def split: prod.splits if_splits)
  obtain m where m: "ase_pt_pin_page mm (hm_mem s1) va pa (ase_pa_pt_root s1)
      (ase_pt_length_to_level len) = Inr (m, 0)"
    and s': "s' = ase_host_memory_unlock (s1\<lparr>hm_mem := m\<rparr>)"
    using call unl len pl l look z
    by (auto simp: ase_host_memory_va_to_pa_def hm_lock_Inr Let_def k_def case_prod_beta
        split: if_splits)
  have k: "0 \<le> ase_pt_length_to_level len" "ase_pt_length_to_level len < 3"
    using page_len_level(3) [OF pl c pos] l(1) by auto
  note t = hm_pin_tree [OF same(1) mm same(3) k]
  show "hm_ok s'" using t(1) m s' by simp
  show "\<not> ase_pt_lock s'" using s' by simp
  show "\<exists>e'. pinned_entry k (hm_entry s None pa) va = Inr e' \<and>
      (\<forall>x. hm_entry s' None x = (if same_page 3 k pa x then Some (k, e') else hm_entry s None x))"
    using t(3) [OF _ refl, of va pa m, unfolded same(2)] m s' unfolding k_def by auto
qed

lemma xor_mask_drop_bit:
  "drop_bit n x = drop_bit n y \<Longrightarrow> drop_bit n (x XOR w) = drop_bit n (y XOR (w :: u64))"
  by (simp add: drop_bit_xor)

lemma page_bits:
  fixes va x :: u64
  assumes page: "drop_bit n x = drop_bit n va" and va: "va < 2 ^ 63" and n: "12 \<le> n"
  shows "(va AND ASE_PT_ADDR_MASK) OR (x AND mask n) = x OR (va AND (mask n AND NOT (mask 12)))"
proof (rule bit_word_eqI)
  fix i assume "i < LENGTH(64)"
  have "bit x i = bit va i" if "n \<le> i"
    using arg_cong [OF page, of "\<lambda>w. bit w (i - n)"] that by (simp add: bit_drop_bit_eq)
  moreover have "\<not> bit va 63" using word_less_exp_bit [OF va, of 63] by simp
  ultimately show "bit ((va AND ASE_PT_ADDR_MASK) OR (x AND mask n)) i =
      bit (x OR (va AND (mask n AND NOT (mask 12)))) i"
    using \<open>i < LENGTH(64)\<close> n
    by (cases "i = 63"; cases "n \<le> i"; cases "i < 12")
      (auto simp: bit_or_iff bit_and_iff bit_not_iff bit_mask_iff bit_ADDR_MASK)
qed

text \<open>
  What a PA translates back to once the page has been entered through the address \<open>va\<close>: the
  bits of \<open>va\<close> between bit 12 and the page size are or-ed into every address of the page.
\<close>

lemma pa_to_va_page:
  assumes call: "hm_ok s" "mmap_fresh mm" "ase_pa_pt_root s \<noteq> 0"
    "ase_host_memory_va_to_pa mm smaps s va = Inr (pa, Some len, s')" "len \<noteq> 0" "hm_cache_ok s"
    "hm_va (hm_entry s None pa) pa = 0"
    and n: "n = ase_pt_level_to_bit_idx (nat (ase_pt_length_to_level len))"
    and va: "va < 2 ^ 63" "2 ^ 12 \<le> va" and x: "drop_bit n x = drop_bit n va"
  shows "map_sum id fst (ase_host_memory_pa_to_va s'
      (x XOR ase_host_memory_gen_xor_mask (nat (ase_pt_length_to_level len))) False)
    = Inr (x OR (va AND (mask n AND NOT (mask 12))))"
proof -
  define k where "k = nat (ase_pt_length_to_level len)"
  note d = va_to_pa_new [OF call, folded k_def]
  let ?y = "x XOR ase_host_memory_gen_xor_mask k"
  have "same_page 3 k pa ?y"
    unfolding d(3) using x n k_def by (intro same_page_drop_bit xor_mask_drop_bit) simp
  then obtain e' where e': "pinned_entry k (hm_entry s None pa) va = Inr e'"
    "hm_entry s' None ?y = Some (k, e')" using d(4) by auto
  have "va AND mask 12 \<le> mask 12" by (rule word_and_le1)
  also have "\<dots> < (2 :: u64) ^ 12" by (simp add: mask_eq_exp_minus_1)
  also note va(2)
  finally have nz: "va AND ASE_PT_ADDR_MASK \<noteq> 0"
    using page_bits [of 12 va va] va by auto
  have "?y AND mask n = x AND mask n"
    using gen_xor_mask_low [of k] n unfolding k_def by (simp add: take_bit_eq_mask [symmetric] take_bit_xor)
  then have "hm_va (Some (k, e')) ?y = (va AND ASE_PT_ADDR_MASK) OR (x AND mask n)"
    using pinned_entry_Inr [OF e'(1)] n [folded k_def] nz by (simp add: hm_va_def lookup_result_def)
  then show ?thesis
    using pa_to_va_eq [OF d(1,2), of ?y False] e'(2) page_bits [OF x va(1)] n
    by (auto simp: k_def ase_pt_level_to_bit_idx_def)
qed

section \<open>Properties\<close>

text \<open>
  C7: a pinned page can be reached through its IOVA. After a successful
  \<open>ase_host_memory_pin\<close> of a page aligned buffer the state is consistent and unlocked, each
  IOVA of the page translates to the address at the same offset in the buffer, and every
  other IOVA, of the same or of another AFU, translates as before.
\<close>

theorem host_pin_translates:
  assumes "hm_ok s" and "mmap_fresh mm"
    and "ase_host_memory_pin mm s afu_idx va iova len = Inr (0, s')"
    and "k = nat (ase_pt_length_to_level len)" and "n = ase_pt_level_to_bit_idx k"
    and "va \<noteq> 0" and "va < 2 ^ 63" and "take_bit n va = 0" and "afu_idx_ok other"
  shows "hm_ok s' \<and> \<not> ase_pt_lock s' \<and>
    map_sum id fst (ase_host_memory_iova_to_va s' other x False) =
      (if other = afu_idx \<and> same_page 3 k iova x then Inr (va + take_bit n x)
       else map_sum id fst (ase_host_memory_iova_to_va s other x False))"
proof -
  note d = host_pin_done [OF assms(1-3), folded assms(4)]
  note u = hm_pin_unlocked [OF assms(3)]
  obtain e' where e': "pinned_entry k (hm_entry s (Some (nat afu_idx)) iova) va = Inr e'"
    and ent: "\<And>y x. hm_entry s' y x =
      (if y = Some (nat afu_idx) \<and> same_page 3 k iova x then Some (k, e') else hm_entry s y x)"
    using d(5) by blast
  have "nat other = nat afu_idx \<longleftrightarrow> other = afu_idx"
    using u(2) assms(9) by (auto simp: afu_idx_ok_def)
  then show ?thesis
    using d(1,2) iova_to_va_result [OF d(1,2) assms(9)] iova_to_va_result [OF assms(1) u(1) assms(9)]
      hm_va_pinned [OF e' assms(6,7)] assms(5,8) by (simp add: ent)
qed

definition demo_hm :: "unit hm_state" where
  "demo_hm = \<lparr>hm_mem = demo_mem2, ase_iova_pt_root = (\<lambda>_. 0)(0 := 0x1000),
     ase_pa_pt_root = 0x8000, iova_mem_alloc = (), ase_pt_lock = False,
     cached_page_len_valid = False, cached_page_range_start = 0, cached_page_range_end = 0,
     cached_page_len = 0, hm_notes = []\<rparr>"

definition demo_smaps :: "smaps_line list option" where
  "demo_smaps = Some [SmapsRange 0x7f0000000000 0x7f0040000000, SmapsOther, SmapsPageSize 2048]"

lemma demo_hm_ok: "hm_ok demo_hm" "\<not> ase_pt_lock demo_hm" "hm_cache_ok demo_hm"
proof -
  have "hm_root demo_hm sp = (case sp of None \<Rightarrow> 0x8000 | Some i \<Rightarrow> if i = 0 then 0x1000 else 0)" for sp
    by (simp add: hm_root_def demo_hm_def split: option.split)
  then show "hm_ok demo_hm"
    using demo_mem2_ok by (auto simp: hm_ok_def demo_hm_def Int_commute split: option.splits if_splits)
  show "\<not> ase_pt_lock demo_hm" "hm_cache_ok demo_hm" by (simp_all add: demo_hm_def hm_cache_ok_def)
qed

lemmas demo_eval = demo_hm_def ase_pt_pin_page_def demo_mmap_def demo_mem2_def numeral_3_eq_3
  pt_read_def pt_write_def pt_zero_page_def Let_def ase_pt_pin_entry_def ase_pt_idx_def
  ase_pt_level_to_bit_idx_def ase_pt_entry_is_terminal_def ase_pt_incr_refcnt_def
  ase_pt_length_to_level_def KB_def MB_def GB_def hm_lock_def afu_idx_ok_def ASE_MAX_TOKENS_def

lemma demo_host_pin:
  "\<exists>s'. ase_host_memory_pin demo_mmap demo_hm 0 0x7f0000200000 0x40000000 (2 * MB) = Inr (0, s')"
  by (simp add: ase_host_memory_pin_def demo_eval)

theorem host_pin_translates_witness:
  "\<exists>s'. ase_host_memory_pin demo_mmap demo_hm 0 0x7f0000200000 0x40000000 (2 * MB) = Inr (0, s') \<and>
     map_sum id fst (ase_host_memory_iova_to_va s' 0 0x40012345 False) = Inr 0x7f0000212345"
proof -
  obtain s' where s': "ase_host_memory_pin demo_mmap demo_hm 0 0x7f0000200000 0x40000000 (2 * MB) = Inr (0, s')"
    using demo_host_pin by blast
  have k: "nat (ase_pt_length_to_level (2 * MB)) = 1" "ase_pt_level_to_bit_idx 1 = 21"
    by (simp_all add: ase_pt_length_to_level_def MB_def KB_def ase_pt_level_to_bit_idx_def)
  have "same_page 3 1 0x40000000 0x40012345" by (rule same_page_drop_bit) (simp add: k [simplified])
  then show ?thesis
    using s' host_pin_translates [OF demo_hm_ok(1) demo_mmap_fresh s' k(1) [symmetric] k(2) [symmetric],
        of 0 "0x40012345"] by (simp add: afu_idx_ok_def ASE_MAX_TOKENS_def)
qed



text \<open>
  C20: simulated physical addresses lead back to the virtual address they were made from.
  When \<open>ase_host_memory_va_to_pa\<close> enters a new page at its first address, or the page has
  4 KB, then for every address \<open>x\<close> of the page \<open>ase_host_memory_pa_to_va\<close> maps the physical
  address of \<open>x\<close> to \<open>x\<close>.
\<close>

theorem va_pa_round_trip:
  assumes "hm_ok s" and "mmap_fresh mm" and "ase_pa_pt_root s \<noteq> 0"
    and "ase_host_memory_va_to_pa mm smaps s va = Inr (pa, Some len, s')" and "len \<noteq> 0"
    and "hm_cache_ok s" and "hm_va (hm_entry s None pa) pa = 0"
    and "n = ase_pt_level_to_bit_idx (nat (ase_pt_length_to_level len))"
    and "va < 2 ^ 63" and "2 ^ 12 \<le> va" and "take_bit n va = 0 \<or> n = 12"
    and "drop_bit n x = drop_bit n va"
  shows "map_sum id fst (ase_host_memory_pa_to_va s'
      (x XOR ase_host_memory_gen_xor_mask (nat (ase_pt_length_to_level len))) False) = Inr x"
proof -
  have "va AND (mask n AND NOT (mask 12)) = 0"
  proof (cases "n = 12")
    case False
    then show ?thesis using assms(11) by (simp add: take_bit_eq_mask and.assoc [symmetric])
  qed simp
  then show ?thesis using pa_to_va_page [OF assms(1-10,12)] by simp
qed

lemma demo_hm_empty: "hm_va (hm_entry demo_hm None x) y = 0"
  by (simp add: hm_entry_def hm_va_def lookup_result_def demo_hm_def demo_mem2_def
      numeral_3_eq_3 pt_zero_page_def)

lemmas demo_ats_eval = ase_host_memory_va_to_pa_def ase_host_memory_va_page_len_def demo_smaps_def
  page_kb_to_bytes_def ase_host_memory_gen_xor_mask_def ase_pt_lookup_addr_def mask_eq_exp_minus_1

lemma demo_va_to_pa:
  "\<exists>s'. ase_host_memory_va_to_pa demo_mmap demo_smaps demo_hm 0x7f0000200000 =
     Inr (0x00ffffc00000, Some (2 * MB), s')"
  by (simp add: demo_ats_eval demo_eval)

theorem va_pa_round_trip_witness:
  "\<exists>s'. ase_host_memory_va_to_pa demo_mmap demo_smaps demo_hm 0x7f0000200000 =
      Inr (0x00ffffc00000, Some (2 * MB), s') \<and>
    map_sum id fst (ase_host_memory_pa_to_va s' 0x00ffffc12345 False) = Inr 0x7f0000212345"
proof -
  obtain s' where s': "ase_host_memory_va_to_pa demo_mmap demo_smaps demo_hm 0x7f0000200000 =
      Inr (0x00ffffc00000, Some (2 * MB), s')" using demo_va_to_pa by blast
  have k: "nat (ase_pt_length_to_level (2 * MB)) = 1" "ase_pt_level_to_bit_idx 1 = 21"
    "ase_host_memory_gen_xor_mask 1 = 0x7fffffe00000" "2 * MB \<noteq> 0" "ase_pa_pt_root demo_hm \<noteq> 0"
    by (simp_all add: demo_ats_eval demo_eval)
  show ?thesis
    using s' va_pa_round_trip [OF demo_hm_ok(1) demo_mmap_fresh k(5) s' k(4) demo_hm_ok(3)
        demo_hm_empty refl, of "0x7f0000212345"] k by simp
qed

text \<open>
  C22: the first access to a huge page decides how the whole page translates. If
  \<open>ase_host_memory_va_to_pa\<close> enters the page through an address \<open>va\<close> with bits set between
  bit 12 and the page size, those bits stay in the table and an address of the page without
  them does not come back from \<open>ase_host_memory_pa_to_va\<close>.
\<close>

theorem va_pa_unaligned_first_access:
  assumes "hm_ok s" and "mmap_fresh mm" and "ase_pa_pt_root s \<noteq> 0"
    and "ase_host_memory_va_to_pa mm smaps s va = Inr (pa, Some len, s')" and "len \<noteq> 0"
    and "hm_cache_ok s" and "hm_va (hm_entry s None pa) pa = 0"
    and "n = ase_pt_level_to_bit_idx (nat (ase_pt_length_to_level len))"
    and "va < 2 ^ 63" and "2 ^ 12 \<le> va" and "drop_bit n x = drop_bit n va"
    and "bit va i" and "12 \<le> i" and "i < n" and "\<not> bit x i"
  shows "\<exists>y. map_sum id fst (ase_host_memory_pa_to_va s'
      (x XOR ase_host_memory_gen_xor_mask (nat (ase_pt_length_to_level len))) False) = Inr y \<and>
    y \<noteq> x"
proof -
  have "bit (x OR (va AND (mask n AND NOT (mask 12)))) i"
    using assms(12-14) bit_imp_le_length [OF assms(12)]
    by (simp add: bit_or_iff bit_and_iff bit_not_iff bit_mask_iff)
  then show ?thesis using pa_to_va_page [OF assms(1-11)] assms(15) by auto
qed

lemma demo_va_to_pa_unaligned:
  "\<exists>s'. ase_host_memory_va_to_pa demo_mmap demo_smaps demo_hm 0x7f0000201000 =
     Inr (0x00ffffc01000, Some (2 * MB), s')"
  by (simp add: demo_ats_eval demo_eval)

theorem va_pa_unaligned_first_access_witness:
  "\<exists>s' y. ase_host_memory_va_to_pa demo_mmap demo_smaps demo_hm 0x7f0000201000 =
      Inr (0x00ffffc01000, Some (2 * MB), s') \<and>
    map_sum id fst (ase_host_memory_pa_to_va s' 0x00ffffc00000 False) = Inr y \<and>
    y \<noteq> 0x7f0000200000"
proof -
  obtain s' where s': "ase_host_memory_va_to_pa demo_mmap demo_smaps demo_hm 0x7f0000201000 =
      Inr (0x00ffffc01000, Some (2 * MB), s')" using demo_va_to_pa_unaligned by blast
  have k: "nat (ase_pt_length_to_level (2 * MB)) = 1" "ase_pt_level_to_bit_idx 1 = 21"
    "ase_host_memory_gen_xor_mask 1 = 0x7fffffe00000" "2 * MB \<noteq> 0" "ase_pa_pt_root demo_hm \<noteq> 0"
    by (simp_all add: demo_ats_eval demo_eval)
  show ?thesis
    using s' va_pa_unaligned_first_access [OF demo_hm_ok(1) demo_mmap_fresh k(5) s' k(4)
        demo_hm_ok(3) demo_hm_empty refl, of "0x7f0000200000" 12] k by (auto simp: bit_numeral_rec)
qed

end
