(* ===== verification/Heap_List.thy ===== *)
theory Heap_List
  imports ASE_Prelude
begin

text \<open>
  Singly linked lists in an explicit heap, shared by the workspace tracker and the buffer
  list. A heap maps addresses to nodes, 0 is the null pointer, and \<open>nx\<close> selects the next
  pointer of a node.
\<close>

fun hpath :: "('n \<Rightarrow> nat) \<Rightarrow> (nat \<Rightarrow> 'n option) \<Rightarrow> nat \<Rightarrow> nat list \<Rightarrow> nat \<Rightarrow> bool" where
  "hpath nx h p [] q \<longleftrightarrow> p = q"
| "hpath nx h p (a # as) q \<longleftrightarrow> p = a \<and> a \<noteq> 0 \<and>
     (case h a of None \<Rightarrow> False | Some n \<Rightarrow> hpath nx h (nx n) as q)"

abbreviation hlist :: "('n \<Rightarrow> nat) \<Rightarrow> (nat \<Rightarrow> 'n option) \<Rightarrow> nat \<Rightarrow> nat list \<Rightarrow> bool" where
  "hlist nx h p ps \<equiv> hpath nx h p ps 0"

text \<open>The pointers of the list at \<open>p\<close>, at most \<open>n\<close> of them.\<close>

fun hwalk :: "('n \<Rightarrow> nat) \<Rightarrow> (nat \<Rightarrow> 'n option) \<Rightarrow> nat \<Rightarrow> nat \<Rightarrow> nat list" where
  "hwalk nx h 0 p = []"
| "hwalk nx h (Suc n) p = (if p = 0 then [] else
     case h p of None \<Rightarrow> [] | Some x \<Rightarrow> p # hwalk nx h n (nx x))"

lemma hpath_0 [simp]: "hpath nx h 0 ps q \<longleftrightarrow> ps = [] \<and> q = 0"
  by (cases ps) auto

lemma hpath_append:
  "hpath nx h p (as @ bs) q \<longleftrightarrow> (\<exists>r. hpath nx h p as r \<and> hpath nx h r bs q)"
  by (induction as arbitrary: p) (auto split: option.splits)

lemma hpath_frame:
  "(\<And>a. a \<in> set ps \<Longrightarrow> h' a = h a) \<Longrightarrow> hpath nx h' p ps q = hpath nx h p ps q"
  by (induction ps arbitrary: p) (auto split: option.splits)

lemma hpath_frameI: "hpath nx h p ps q \<Longrightarrow> \<forall>a \<in> set ps. h' a = h a \<Longrightarrow> hpath nx h' p ps q"
  using hpath_frame [of ps h' h] by blast

lemma hlist_unique: "hlist nx h p as \<Longrightarrow> hlist nx h p bs \<Longrightarrow> as = bs"
proof (induction as arbitrary: p bs)
  case (Cons a as)
  then show ?case by (cases bs) (auto split: option.splits)
qed auto

lemma hlist_dom: "hpath nx h p ps q \<Longrightarrow> a \<in> set ps \<Longrightarrow> h a \<noteq> None \<and> a \<noteq> 0"
  by (induction ps arbitrary: p) (auto split: option.splits)

text \<open>A list has no cycle: a node that occurred twice would be the start of two lists.\<close>

lemma hlist_distinct: "hlist nx h p ps \<Longrightarrow> distinct ps"
proof (induction ps arbitrary: p)
  case (Cons a as)
  then obtain n where n: "h a = Some n" "hlist nx h (nx n) as" "p = a" by (auto split: option.splits)
  have "a \<notin> set as"
  proof
    assume "a \<in> set as"
    then obtain bs cs where as: "as = bs @ a # cs" by (meson split_list)
    then have "hlist nx h a (a # cs)" using n(2) by (auto simp: hpath_append)
    moreover have "hlist nx h a (a # as)" using Cons.prems n(3) by simp
    ultimately have "cs = as" using hlist_unique by fastforce
    then have "length as = length bs + Suc (length as)" using as by (metis length_append length_Cons)
    then show False by simp
  qed
  then show ?case using Cons.IH [OF n(2)] by simp
qed simp

lemma hwalk_hlist: "hlist nx h p ps \<Longrightarrow> length ps \<le> n \<Longrightarrow> hwalk nx h n p = ps"
proof (induction n arbitrary: p ps)
  case (Suc n)
  then show ?case by (cases ps) (auto split: option.splits)
qed simp

lemma hlist_length:
  assumes "hlist nx h p ps" and "finite (dom h)"
  shows "length ps \<le> card (dom h)"
proof -
  have "set ps \<subseteq> dom h" using hlist_dom [OF assms(1)] by blast
  then show ?thesis
    using hlist_distinct [OF assms(1)] assms(2) by (metis card_mono distinct_card)
qed

text \<open>Updates of one node that keep its next pointer, and changes of the last next pointer.\<close>

lemma hpath_upd_node:
  assumes "h a = Some n" and "nx n' = nx n"
  shows "hpath nx (h(a \<mapsto> n')) p ps q = hpath nx h p ps q"
  using assms by (induction ps arbitrary: p) (auto split: option.splits)

lemma hlist_relink:
  assumes "hpath nx h p as a" and "h a = Some n" and "a \<notin> set as" and "a \<noteq> 0"
    and "hlist nx h r bs" and "a \<notin> set bs" and "nx n' = r"
  shows "hlist nx (h(a \<mapsto> n')) p (as @ a # bs)"
proof -
  have "hpath nx (h(a \<mapsto> n')) p as a" using assms(1,3) by (subst hpath_frame) auto
  moreover have "hlist nx (h(a \<mapsto> n')) r bs" using assms(5,6) by (subst hpath_frame) auto
  ultimately show ?thesis using assms(4,7) by (auto simp: hpath_append)
qed

end
