(* ===== verification/Wsid_List.thy ===== *)
theory Wsid_List
  imports Heap_List
begin

text \<open>
  The workspace tracker, \<open>src/ase/api/src/wsid_list.c\<close>: a hash table with chained buckets
  that remembers, for each workspace id, the address, IOVA and length of a buffer. Nodes live
  in an explicit heap. \<open>malloc\<close> gives a free address; the wrapper \<open>ase_malloc\<close> ends the
  process when there is none, so it always returns one. A loop over a bucket has the result
  \<open>None\<close> if it does not end, and \<open>Inl Segv\<close> if it follows a bad pointer.
\<close>

section \<open>Definitions\<close>

record ws_entry =
  ws_wsid :: u64
  ws_addr :: u64
  ws_phys :: u64
  ws_len :: u64
  ws_offset :: u64
  ws_index :: u32
  ws_flags :: u32

record wsid_map = ws_entry +
  ws_next :: nat

type_synonym ws_heap = "nat \<Rightarrow> wsid_map option"

record wsid_tracker =
  n_hash_buckets :: u64
  table :: "nat \<Rightarrow> nat"
  ws_heap :: ws_heap

definition wsid_tracker_init :: "u32 \<Rightarrow> wsid_tracker option" where
  "wsid_tracker_init n =
     (if n = 0 \<or> n > 16384 then None
      else Some \<lparr>n_hash_buckets = ucast n, table = (\<lambda>_. 0), ws_heap = (\<lambda>_. None)\<rparr>)"

definition wsid_hash :: "wsid_tracker \<Rightarrow> u64 \<Rightarrow> nat" where
  "wsid_hash root wsid = (let h = wsid mod 17659 in unat (ucast (h mod n_hash_buckets root) :: u32))"

definition wsid_add :: "(ws_heap \<Rightarrow> nat) \<Rightarrow> wsid_tracker \<Rightarrow> ws_entry \<Rightarrow> wsid_tracker" where
  "wsid_add malloc root e =
     (let idx = wsid_hash root (ws_wsid e); tmp = malloc (ws_heap root) in
      root\<lparr>ws_heap := (ws_heap root)(tmp \<mapsto>
             ws_entry.extend e \<lparr>ws_next = table root idx\<rparr>),
           table := (table root)(idx := tmp)\<rparr>)"

text \<open>The search loop of \<open>wsid_del\<close>: it stops at the node before the one with the id.\<close>

partial_function (option) wsid_del_loop :: "ws_heap \<Rightarrow> nat \<Rightarrow> u64 \<Rightarrow> nat res option" where
  "wsid_del_loop h tmp wsid =
     (case h tmp of
        None \<Rightarrow> Some (Inl Segv)
      | Some n \<Rightarrow>
          if ws_next n = 0 then Some (Inr tmp)
          else case h (ws_next n) of
              None \<Rightarrow> Some (Inl Segv)
            | Some n2 \<Rightarrow> if ws_wsid n2 = wsid then Some (Inr tmp)
                         else wsid_del_loop h (ws_next n) wsid)"

definition wsid_del :: "wsid_tracker \<Rightarrow> u64 \<Rightarrow> (bool \<times> wsid_tracker) res option" where
  "wsid_del root wsid =
     (let idx = wsid_hash root wsid; tmp = table root idx; h = ws_heap root in
      if tmp = 0 then Some (Inr (False, root))
      else case h tmp of
          None \<Rightarrow> Some (Inl Segv)
        | Some n \<Rightarrow>
            if ws_wsid n = wsid
            then Some (Inr (True, root\<lparr>table := (table root)(idx := ws_next n), ws_heap := h(tmp := None)\<rparr>))
            else map_option (\<lambda>r. rbind r (\<lambda>tmp. case h tmp of
                None \<Rightarrow> Inl Segv
              | Some n \<Rightarrow>
                  if ws_next n = 0 then Inr (False, root)
                  else case h (ws_next n) of
                      None \<Rightarrow> Inl Segv
                    | Some n2 \<Rightarrow> Inr (True, root\<lparr>ws_heap :=
                        (h(tmp \<mapsto> n\<lparr>ws_next := ws_next n2\<rparr>))(ws_next n := None)\<rparr>)))
              (wsid_del_loop h tmp wsid))"

partial_function (option) wsid_find_loop :: "ws_heap \<Rightarrow> nat \<Rightarrow> u64 \<Rightarrow> nat res option" where
  "wsid_find_loop h tmp wsid =
     (if tmp = 0 then Some (Inr 0)
      else case h tmp of
          None \<Rightarrow> Some (Inl Segv)
        | Some n \<Rightarrow> if ws_wsid n = wsid then Some (Inr tmp) else wsid_find_loop h (ws_next n) wsid)"

definition wsid_find :: "wsid_tracker \<Rightarrow> u64 \<Rightarrow> nat res option" where
  "wsid_find root wsid = wsid_find_loop (ws_heap root) (table root (wsid_hash root wsid)) wsid"

text \<open>
  \<open>wsid_tracker_cleanup\<close>: each node is read, handed to the callback and freed. The result
  is the heap and the entries that the callback saw, in order.
\<close>

partial_function (option) wsid_cleanup_loop ::
  "ws_heap \<Rightarrow> ws_entry list \<Rightarrow> nat \<Rightarrow> (ws_heap \<times> ws_entry list) res option" where
  "wsid_cleanup_loop h seen tmp =
     (if tmp = 0 then Some (Inr (h, seen))
      else case h tmp of
          None \<Rightarrow> Some (Inl Segv)
        | Some n \<Rightarrow> wsid_cleanup_loop (h(tmp := None)) (seen @ [ws_entry.truncate n]) (ws_next n))"

fun wsid_cleanup_buckets ::
  "wsid_tracker \<Rightarrow> nat list \<Rightarrow> ws_heap \<times> ws_entry list \<Rightarrow> (ws_heap \<times> ws_entry list) res option" where
  "wsid_cleanup_buckets root [] st = Some (Inr st)"
| "wsid_cleanup_buckets root (i # is) st =
     (case wsid_cleanup_loop (fst st) (snd st) (table root i) of
        None \<Rightarrow> None
      | Some (Inl f) \<Rightarrow> Some (Inl f)
      | Some (Inr st') \<Rightarrow> wsid_cleanup_buckets root is st')"

definition wsid_tracker_cleanup :: "wsid_tracker \<Rightarrow> (ws_heap \<times> ws_entry list) res option" where
  "wsid_tracker_cleanup root =
     wsid_cleanup_buckets root [0..<unat (n_hash_buckets root)] (ws_heap root, [])"

subsection \<open>Specification\<close>

text \<open>The pointers of a bucket, and the entries with an id, the newest first.\<close>

definition ws_ptrs :: "wsid_tracker \<Rightarrow> nat \<Rightarrow> nat list" where
  "ws_ptrs s i = hwalk ws_next (ws_heap s) (card (dom (ws_heap s))) (table s i)"

definition ws_get :: "ws_heap \<Rightarrow> nat \<Rightarrow> ws_entry" where
  "ws_get h p = ws_entry.truncate (the (h p))"

definition ws_stack :: "wsid_tracker \<Rightarrow> u64 \<Rightarrow> ws_entry list" where
  "ws_stack s k = filter (\<lambda>e. ws_wsid e = k) (map (ws_get (ws_heap s)) (ws_ptrs s (wsid_hash s k)))"

text \<open>
  A tracker in order: each bucket is a list of nodes whose ids belong to it, and all
  nodes of the heap are in a bucket.
\<close>

definition ws_ok :: "wsid_tracker \<Rightarrow> bool" where
  "ws_ok s \<longleftrightarrow> 0 < n_hash_buckets s \<and> n_hash_buckets s \<le> 16384 \<and> finite (dom (ws_heap s)) \<and>
     (\<forall>i < unat (n_hash_buckets s). hlist ws_next (ws_heap s) (table s i) (ws_ptrs s i) \<and>
        (\<forall>p \<in> set (ws_ptrs s i). wsid_hash s (ws_wsid (ws_get (ws_heap s) p)) = i)) \<and>
     dom (ws_heap s) = (\<Union>i < unat (n_hash_buckets s). set (ws_ptrs s i))"

definition malloc_fresh :: "((nat \<Rightarrow> 'n option) \<Rightarrow> nat) \<Rightarrow> bool" where
  "malloc_fresh malloc \<longleftrightarrow> (\<forall>h. finite (dom h) \<longrightarrow> malloc h \<noteq> 0 \<and> h (malloc h) = None)"

section \<open>The tracker as a map of stacks\<close>

lemma ws_truncate [simp]: "ws_wsid (ws_entry.truncate n) = ws_wsid n"
  by (simp add: ws_entry.truncate_def)

lemma ws_truncate_extend [simp]: "ws_entry.truncate (ws_entry.extend e x) = e"
  by (simp add: ws_entry.truncate_def ws_entry.extend_def)

lemma ws_truncate_next [simp]: "ws_entry.truncate (n\<lparr>ws_next := q\<rparr>) = ws_entry.truncate n"
  by (simp add: ws_entry.truncate_def)

lemma ws_next_extend [simp]: "ws_next (ws_entry.extend e \<lparr>ws_next = q\<rparr>) = q"
  by (simp add: ws_entry.extend_def)

lemma wsid_hash_simps [simp]:
  "wsid_hash (s\<lparr>ws_heap := h\<rparr>) k = wsid_hash s k" "wsid_hash (s\<lparr>table := t\<rparr>) k = wsid_hash s k"
  by (simp_all add: wsid_hash_def)

lemma wsid_hash_less:
  assumes "ws_ok s"
  shows "wsid_hash s k < unat (n_hash_buckets s)"
proof -
  have n: "0 < n_hash_buckets s" "n_hash_buckets s \<le> 16384" using assms by (simp_all add: ws_ok_def)
  define h where "h = k mod 17659 mod n_hash_buckets s"
  have "h < n_hash_buckets s" unfolding h_def using n(1) by (rule word_mod_less_divisor)
  then have h: "unat h < unat (n_hash_buckets s)" by (simp add: word_less_nat_alt)
  moreover have "unat (n_hash_buckets s) \<le> 16384" using n(2) by (simp add: word_le_nat_alt)
  ultimately have "unat (ucast h :: u32) = unat h" by (simp add: unsigned_ucast_eq take_bit_nat_eq_self)
  then show ?thesis using h by (simp add: wsid_hash_def h_def [symmetric])
qed

text \<open>The buckets of a state are the lists that its heap holds.\<close>

lemma ws_okI:
  assumes "0 < n_hash_buckets s" and "n_hash_buckets s \<le> 16384" and "finite (dom (ws_heap s))"
    and list: "\<And>i. i < unat (n_hash_buckets s) \<Longrightarrow> hlist ws_next (ws_heap s) (table s i) (B i)"
    and key: "\<And>i p. i < unat (n_hash_buckets s) \<Longrightarrow> p \<in> set (B i) \<Longrightarrow>
      wsid_hash s (ws_wsid (ws_get (ws_heap s) p)) = i"
    and dom: "dom (ws_heap s) = (\<Union>i < unat (n_hash_buckets s). set (B i))"
  shows "ws_ok s" and "i < unat (n_hash_buckets s) \<Longrightarrow> ws_ptrs s i = B i"
proof -
  have *: "ws_ptrs s i = B i" if "i < unat (n_hash_buckets s)" for i
    unfolding ws_ptrs_def by (rule hwalk_hlist [OF list [OF that] hlist_length [OF list [OF that] assms(3)]])
  then show "ws_ptrs s i = B i" if "i < unat (n_hash_buckets s)" using that by simp
  have "(\<Union>i < unat (n_hash_buckets s). set (ws_ptrs s i)) = (\<Union>i < unat (n_hash_buckets s). set (B i))"
    using * by (intro SUP_cong) auto
  then show "ws_ok s" using assms * unfolding ws_ok_def by simp
qed

lemma ws_okD:
  assumes "ws_ok s"
  shows "i < unat (n_hash_buckets s) \<Longrightarrow> hlist ws_next (ws_heap s) (table s i) (ws_ptrs s i)"
    and "i < unat (n_hash_buckets s) \<Longrightarrow> p \<in> set (ws_ptrs s i) \<Longrightarrow>
      wsid_hash s (ws_wsid (ws_get (ws_heap s) p)) = i"
    and "dom (ws_heap s) = (\<Union>i < unat (n_hash_buckets s). set (ws_ptrs s i))"
    and "finite (dom (ws_heap s))" and "0 < n_hash_buckets s" and "n_hash_buckets s \<le> 16384"
  using assms by (auto simp: ws_ok_def)

text \<open>The list of another bucket does not contain a node of this one.\<close>

lemma ws_ptrs_disjoint:
  assumes "ws_ok s" and "i < unat (n_hash_buckets s)" and "j < unat (n_hash_buckets s)" and "i \<noteq> j"
    and "p \<in> set (ws_ptrs s i)"
  shows "p \<notin> set (ws_ptrs s j)"
  using ws_okD(2) [OF assms(1,2,5)] ws_okD(2) [OF assms(1,3), of p] assms(4) by auto

subsection \<open>Search\<close>

lemma wsid_find_loop_hlist:
  assumes "hlist ws_next h p ps"
  shows "\<exists>q. wsid_find_loop h p k = Some (Inr q) \<and>
    (case filter (\<lambda>e. ws_wsid e = k) (map (ws_get h) ps) of
       [] \<Rightarrow> q = 0 | e # _ \<Rightarrow> q \<noteq> 0 \<and> h q \<noteq> None \<and> ws_get h q = e)"
  using assms
proof (induction ps arbitrary: p)
  case Nil
  then show ?case by (simp add: wsid_find_loop.simps)
next
  case (Cons a ps)
  then obtain n where n: "h a = Some n" "p = a" "a \<noteq> 0" "hlist ws_next h (ws_next n) ps"
    by (auto split: option.splits)
  then have w: "ws_wsid (ws_get h a) = ws_wsid n" by (simp add: ws_get_def)
  show ?case
    using n w Cons.IH [OF n(4)] by (subst wsid_find_loop.simps) auto
qed

lemma wsid_find_stack:
  assumes "ws_ok s"
  shows "\<exists>q. wsid_find s k = Some (Inr q) \<and> (case ws_stack s k of
    [] \<Rightarrow> q = 0 | e # _ \<Rightarrow> q \<noteq> 0 \<and> ws_heap s q \<noteq> None \<and> ws_get (ws_heap s) q = e)"
  using wsid_find_loop_hlist [OF ws_okD(1) [OF assms wsid_hash_less [OF assms]]]
  by (simp add: wsid_find_def ws_stack_def)

subsection \<open>Insertion\<close>

lemma wsid_add_ok:
  assumes ok: "ws_ok s" and m: "malloc_fresh malloc"
    and s'_def: "s' = wsid_add malloc s e"
  shows "ws_ok s'" and "ws_stack s' k = (if k = ws_wsid e then e # ws_stack s k else ws_stack s k)"
    and "n_hash_buckets s' = n_hash_buckets s"
proof -
  note D = ws_okD [OF ok]
  define idx where "idx = wsid_hash s (ws_wsid e)"
  define a where "a = malloc (ws_heap s)"
  define n where "n = ws_entry.extend e \<lparr>ws_next = table s idx\<rparr>"
  have idx: "idx < unat (n_hash_buckets s)" unfolding idx_def by (rule wsid_hash_less [OF ok])
  have a: "a \<noteq> 0" "ws_heap s a = None" using m D(4) by (auto simp: malloc_fresh_def a_def)
  have s': "n_hash_buckets s' = n_hash_buckets s" "ws_heap s' = (ws_heap s)(a \<mapsto> n)"
    "table s' = (table s)(idx := a)"
    by (simp_all add: s'_def wsid_add_def Let_def idx_def a_def n_def)
  then show "n_hash_buckets s' = n_hash_buckets s" by simp
  have hash: "wsid_hash s' x = wsid_hash s x" for x by (simp add: wsid_hash_def s'(1))
  define B where "B = (\<lambda>i. if i = idx then a # ws_ptrs s idx else ws_ptrs s i)"
  have notin: "a \<notin> set (ws_ptrs s i)" if "i < unat (n_hash_buckets s)" for i
    using hlist_dom [OF D(1) [OF that]] a(2) by blast
  have get: "ws_get (ws_heap s') p = ws_get (ws_heap s) p" if "p \<in> set (ws_ptrs s i)"
    "i < unat (n_hash_buckets s)" for p i
    using notin [OF that(2)] that(1) by (auto simp: ws_get_def s'(2))
  have geta: "ws_get (ws_heap s') a = e" by (simp add: ws_get_def s'(2) n_def)
  have list: "hlist ws_next (ws_heap s') (table s' i) (B i)" if "i < unat (n_hash_buckets s')" for i
  proof -
    have "hlist ws_next (ws_heap s') (table s i) (ws_ptrs s i)"
      using D(1) [of i] notin [of i] that s' by (subst hpath_frame) auto
    then show ?thesis using a(1) s' by (auto simp: B_def n_def)
  qed
  have key: "wsid_hash s' (ws_wsid (ws_get (ws_heap s') p)) = i"
    if "i < unat (n_hash_buckets s')" "p \<in> set (B i)" for i p
    using that D(2) get geta hash s'(1) by (auto simp: B_def idx_def split: if_splits)
  have dom: "dom (ws_heap s') = (\<Union>i < unat (n_hash_buckets s'). set (B i))"
    using D(3) idx by (auto simp: s' B_def split: if_splits)
  note ok' = ws_okI [of s' B, OF _ _ _ list key dom]
  show ok': "ws_ok s'" using ok' D s' by simp
  have "ws_ptrs s' i = B i" if "i < unat (n_hash_buckets s)" for i
    using ws_okI(2) [of s' B, OF _ _ _ list key dom] D s' that by simp
  then show "ws_stack s' k = (if k = ws_wsid e then e # ws_stack s k else ws_stack s k)"
    using wsid_hash_less [OF ok, of k] get geta
    by (auto simp: ws_stack_def hash B_def idx_def intro!: filter_cong [OF map_cong refl])
qed

subsection \<open>Deletion\<close>

text \<open>Taking one node out of a bucket.\<close>

lemma ws_remove:
  assumes ok: "ws_ok s" and i: "i < unat (n_hash_buckets s)" and ps: "ws_ptrs s i = as @ p # bs"
    and n: "n_hash_buckets s' = n_hash_buckets s"
    and dom: "dom (ws_heap s') = dom (ws_heap s) - {p}"
    and get: "\<And>q. q \<noteq> p \<Longrightarrow> ws_get (ws_heap s') q = ws_get (ws_heap s) q"
    and list: "hlist ws_next (ws_heap s') (table s' i) (as @ bs)"
    and other: "\<And>j q. j \<noteq> i \<Longrightarrow> j < unat (n_hash_buckets s) \<Longrightarrow> table s' j = table s j"
      "\<And>j q. j \<noteq> i \<Longrightarrow> j < unat (n_hash_buckets s) \<Longrightarrow> q \<in> set (ws_ptrs s j) \<Longrightarrow>
         ws_heap s' q = ws_heap s q"
    and k: "ws_wsid (ws_get (ws_heap s) p) = k" "\<forall>q \<in> set as. ws_wsid (ws_get (ws_heap s) q) \<noteq> k"
  shows "ws_ok s'" and "ws_stack s k \<noteq> []"
    and "ws_stack s' j = (if j = k then tl (ws_stack s k) else ws_stack s j)"
proof -
  note D = ws_okD [OF ok]
  define B where "B = (\<lambda>j. if j = i then as @ bs else ws_ptrs s j)"
  have hash: "wsid_hash s' x = wsid_hash s x" for x by (simp add: wsid_hash_def n)
  have dist: "distinct (as @ p # bs)" using hlist_distinct [OF D(1) [OF i]] ps by simp
  have notin: "p \<notin> set (ws_ptrs s j)" if "j \<noteq> i" "j < unat (n_hash_buckets s)" for j
    using ws_ptrs_disjoint [OF ok i that(2), of p] that(1) ps by simp
  have nB: "p \<notin> set (B j)" if "j < unat (n_hash_buckets s)" for j
    using notin [of j] dist that by (auto simp: B_def)
  have l: "hlist ws_next (ws_heap s') (table s' j) (B j)" if "j < unat (n_hash_buckets s')" for j
  proof (cases "j = i")
    case False
    then show ?thesis
      using D(1) [of j] other [of j] that n hpath_frame [of "ws_ptrs s j" "ws_heap s'" "ws_heap s"]
      by (simp add: B_def)
  qed (simp add: B_def list)
  have key: "wsid_hash s' (ws_wsid (ws_get (ws_heap s') q)) = j"
    if "j < unat (n_hash_buckets s')" "q \<in> set (B j)" for j q
  proof -
    have "q \<noteq> p" "q \<in> set (ws_ptrs s j)"
      using that nB [of j] n ps by (auto simp: B_def split: if_splits)
    then show ?thesis using that(1) get [of q] D(2) [of j q] hash n by simp
  qed
  have d: "dom (ws_heap s') = (\<Union>j < unat (n_hash_buckets s'). set (B j))"
  proof -
    have "set (B j) = set (ws_ptrs s j) - {p}" if "j < unat (n_hash_buckets s)" for j
      using that notin [of j] dist ps by (cases "j = i") (auto simp: B_def)
    then have "(\<Union>j < unat (n_hash_buckets s). set (B j)) =
        (\<Union>j < unat (n_hash_buckets s). set (ws_ptrs s j) - {p})" by (intro SUP_cong) auto
    then show ?thesis using dom D(3) n by auto
  qed
  have fin: "finite (dom (ws_heap s'))" using dom D(4) by simp
  show "ws_ok s'" using ws_okI(1) [of s' B, OF _ _ fin l key d] D n by simp
  have ptrs: "ws_ptrs s' j = B j" if "j < unat (n_hash_buckets s)" for j
    using ws_okI(2) [of s' B, OF _ _ fin l key d] D n that by simp
  have ik: "wsid_hash s k = i" using D(2) [OF i, of p] ps k(1) by simp
  have st: "ws_stack s k = ws_get (ws_heap s) p # filter (\<lambda>e. ws_wsid e = k) (map (ws_get (ws_heap s)) bs)"
    using k by (simp add: ws_stack_def ik ps filter_empty_conv)
  then show "ws_stack s k \<noteq> []" by simp
  have m: "map (ws_get (ws_heap s')) (B j) = map (ws_get (ws_heap s)) (B j)"
    if "j < unat (n_hash_buckets s)" for j using nB [OF that] by (auto intro!: map_cong get)
  have st': "ws_stack s' x = filter (\<lambda>e. ws_wsid e = x) (map (ws_get (ws_heap s)) (B (wsid_hash s x)))" for x
    by (simp only: ws_stack_def hash ptrs [OF wsid_hash_less [OF ok, of x]] m [OF wsid_hash_less [OF ok, of x]])
  show "ws_stack s' j = (if j = k then tl (ws_stack s k) else ws_stack s j)"
  proof (cases "j = k")
    case True
    then show ?thesis using k(2) unfolding st' st by (simp add: ik B_def filter_empty_conv)
  next
    case False
    then show ?thesis using k(1) ps unfolding st' by (simp add: ws_stack_def B_def)
  qed
qed

lemma wsid_del_loop_hlist:
  assumes "hlist ws_next h a (a # ps)" and "ws_wsid (ws_get h a) \<noteq> k"
  shows "\<exists>t n. wsid_del_loop h a k = Some (Inr t) \<and> h t = Some n \<and>
    ((\<forall>q \<in> set (a # ps). ws_wsid (ws_get h q) \<noteq> k) \<and> ws_next n = 0 \<or>
     (\<exists>xs ys. a # ps = xs @ t # ws_next n # ys \<and> ws_next n \<noteq> 0 \<and> ws_wsid (ws_get h (ws_next n)) = k \<and>
        (\<forall>q \<in> set (xs @ [t]). ws_wsid (ws_get h q) \<noteq> k)))"
  using assms
proof (induction ps arbitrary: a)
  case Nil
  then obtain n where "h a = Some n" "ws_next n = 0" by (auto split: option.splits)
  then show ?case using Nil(2) by (subst wsid_del_loop.simps) simp
next
  case (Cons b ps)
  then obtain n nb where n: "h a = Some n" "ws_next n = b" "h b = Some nb" "b \<noteq> 0"
    "hlist ws_next h b (b # ps)" by (auto split: option.splits)
  have w: "ws_wsid (ws_get h b) = ws_wsid nb" using n(3) by (simp add: ws_get_def)
  show ?case
  proof (cases "ws_wsid nb = k")
    case True
    then have "wsid_del_loop h a k = Some (Inr a)" using n by (subst wsid_del_loop.simps) simp
    then show ?thesis
      using n True w Cons.prems(2) by (intro exI [of _ a] exI [of _ n]) (auto intro: exI [of _ "[]"])
  next
    case False
    then have e: "wsid_del_loop h a k = wsid_del_loop h b k"
      using n by (subst wsid_del_loop.simps) simp
    obtain t m where t: "wsid_del_loop h b k = Some (Inr t)" "h t = Some m"
      and c: "(\<forall>q \<in> set (b # ps). ws_wsid (ws_get h q) \<noteq> k) \<and> ws_next m = 0 \<or>
       (\<exists>xs ys. b # ps = xs @ t # ws_next m # ys \<and> ws_next m \<noteq> 0 \<and> ws_wsid (ws_get h (ws_next m)) = k \<and>
        (\<forall>q \<in> set (xs @ [t]). ws_wsid (ws_get h q) \<noteq> k))"
      using Cons.IH [OF n(5)] False w by auto
    from c show ?thesis
    proof
      assume "(\<forall>q \<in> set (b # ps). ws_wsid (ws_get h q) \<noteq> k) \<and> ws_next m = 0"
      then show ?thesis using e t Cons.prems(2) by auto
    next
      assume "\<exists>xs ys. b # ps = xs @ t # ws_next m # ys \<and> ws_next m \<noteq> 0 \<and> ws_wsid (ws_get h (ws_next m)) = k \<and>
        (\<forall>q \<in> set (xs @ [t]). ws_wsid (ws_get h q) \<noteq> k)"
      then obtain xs ys where "b # ps = xs @ t # ws_next m # ys" "ws_next m \<noteq> 0"
        "ws_wsid (ws_get h (ws_next m)) = k" "\<forall>q \<in> set (xs @ [t]). ws_wsid (ws_get h q) \<noteq> k" by blast
      then have "a # b # ps = (a # xs) @ t # ws_next m # ys \<and> ws_next m \<noteq> 0 \<and>
          ws_wsid (ws_get h (ws_next m)) = k \<and> (\<forall>q \<in> set ((a # xs) @ [t]). ws_wsid (ws_get h q) \<noteq> k)"
        using Cons.prems(2) by simp
      then show ?thesis using e t by metis
    qed
  qed
qed

lemma wsid_del_first:
  assumes ok: "ws_ok s" and ps: "ws_ptrs s (wsid_hash s k) = a # bs"
    and k: "ws_wsid (ws_get (ws_heap s) a) = k"
  shows "\<exists>s'. wsid_del s k = Some (Inr (True, s')) \<and> ws_ok s' \<and> ws_stack s k \<noteq> [] \<and>
    (\<forall>j. ws_stack s' j = (if j = k then tl (ws_stack s k) else ws_stack s j))"
proof -
  let ?i = "wsid_hash s k"
  have i: "?i < unat (n_hash_buckets s)" by (rule wsid_hash_less [OF ok])
  note l = ws_okD(1) [OF ok i]
  obtain n where n: "table s ?i = a" "a \<noteq> 0" "ws_heap s a = Some n" "hlist ws_next (ws_heap s) (ws_next n) bs"
    using l ps by (auto split: option.splits)
  have a: "a \<notin> set bs" using hlist_distinct [OF l] ps by simp
  define s' where "s' = s\<lparr>table := (table s)(?i := ws_next n), ws_heap := (ws_heap s)(a := None)\<rparr>"
  have del: "wsid_del s k = Some (Inr (True, s'))"
    using n k by (simp add: wsid_del_def Let_def s'_def ws_get_def)
  have l': "hlist ws_next (ws_heap s') (table s' ?i) ([] @ bs)"
    using hpath_frameI [OF n(4), of "ws_heap s'"] a by (auto simp: s'_def)
  have o: "q \<in> set (ws_ptrs s j) \<Longrightarrow> ws_heap s' q = ws_heap s q"
    if "j \<noteq> ?i" "j < unat (n_hash_buckets s)" for j q
    using ws_ptrs_disjoint [OF ok i that(2) that(1) [symmetric], of a] ps by (auto simp: s'_def)
  note r = ws_remove [OF ok i, of "[]" a bs s' k]
  show ?thesis
    using del r ps l' o k by (auto simp: s'_def ws_get_def)
qed

lemma wsid_del_later:
  assumes ok: "ws_ok s" and ps: "ws_ptrs s (wsid_hash s k) = xs @ t # q # ys"
    and k: "ws_wsid (ws_get (ws_heap s) q) = k" "\<forall>p \<in> set (xs @ [t]). ws_wsid (ws_get (ws_heap s) p) \<noteq> k"
    and t: "ws_heap s t = Some m" "ws_heap s q = Some m2"
  defines "s' \<equiv> s\<lparr>ws_heap := ((ws_heap s)(t \<mapsto> m\<lparr>ws_next := ws_next m2\<rparr>))(q := None)\<rparr>"
  shows "ws_ok s' \<and> ws_stack s k \<noteq> [] \<and>
    (\<forall>j. ws_stack s' j = (if j = k then tl (ws_stack s k) else ws_stack s j))"
proof -
  let ?i = "wsid_hash s k"
  have i: "?i < unat (n_hash_buckets s)" by (rule wsid_hash_less [OF ok])
  note l = ws_okD(1) [OF ok i]
  have d: "distinct (xs @ t # q # ys)" using hlist_distinct [OF l] ps by simp
  have p: "hpath ws_next (ws_heap s) (table s ?i) xs t" "t \<noteq> 0" "hlist ws_next (ws_heap s) (ws_next m2) ys"
    using l t unfolding ps hpath_append by auto
  have r: "hlist ws_next ((ws_heap s)(t \<mapsto> m\<lparr>ws_next := ws_next m2\<rparr>)) (table s ?i) (xs @ t # ys)"
    using hlist_relink [OF p(1) t(1) _ p(2,3)] d by simp
  have l': "hlist ws_next (ws_heap s') (table s' ?i) ((xs @ [t]) @ ys)"
    using hpath_frameI [OF r, of "ws_heap s'"] d by (auto simp: s'_def)
  have o: "p \<in> set (ws_ptrs s j) \<Longrightarrow> ws_heap s' p = ws_heap s p"
    if "j \<noteq> ?i" "j < unat (n_hash_buckets s)" for j p
    using ws_ptrs_disjoint [OF ok i that(2) that(1) [symmetric], of t]
      ws_ptrs_disjoint [OF ok i that(2) that(1) [symmetric], of q] ps by (auto simp: s'_def)
  have g: "ws_get (ws_heap s') p = ws_get (ws_heap s) p" if "p \<noteq> q" for p
    using that t by (simp add: s'_def ws_get_def)
  have dm: "dom (ws_heap s') = dom (ws_heap s) - {q}" using d t by (auto simp: s'_def)
  note r = ws_remove [OF ok i, of "xs @ [t]" q ys s' k]
  show ?thesis using r ps l' o k g dm by (auto simp: s'_def)
qed

lemma wsid_del_stack:
  assumes ok: "ws_ok s"
  shows "\<exists>s'. wsid_del s k = Some (Inr (ws_stack s k \<noteq> [], s')) \<and> ws_ok s' \<and>
    (\<forall>j. ws_stack s' j = (if j = k then tl (ws_stack s k) else ws_stack s j))"
proof -
  let ?i = "wsid_hash s k"
  note l = ws_okD(1) [OF ok wsid_hash_less [OF ok, of k]]
  show ?thesis
  proof (cases "ws_ptrs s ?i")
    case Nil
    then show ?thesis using l ok by (simp add: wsid_del_def Let_def ws_stack_def)
  next
    case (Cons a ps)
    then obtain n where n: "table s ?i = a" "a \<noteq> 0" "ws_heap s a = Some n"
      using l by (auto split: option.splits)
    show ?thesis
    proof (cases "ws_wsid (ws_get (ws_heap s) a) = k")
      case True
      then show ?thesis using wsid_del_first [OF ok Cons True] by auto
    next
      case False
      have la: "hlist ws_next (ws_heap s) a (a # ps)" using l Cons n(1) by simp
      obtain t m where t: "wsid_del_loop (ws_heap s) a k = Some (Inr t)" "ws_heap s t = Some m"
        and c: "(\<forall>q \<in> set (a # ps). ws_wsid (ws_get (ws_heap s) q) \<noteq> k) \<and> ws_next m = 0 \<or>
         (\<exists>xs ys. a # ps = xs @ t # ws_next m # ys \<and> ws_next m \<noteq> 0 \<and>
            ws_wsid (ws_get (ws_heap s) (ws_next m)) = k \<and>
            (\<forall>q \<in> set (xs @ [t]). ws_wsid (ws_get (ws_heap s) q) \<noteq> k))"
        using wsid_del_loop_hlist [OF la False] by blast
      have w: "ws_wsid n \<noteq> k" using False n(3) by (simp add: ws_get_def)
      from c show ?thesis
      proof
        assume *: "(\<forall>q \<in> set (a # ps). ws_wsid (ws_get (ws_heap s) q) \<noteq> k) \<and> ws_next m = 0"
        then have "ws_stack s k = []" using Cons by (auto simp: ws_stack_def filter_empty_conv)
        then show ?thesis using * n w t ok by (simp add: wsid_del_def Let_def)
      next
        assume "\<exists>xs ys. a # ps = xs @ t # ws_next m # ys \<and> ws_next m \<noteq> 0 \<and>
            ws_wsid (ws_get (ws_heap s) (ws_next m)) = k \<and>
            (\<forall>q \<in> set (xs @ [t]). ws_wsid (ws_get (ws_heap s) q) \<noteq> k)"
        then obtain xs ys where x: "a # ps = xs @ t # ws_next m # ys" "ws_next m \<noteq> 0"
            "ws_wsid (ws_get (ws_heap s) (ws_next m)) = k"
            "\<forall>q \<in> set (xs @ [t]). ws_wsid (ws_get (ws_heap s) q) \<noteq> k" by blast
        then have "ws_next m \<in> set (a # ps)" by simp
        then obtain m2 where m2: "ws_heap s (ws_next m) = Some m2" using hlist_dom [OF la] by blast
        note r = wsid_del_later [OF ok Cons [unfolded x(1)] x(3,4) t(2) m2]
        then show ?thesis using n w t x(2) m2 by (simp add: wsid_del_def Let_def)
      qed
    qed
  qed
qed

subsection \<open>Start and end\<close>

lemma wsid_tracker_init_ok:
  assumes "wsid_tracker_init n = Some s"
  shows "ws_ok s" and "ws_stack s k = []"
proof -
  have n: "n \<noteq> 0" "n \<le> 16384" and s: "s = \<lparr>n_hash_buckets = ucast n, table = (\<lambda>_. 0), ws_heap = (\<lambda>_. None)\<rparr>"
    using assms by (auto simp: wsid_tracker_init_def split: if_splits)
  have u: "unat (ucast n :: u64) = unat n"
    using unat_bound [of n] by (simp add: unsigned_ucast_eq take_bit_nat_eq_self)
  have "0 < unat n" "unat n \<le> 16384" using n unat_eq_zero [of n] by (auto simp: word_le_nat_alt)
  then have b: "0 < n_hash_buckets s" "n_hash_buckets s \<le> 16384"
    using u s by (simp_all add: word_less_nat_alt word_le_nat_alt)
  note o = ws_okI [of s "\<lambda>_. []", OF b]
  show ok: "ws_ok s" using o by (simp add: s)
  show "ws_stack s k = []"
    using o(2) [of "wsid_hash s k"] wsid_hash_less [OF ok, of k] by (simp add: ws_stack_def s)
qed

lemma wsid_cleanup_loop_hlist:
  assumes "hlist ws_next h p ps"
  shows "wsid_cleanup_loop h seen p = Some (Inr (\<lambda>a. if a \<in> set ps then None else h a,
    seen @ map (ws_get h) ps))"
  using assms
proof (induction ps arbitrary: h p seen)
  case Nil
  then show ?case by (subst wsid_cleanup_loop.simps) simp
next
  case (Cons a ps)
  then obtain n where n: "h a = Some n" "p = a" "a \<noteq> 0" "hlist ws_next h (ws_next n) ps"
    by (auto split: option.splits)
  have a: "a \<notin> set ps" using hlist_distinct [OF Cons.prems] by simp
  have "hlist ws_next (h(a := None)) (ws_next n) ps" using hpath_frameI [OF n(4), of "h(a := None)"] a by auto
  note IH = Cons.IH [OF this, of "seen @ [ws_get h a]"]
  have "map (ws_get (h(a := None))) ps = map (ws_get h) ps" using a by (auto simp: ws_get_def)
  then have "wsid_cleanup_loop (h(a := None)) (seen @ [ws_get h a]) (ws_next n) =
      Some (Inr (\<lambda>b. if b \<in> set (a # ps) then None else h b, seen @ map (ws_get h) (a # ps)))"
    unfolding IH by (auto simp: fun_eq_iff)
  then show ?case using n by (subst wsid_cleanup_loop.simps) (simp add: ws_get_def)
qed

lemma wsid_cleanup_buckets_ok:
  assumes ok: "ws_ok s" and "distinct is" and "set is \<subseteq> {..<unat (n_hash_buckets s)}"
    and h: "\<And>i p. i \<in> set is \<Longrightarrow> p \<in> set (ws_ptrs s i) \<Longrightarrow> h p = ws_heap s p"
  shows "wsid_cleanup_buckets s is (h, seen) = Some (Inr
    (\<lambda>a. if \<exists>i \<in> set is. a \<in> set (ws_ptrs s i) then None else h a,
     seen @ concat (map (\<lambda>i. map (ws_get (ws_heap s)) (ws_ptrs s i)) is)))"
  using assms(2-)
proof (induction "is" arbitrary: h seen)
  case (Cons i "is")
  have i: "i < unat (n_hash_buckets s)" using Cons.prems by simp
  have l: "hlist ws_next h (table s i) (ws_ptrs s i)"
    using hpath_frameI [OF ws_okD(1) [OF ok i], of h] Cons.prems(3) [of i] by auto
  have m: "map (ws_get h) (ws_ptrs s i) = map (ws_get (ws_heap s)) (ws_ptrs s i)"
    using Cons.prems(3) [of i] by (auto simp: ws_get_def)
  define h1 where "h1 = (\<lambda>a. if a \<in> set (ws_ptrs s i) then None else h a)"
  have h1: "h1 p = ws_heap s p" if "j \<in> set is" "p \<in> set (ws_ptrs s j)" for j p
  proof -
    have "j \<noteq> i" "j < unat (n_hash_buckets s)" using Cons.prems that(1) by auto
    then have "p \<notin> set (ws_ptrs s i)" using ws_ptrs_disjoint [OF ok _ i _ that(2)] by blast
    then show ?thesis using Cons.prems(3) [of j p] that by (simp add: h1_def)
  qed
  have IH: "wsid_cleanup_buckets s is (h1, seen @ map (ws_get (ws_heap s)) (ws_ptrs s i)) = Some (Inr
    (\<lambda>a. if \<exists>i \<in> set is. a \<in> set (ws_ptrs s i) then None else h1 a,
     (seen @ map (ws_get (ws_heap s)) (ws_ptrs s i)) @
       concat (map (\<lambda>i. map (ws_get (ws_heap s)) (ws_ptrs s i)) is)))"
    using Cons.IH [of h1] Cons.prems(1,2) h1 by auto
  show ?case
    using IH unfolding wsid_cleanup_buckets.simps fst_conv snd_conv wsid_cleanup_loop_hlist [OF l] m
    by (auto simp: h1_def fun_eq_iff)
qed simp


section \<open>The contract of a keyed store\<close>

text \<open>
  A store that keeps several entries for one key, the newest first. The buffer calls of the
  API and the MMIO mappings use the tracker through this contract only: an operation returns,
  keeps the store in order and changes the entries of its own key.
\<close>

datatype ('k, 'e) store_op = Add 'e | Del 'k

fun spec_op :: "('e \<Rightarrow> 'k) \<Rightarrow> ('k, 'e) store_op \<Rightarrow> ('k \<Rightarrow> 'e list) \<Rightarrow> 'k \<Rightarrow> 'e list" where
  "spec_op key (Add e) m = m(key e := e # m (key e))"
| "spec_op key (Del k) m = m(k := tl (m k))"

fun store_run :: "('s \<Rightarrow> 'e \<Rightarrow> 's) \<Rightarrow> ('s \<Rightarrow> 'k \<Rightarrow> (bool \<times> 's) option) \<Rightarrow>
    ('k, 'e) store_op list \<Rightarrow> 's \<Rightarrow> 's option" where
  "store_run add del [] s = Some s"
| "store_run add del (Add e # ops) s = store_run add del ops (add s e)"
| "store_run add del (Del k # ops) s = (case del s k of
      None \<Rightarrow> None
    | Some (_, s') \<Rightarrow> store_run add del ops s')"

locale keyed_store =
  fixes ok :: "'s \<Rightarrow> bool" and stack :: "'s \<Rightarrow> 'k \<Rightarrow> 'e list" and key :: "'e \<Rightarrow> 'k"
    and add :: "'s \<Rightarrow> 'e \<Rightarrow> 's" and del :: "'s \<Rightarrow> 'k \<Rightarrow> (bool \<times> 's) option"
    and find :: "'s \<Rightarrow> 'k \<Rightarrow> 'e option option"
  assumes add_ok: "ok s \<Longrightarrow> ok (add s e)"
    and add_stack: "ok s \<Longrightarrow> stack (add s e) = (stack s)(key e := e # stack s (key e))"
    and del_ok: "ok s \<Longrightarrow> \<exists>s'. del s k = Some (stack s k \<noteq> [], s') \<and> ok s' \<and>
      stack s' = (stack s)(k := tl (stack s k))"
    and find_head: "ok s \<Longrightarrow> find s k = Some (case stack s k of [] \<Rightarrow> None | e # _ \<Rightarrow> Some e)"
begin

lemma find_add: "ok s \<Longrightarrow> find (add s e) (key e) = Some (Some e)"
  by (simp add: find_head add_ok add_stack)

lemma find_add_other: "ok s \<Longrightarrow> k \<noteq> key e \<Longrightarrow> find (add s e) k = find s k"
  by (simp add: find_head add_ok add_stack)

lemma del_add:
  assumes "ok s"
  shows "\<exists>s'. del (add s e) (key e) = Some (True, s') \<and> ok s' \<and> stack s' = stack s"
  using del_ok [OF add_ok [OF assms], of e "key e"] by (simp add: add_stack [OF assms])

lemma run_refines:
  assumes "ok s"
  shows "\<exists>s'. store_run add del ops s = Some s' \<and> ok s' \<and> stack s' = fold (spec_op key) ops (stack s)"
  using assms
proof (induction ops arbitrary: s)
  case (Cons x ops)
  show ?case
  proof (cases x)
    case (Add e)
    then show ?thesis using Cons.IH [OF add_ok [OF Cons.prems, of e]] 
      by (simp only: add_stack [OF Cons.prems] store_run.simps fold_simps spec_op.simps)
  next
    case (Del k)
    then show ?thesis using Cons.IH del_ok [OF Cons.prems, of k] by (metis (no_types, lifting)
      fold_simps(2) old.prod.case option.simps(5) spec_op.simps(2) store_run.simps(3))
  qed
qed simp

end

text \<open>The calls of the tracker as the client sees them: an entry, not a pointer.\<close>

definition wsid_lookup :: "wsid_tracker \<Rightarrow> u64 \<Rightarrow> ws_entry option option" where
  "wsid_lookup s k = (case wsid_find s k of
      Some (Inr q) \<Rightarrow> Some (if q = 0 then None else Some (ws_get (ws_heap s) q))
    | _ \<Rightarrow> None)"

definition wsid_remove :: "wsid_tracker \<Rightarrow> u64 \<Rightarrow> (bool \<times> wsid_tracker) option" where
  "wsid_remove s k = (case wsid_del s k of Some (Inr r) \<Rightarrow> Some r | _ \<Rightarrow> None)"

locale c_malloc =
  fixes malloc :: "ws_heap \<Rightarrow> nat"
  assumes fresh: "malloc_fresh malloc"

sublocale c_malloc \<subseteq> tracker: keyed_store ws_ok ws_stack ws_wsid "wsid_add malloc" wsid_remove wsid_lookup
proof (unfold_locales, goal_cases)
  case (1 s e)
  show ?case by (rule wsid_add_ok(1) [OF 1 fresh refl])
next
  case (2 s e)
  show ?case using wsid_add_ok(2) [OF 2 fresh refl, of e] by (auto simp: fun_eq_iff)
next
  case (3 s k)
  obtain s' where "wsid_del s k = Some (Inr (ws_stack s k \<noteq> [], s'))" "ws_ok s'"
    "\<And>j. ws_stack s' j = (if j = k then tl (ws_stack s k) else ws_stack s j)"
    using wsid_del_stack [OF 3, of k] by blast
  then show ?case by (auto simp: wsid_remove_def fun_eq_iff)
next
  case (4 s k)
  show ?case using wsid_find_stack [OF 4, of k] by (auto simp: wsid_lookup_def split: list.splits)
qed

context c_malloc
begin

text \<open>What the users of the tracker rest on.\<close>

lemma wsid_run:
  assumes "ws_ok s"
  shows "\<exists>s'. store_run (wsid_add malloc) wsid_remove ops s = Some s' \<and> ws_ok s' \<and>
    (\<forall>k. wsid_lookup s' k =
      Some (case fold (spec_op ws_wsid) ops (ws_stack s) k of [] \<Rightarrow> None | e # _ \<Rightarrow> Some e))"
  using tracker.run_refines [OF assms, of ops] tracker.find_head by metis

end

text \<open>An allocator that gives the lowest free address.\<close>

definition lowest_free :: "(nat \<Rightarrow> 'n option) \<Rightarrow> nat" where
  "lowest_free h = hd (filter (\<lambda>a. h a = None) [1..<card (dom h) + 2])"

lemma lowest_free_fresh: "malloc_fresh lowest_free"
  unfolding malloc_fresh_def
proof (intro allI impI)
  fix h :: "nat \<Rightarrow> 'n option"
  assume fin: "finite (dom h)"
  define xs where "xs = filter (\<lambda>a. h a = None) [1..<card (dom h) + 2]"
  have "xs \<noteq> []"
  proof
    assume "xs = []"
    then have "\<forall>a \<in> set [1..<card (dom h) + 2]. h a \<noteq> None" unfolding xs_def filter_empty_conv by blast
    then have "{1..<card (dom h) + 2} \<subseteq> dom h" by (simp only: set_upt) blast
    from card_mono [OF fin this] show False by simp
  qed
  then have "hd xs \<in> set xs" by simp
  then show "lowest_free h \<noteq> 0 \<and> h (lowest_free h) = None"
    unfolding lowest_free_def xs_def [symmetric] by (auto simp: xs_def)
qed

interpretation lf: c_malloc lowest_free
  by (unfold_locales) (rule lowest_free_fresh)


section \<open>Properties\<close>

text \<open>
  C13: From a new tracker, any sequence of insertions and deletions returns (no loop over a
  bucket runs forever or follows a bad pointer), and afterwards the search finds, for every
  workspace id, the newest entry that was added and not deleted, as the abstract map from ids
  to stacks of entries says; ids that share a bucket do not disturb each other.
\<close>

theorem wsid_refines_stacks:
  assumes "malloc_fresh malloc" and "wsid_tracker_init n = Some s"
  shows "\<exists>s'. store_run (wsid_add malloc) wsid_remove ops s = Some s' \<and>
    (\<forall>k. wsid_lookup s' k =
      Some (case fold (spec_op ws_wsid) ops (\<lambda>_. []) k of [] \<Rightarrow> None | e # _ \<Rightarrow> Some e))"
proof -
  have m: "c_malloc malloc" using assms(1) by unfold_locales
  have "ws_ok s" "ws_stack s = (\<lambda>_. [])" using wsid_tracker_init_ok [OF assms(2)] by auto
  then show ?thesis
    using c_malloc.wsid_run [OF m, of s ops] by auto
qed

definition demo_entry :: "u64 \<Rightarrow> u64 \<Rightarrow> ws_entry" where
  "demo_entry k a = \<lparr>ws_wsid = k, ws_addr = a, ws_phys = 0, ws_len = 4096, ws_offset = 0,
     ws_index = 0, ws_flags = 0\<rparr>"

theorem wsid_refines_stacks_witness:
  "\<exists>s s'. wsid_tracker_init 4 = Some s \<and>
     store_run (wsid_add lowest_free) wsid_remove
       [Add (demo_entry 1 10), Add (demo_entry 5 20), Add (demo_entry 1 30), Del 1] s = Some s' \<and>
     wsid_lookup s' 1 = Some (Some (demo_entry 1 10)) \<and> wsid_lookup s' 9 = Some None"
proof -
  obtain s where s: "wsid_tracker_init 4 = Some s" by (simp add: wsid_tracker_init_def)
  from wsid_refines_stacks [OF lowest_free_fresh s, of
      "[Add (demo_entry 1 10), Add (demo_entry 5 20), Add (demo_entry 1 30), Del 1]"]
  obtain s' where r: "store_run (wsid_add lowest_free) wsid_remove
       [Add (demo_entry 1 10), Add (demo_entry 5 20), Add (demo_entry 1 30), Del 1] s = Some s'"
    and l: "\<And>k. wsid_lookup s' k = Some (case fold (spec_op ws_wsid) [Add (demo_entry 1 10),
       Add (demo_entry 5 20), Add (demo_entry 1 30), Del 1] (\<lambda>_. []) k of [] \<Rightarrow> None | e # _ \<Rightarrow> Some e)"
    by auto
  show ?thesis using s r l [of 1] l [of 9] by (auto simp: demo_entry_def)
qed

text \<open>
  C33: \<open>wsid_tracker_cleanup\<close> returns, frees every node of the tracker once and leaves none, and
  hands to the callback exactly the entries that are in the tracker: for each id the entries
  in the order of its stack.
\<close>

theorem wsid_cleanup_frees_all:
  assumes "ws_ok s"
  shows "\<exists>seen. wsid_tracker_cleanup s = Some (Inr (\<lambda>_. None, seen)) \<and>
    (\<forall>k. filter (\<lambda>e. ws_wsid e = k) seen = ws_stack s k)"
proof -
  define f where "f = (\<lambda>i. map (ws_get (ws_heap s)) (ws_ptrs s i))"
  let ?n = "unat (n_hash_buckets s)"
  have r: "wsid_tracker_cleanup s = Some (Inr
      (\<lambda>a. if \<exists>i \<in> {0..<?n}. a \<in> set (ws_ptrs s i) then None else ws_heap s a,
       concat (map f [0..<?n])))"
    using wsid_cleanup_buckets_ok [OF assms, of "[0..<?n]" "ws_heap s" "[]"]
    by (simp add: wsid_tracker_cleanup_def f_def lessThan_atLeast0)
  have "ws_heap s a = None" if "\<not> (\<exists>i \<in> {0..<?n}. a \<in> set (ws_ptrs s i))" for a
    using ws_okD(3) [OF assms] that by (metis UN_iff atLeast0LessThan domIff)
  then have h: "(\<lambda>a. if \<exists>i \<in> {0..<?n}. a \<in> set (ws_ptrs s i) then None else ws_heap s a) = (\<lambda>_. None)"
    by (auto simp: fun_eq_iff)
  have "filter (\<lambda>e. ws_wsid e = k) (concat (map f [0..<?n])) = ws_stack s k" for k
  proof -
    let ?j = "wsid_hash s k"
    have j: "?j < ?n" by (rule wsid_hash_less [OF assms])
    have other: "filter (\<lambda>e. ws_wsid e = k) (f i) = []" if "i < ?n" "i \<noteq> ?j" for i
      using ws_okD(2) [OF assms that(1)] that(2) by (auto simp: f_def filter_empty_conv)
    have none: "filter (\<lambda>e. ws_wsid e = k) (concat (map f is)) = []" if "\<forall>i \<in> set is. i < ?n \<and> i \<noteq> ?j" for "is"
      using that other by (simp add: filter_concat)
    have sp: "[0..<?n] = [0..<?j] @ ?j # [Suc ?j..<?n]"
      using j upt_add_eq_append [of 0 ?j "?n - ?j"] upt_conv_Cons [OF j] by simp
    have n: "\<forall>i \<in> set [0..<?j]. i < ?n \<and> i \<noteq> ?j" "\<forall>i \<in> set [Suc ?j..<?n]. i < ?n \<and> i \<noteq> ?j"
      using j by auto
    have "filter (\<lambda>e. ws_wsid e = k) (concat (map f [0..<?n])) = filter (\<lambda>e. ws_wsid e = k) (f ?j)"
      unfolding sp map_append concat_append list.map concat.simps filter_append
        none [OF n(1)] none [OF n(2)] by simp
    then show ?thesis by (simp add: ws_stack_def f_def)
  qed
  then show ?thesis using r h by auto
qed

theorem wsid_cleanup_frees_all_witness:
  "\<exists>s seen. wsid_tracker_init 4 = Some s \<and>
     wsid_tracker_cleanup (wsid_add lowest_free s (demo_entry 1 10)) = Some (Inr (\<lambda>_. None, seen)) \<and>
     filter (\<lambda>e. ws_wsid e = 1) seen = [demo_entry 1 10]"
proof -
  obtain s where s: "wsid_tracker_init 4 = Some s" by (simp add: wsid_tracker_init_def)
  note i = wsid_tracker_init_ok [OF s]
  note a = wsid_add_ok [OF i(1) lowest_free_fresh refl, of "demo_entry 1 10"]
  show ?thesis using wsid_cleanup_frees_all [OF a(1)] s a(2) [of 1] i(2) by (fastforce simp: demo_entry_def)
qed

end
