(* ===== verification/Buffer_Api.thy ===== *)
theory Buffer_Api
  imports Host_Memory Wsid_List
begin

text \<open>
  Shared buffers of the application, \<open>src/ase/api/src/buffer.c\<close>: allocation with huge pages,
  the calls that prepare, release, pin and query a buffer, and the parts of \<open>common.c\<close> and
  \<open>open.c\<close> they use. The calls compose the workspace tracker of a handle with the simulated
  host memory.

  The operating system enters through \<open>os_ops\<close>. Each \<open>mmap\<close> and \<open>munmap\<close> is recorded in a
  log, and the answer of the system may depend on the whole log, so that nothing is fixed
  about it except what \<open>os_laws\<close> states. The flag bits of \<open>fpgaPrepareBuffer\<close> are constants of
  the OPAE headers and are arguments too. A pointer argument is an option: \<open>None\<close> is
  \<open>NULL\<close>; what a call stores through its pointers is part of its result.
\<close>

section \<open>Definitions\<close>

subsection \<open>Results, handles and state\<close>

datatype fpga_result = FPGA_OK | FPGA_INVALID_PARAM | FPGA_BUSY | FPGA_EXCEPTION | FPGA_NOT_FOUND
  | FPGA_NO_MEMORY | FPGA_NOT_SUPPORTED | FPGA_NO_DRIVER | FPGA_NO_DAEMON | FPGA_NO_ACCESS
  | FPGA_RECONF_ERROR

fun fpgaErrStr :: "fpga_result \<Rightarrow> string" where
  "fpgaErrStr FPGA_OK = ''success''"
| "fpgaErrStr FPGA_INVALID_PARAM = ''invalid parameter''"
| "fpgaErrStr FPGA_BUSY = ''resource busy''"
| "fpgaErrStr FPGA_EXCEPTION = ''exception''"
| "fpgaErrStr FPGA_NOT_FOUND = ''not found''"
| "fpgaErrStr FPGA_NO_MEMORY = ''no memory''"
| "fpgaErrStr FPGA_NOT_SUPPORTED = ''not supported''"
| "fpgaErrStr FPGA_NO_DRIVER = ''no driver available''"
| "fpgaErrStr FPGA_NO_DAEMON = ''no fpga daemon running''"
| "fpgaErrStr FPGA_NO_ACCESS = ''insufficient privileges''"
| "fpgaErrStr FPGA_RECONF_ERROR = ''reconfiguration error''"

record fpga_handle =
  h_lock :: bool
  h_magic :: u64
  h_token :: nat
  wsid_root :: wsid_tracker
  h_pasid :: u32
  h_afu_idx :: int

definition FPGA_HANDLE_MAGIC :: u64 where "FPGA_HANDLE_MAGIC = 0x46504741484e444c"

datatype os_call = Mmap u64 u32 "u32 + u64" | Munmap u64 u64 bool

record os_ops =
  os_mmap :: "os_call list \<Rightarrow> u64 \<Rightarrow> u32 \<Rightarrow> u32 + u64"
  os_munmap :: "os_call list \<Rightarrow> u64 \<Rightarrow> u64 \<Rightarrow> bool"
  os_maps :: "os_call list \<Rightarrow> smaps_line list option"
  os_smaps :: "os_call list \<Rightarrow> smaps_line list option"
  os_page_size :: u64
  os_pid :: u64
  BUF_PREALLOCATED :: u32
  BUF_QUIET :: u32

record 'al api_state =
  api_hm :: "'al hm_state"
  os_log :: "os_call list"
  handles :: "nat \<Rightarrow> fpga_handle option"
  wsid_ctr :: u64
  process_pasid :: u32
  n_tested :: u64

definition do_mmap :: "os_ops \<Rightarrow> os_call list \<Rightarrow> u64 \<Rightarrow> u32 \<Rightarrow> (u32 + u64) \<times> os_call list" where
  "do_mmap os lg len flags = (let r = os_mmap os lg len flags in (r, lg @ [Mmap len flags r]))"

definition do_munmap :: "os_ops \<Rightarrow> os_call list \<Rightarrow> u64 \<Rightarrow> u64 \<Rightarrow> bool \<times> os_call list" where
  "do_munmap os lg a len = (let r = os_munmap os lg a len in (r, lg @ [Munmap a len r]))"

subsection \<open>Buffers\<close>

definition MAP_HUGETLB :: u32 where "MAP_HUGETLB = 0x40000"
definition MAP_2M_HUGEPAGE :: u32 where "MAP_2M_HUGEPAGE = push_bit 26 0x15"
definition MAP_1G_HUGEPAGE :: u32 where "MAP_1G_HUGEPAGE = push_bit 26 0x1e"
definition FLAGS_4K :: u32 where "FLAGS_4K = 0x22"
definition FLAGS_2M :: u32 where "FLAGS_2M = FLAGS_4K OR MAP_2M_HUGEPAGE OR MAP_HUGETLB"
definition FLAGS_1G :: u32 where "FLAGS_1G = FLAGS_4K OR MAP_1G_HUGEPAGE OR MAP_HUGETLB"

definition sim_huge_mmap :: "os_ops \<Rightarrow> os_call list \<Rightarrow> u64 \<Rightarrow> u32 \<Rightarrow> (u32 + u64) \<times> os_call list" where
  "sim_huge_mmap os lg len flags =
     (let (r, lg) = do_mmap os lg len flags in
      case r of
        Inr a \<Rightarrow> (Inr a, lg)
      | Inl _ \<Rightarrow>
          let length_extra = (if flags AND MAP_1G_HUGEPAGE \<noteq> 0 then GB else 2 * MB);
              len = (len + length_extra - 1) AND NOT (length_extra - 1);
              (r, lg) = do_mmap os lg (len + length_extra) (flags AND NOT (MAP_HUGETLB OR MAP_1G_HUGEPAGE))
          in case r of
               Inl e \<Rightarrow> (Inl e, lg)
             | Inr a \<Rightarrow>
                 let unaligned_extra_end = a AND (length_extra - 1);
                     unaligned_extra_begin = length_extra - unaligned_extra_end;
                     lg = snd (do_munmap os lg a unaligned_extra_begin);
                     a = a + unaligned_extra_begin;
                     lg = (if unaligned_extra_end \<noteq> 0
                           then snd (do_munmap os lg (a + len) unaligned_extra_end) else lg)
                 in (Inr a, lg))"

definition ENOMEM :: u32 where "ENOMEM = 12"

text \<open>\<open>buffer_allocate\<close> returns the result, the address, the rounded length and the log.\<close>

definition buffer_allocate :: "os_ops \<Rightarrow> os_call list \<Rightarrow> u64 \<Rightarrow> fpga_result \<times> u64 \<times> u64 \<times> os_call list" where
  "buffer_allocate os lg len =
     (let (len, r, lg) =
        (if len > 2 * MB
         then (let len = (len + (GB - 1)) AND NOT (GB - 1) in (len, sim_huge_mmap os lg len FLAGS_1G))
         else if len > 4 * KB then (2 * MB, sim_huge_mmap os lg (2 * MB) FLAGS_2M)
         else (len, do_mmap os lg len FLAGS_4K))
      in case r of
           Inl errno \<Rightarrow> (if errno = ENOMEM then FPGA_NO_MEMORY else FPGA_INVALID_PARAM, 0, len, lg)
         | Inr a \<Rightarrow> (FPGA_OK, a, len, lg))"

definition buffer_release :: "os_ops \<Rightarrow> os_call list \<Rightarrow> u64 \<Rightarrow> u64 \<Rightarrow> fpga_result \<times> os_call list" where
  "buffer_release os lg addr len =
     (let len = (if len > 2 * MB then (len + (GB - 1)) AND NOT (GB - 1)
                 else if len > 4 * KB then 2 * MB else len);
          (ok, lg) = do_munmap os lg addr len
      in (if ok then FPGA_OK else FPGA_INVALID_PARAM, lg))"

text \<open>
  \<open>check_mapped_page\<close>: the lines of \<open>maps\<close> or \<open>smaps\<close> as the loop classifies them. For a 4 KB
  page only the first 200 calls and then one in 100 are checked.
\<close>

fun mapped_scan :: "u64 \<Rightarrow> u64 \<Rightarrow> bool \<Rightarrow> smaps_line list \<Rightarrow> fpga_result" where
  "mapped_scan addr req huge [] = FPGA_NOT_FOUND"
| "mapped_scan addr req huge (SmapsRange start end_addr # ls) =
     (if start > addr \<or> end_addr \<le> addr then mapped_scan addr req huge ls
      else if \<not> huge then FPGA_OK
      else case smaps_find_size ls of
             None \<Rightarrow> FPGA_NOT_FOUND
           | Some page_kb \<Rightarrow>
               if page_kb = 0 then FPGA_EXCEPTION
               else if ucast (1024 * page_kb) < req then FPGA_EXCEPTION
               else FPGA_OK)"
| "mapped_scan addr req huge (_ # ls) = mapped_scan addr req huge ls"

definition check_mapped_page :: "os_ops \<Rightarrow> 'al api_state \<Rightarrow> u64 \<Rightarrow> u64 \<Rightarrow> fpga_result \<times> 'al api_state" where
  "check_mapped_page os s vaddr req =
     (let test_huge_page = req > 4096;
          s = (if test_huge_page then s else s\<lparr>n_tested := n_tested s + 1\<rparr>) in
      if \<not> test_huge_page \<and> n_tested s > 200 \<and> n_tested s mod 100 \<noteq> 0 then (FPGA_OK, s)
      else case (if test_huge_page then os_smaps os (os_log s) else os_maps os (os_log s)) of
             None \<Rightarrow> (FPGA_EXCEPTION, s)
           | Some ls \<Rightarrow> (mapped_scan vaddr req test_huge_page ls, s))"

subsection \<open>Workspace ids and the handle lock\<close>

definition wsid_gen :: "os_ops \<Rightarrow> 'al api_state \<Rightarrow> u64 \<times> 'al api_state" where
  "wsid_gen os s = (wsid_ctr s XOR push_bit 40 (os_pid os mod 16777216), s\<lparr>wsid_ctr := wsid_ctr s + 1\<rparr>)"

definition set_handle :: "nat \<Rightarrow> fpga_handle \<Rightarrow> 'al api_state \<Rightarrow> 'al api_state" where
  "set_handle h hdl s = s\<lparr>handles := (handles s)(h \<mapsto> hdl)\<rparr>"

definition handle_unlock :: "nat \<Rightarrow> 'al api_state \<Rightarrow> 'al api_state" where
  "handle_unlock h s = (case handles s h of
      None \<Rightarrow> s | Some hdl \<Rightarrow> set_handle h (hdl\<lparr>h_lock := False\<rparr>) s)"

text \<open>
  \<open>handle_check_and_lock\<close>. The handle mutex is not recursive; a pointer to no handle faults.
\<close>

definition handle_check_and_lock :: "nat \<Rightarrow> 'al api_state \<Rightarrow> (fpga_result \<times> 'al api_state) res" where
  "handle_check_and_lock h s =
     (if h = 0 then Inr (FPGA_INVALID_PARAM, s)
      else case handles s h of
             None \<Rightarrow> Inl Segv
           | Some hdl \<Rightarrow>
               if h_lock hdl then Inl Blocked
               else if h_magic hdl \<noteq> FPGA_HANDLE_MAGIC then Inr (FPGA_INVALID_PARAM, s)
               else Inr (FPGA_OK, set_handle h (hdl\<lparr>h_lock := True\<rparr>) s))"

text \<open>
  The frame of every call: lock, run the body on the handle, unlock. A loop of the tracker
  that does not end blocks the call.
\<close>

definition with_handle ::
  "nat \<Rightarrow> 'al api_state \<Rightarrow> (fpga_result \<Rightarrow> 'b) \<Rightarrow>
   (fpga_handle \<Rightarrow> 'al api_state \<Rightarrow> ('b \<times> 'al api_state) res) \<Rightarrow> ('b \<times> 'al api_state) res" where
  "with_handle h s err body =
     rbind (handle_check_and_lock h s) (\<lambda>(r, s).
       if r \<noteq> FPGA_OK then Inr (err r, s)
       else case handles s h of
              None \<Rightarrow> Inl Segv
            | Some hdl \<Rightarrow> rbind (body hdl s) (\<lambda>(b, s). Inr (b, handle_unlock h s)))"

definition ws_ret :: "'a res option \<Rightarrow> 'a res" where
  "ws_ret r = (case r of None \<Rightarrow> Inl Blocked | Some x \<Rightarrow> x)"

subsection \<open>Prepare and release\<close>

text \<open>The outcome of \<open>ase_fpgaPrepareBuffer\<close>: the result, \<open>*buf_addr\<close> and \<open>*wsid\<close> if stored.\<close>

type_synonym prep_out = "fpga_result \<times> u64 option \<times> u64 option"

text \<open>The part after the checks: pin, generate the id, remember the buffer.\<close>

definition prepare_pin ::
  "os_ops \<Rightarrow> (pt_mem \<Rightarrow> u64 option) \<Rightarrow> (ws_heap \<Rightarrow> nat) \<Rightarrow> nat \<Rightarrow> fpga_handle \<Rightarrow> bool \<Rightarrow> u32 \<Rightarrow>
   u64 \<Rightarrow> u64 \<Rightarrow> u64 \<Rightarrow> 'al api_state \<Rightarrow> (prep_out \<times> 'al api_state) res" where
  "prepare_pin os mm malloc h hdl preallocated flags addr iova len s =
     rbind (ase_host_memory_pin mm (api_hm s) (h_afu_idx hdl) addr iova len) (\<lambda>(st, hm).
       let s = s\<lparr>api_hm := hm\<rparr> in
       if st \<noteq> 0
       then Inr ((FPGA_INVALID_PARAM, None, None),
              if preallocated then s else s\<lparr>os_log := snd (buffer_release os (os_log s) addr len)\<rparr>)
       else let (wsid, s) = wsid_gen os s;
                e = \<lparr>ws_wsid = wsid, ws_addr = addr, ws_phys = iova, ws_len = len, ws_offset = 0,
                     ws_index = 0, ws_flags = flags\<rparr>
            in Inr ((FPGA_OK, Some addr, Some wsid),
                 set_handle h (hdl\<lparr>wsid_root := wsid_add malloc (wsid_root hdl) e\<rparr>) s))"

definition ase_fpgaPrepareBuffer ::
  "os_ops \<Rightarrow> 'al mem_alloc \<Rightarrow> (pt_mem \<Rightarrow> u64 option) \<Rightarrow> (ws_heap \<Rightarrow> nat) \<Rightarrow> nat \<Rightarrow> u64 \<Rightarrow>
   u64 option \<Rightarrow> bool \<Rightarrow> u32 \<Rightarrow> 'al api_state \<Rightarrow> (prep_out \<times> 'al api_state) res" where
  "ase_fpgaPrepareBuffer os ma mm malloc h len buf_addr wsid_null flags s =
     (let preallocated = flags AND BUF_PREALLOCATED os \<noteq> 0;
          fail = (\<lambda>r. (r, None, None)) in
      with_handle h s fail (\<lambda>hdl s.
        if wsid_null then Inr (fail FPGA_INVALID_PARAM, s)
        else if flags AND NOT (BUF_PREALLOCATED os OR BUF_QUIET os) \<noteq> 0 then Inr (fail FPGA_INVALID_PARAM, s)
        else let pg_size = os_page_size os in
        rbind (ase_host_memory_alloc_iova ma (api_hm s) len) (\<lambda>(st, iova, hm).
          let s = s\<lparr>api_hm := hm\<rparr> in
          if st \<noteq> 0 then Inr (fail FPGA_NO_MEMORY, s)
          else if preallocated
          then (case buf_addr of
                  None \<Rightarrow> Inr (fail (if len = 0 then FPGA_OK else FPGA_INVALID_PARAM), s)
                | Some addr \<Rightarrow>
                    if addr = 0 then Inr (fail FPGA_INVALID_PARAM, s)
                    else if len = 0 \<or> len AND (pg_size - 1) \<noteq> 0 then Inr (fail FPGA_INVALID_PARAM, s)
                    else let (r, s) = check_mapped_page os s addr len in
                      if r \<noteq> FPGA_OK then Inr (fail FPGA_INVALID_PARAM, s)
                      else prepare_pin os mm malloc h hdl True flags addr iova len s)
          else if buf_addr = None \<or> len = 0 then Inr (fail FPGA_INVALID_PARAM, s)
          else let len = (if len AND (pg_size - 1) \<noteq> 0 then pg_size + (len AND NOT (pg_size - 1)) else len);
                   (r, addr, len, lg) = buffer_allocate os (os_log s) len;
                   s = s\<lparr>os_log := lg\<rparr> in
            if r \<noteq> FPGA_OK then Inr (fail r, s)
            else prepare_pin os mm malloc h hdl False flags addr iova len s)))"

definition ase_fpgaReleaseBuffer ::
  "os_ops \<Rightarrow> 'al mem_alloc \<Rightarrow> nat \<Rightarrow> u64 \<Rightarrow> 'al api_state \<Rightarrow> (fpga_result \<times> 'al api_state) res" where
  "ase_fpgaReleaseBuffer os ma h wsid s =
     with_handle h s id (\<lambda>hdl s.
       rbind (ws_ret (wsid_find (wsid_root hdl) wsid)) (\<lambda>p.
         if p = 0 then Inr (FPGA_INVALID_PARAM, s)
         else let wm = ws_get (ws_heap (wsid_root hdl)) p;
                  preallocated = ws_flags wm AND BUF_PREALLOCATED os \<noteq> 0;
                  release = (\<lambda>s. let (r, lg) = buffer_release os (os_log s) (ws_addr wm) (ws_len wm)
                                 in (r, s\<lparr>os_log := lg\<rparr>)) in
           rbind (ase_host_memory_free_iova ma (api_hm s) (ws_phys wm)) (\<lambda>(_, hm).
           rbind (ase_host_memory_unpin hm (h_afu_idx hdl) (ws_phys wm) (ws_len wm)) (\<lambda>(st, hm).
             let s = s\<lparr>api_hm := hm\<rparr>;
                 (r, s) = (if st \<noteq> 0 then (FPGA_INVALID_PARAM, if preallocated then s else snd (release s))
                           else if preallocated then (FPGA_OK, s)
                           else release s) in
             rbind (ws_ret (wsid_del (wsid_root hdl) wsid)) (\<lambda>(_, t).
               Inr (r, set_handle h (hdl\<lparr>wsid_root := t\<rparr>) s))))))"

subsection \<open>Queries and explicit pins\<close>

definition ase_fpgaGetIOAddress ::
  "nat \<Rightarrow> u64 \<Rightarrow> bool \<Rightarrow> 'al api_state \<Rightarrow> ((fpga_result \<times> u64 option) \<times> 'al api_state) res" where
  "ase_fpgaGetIOAddress h wsid ioaddr_null s =
     (if ioaddr_null then Inr ((FPGA_INVALID_PARAM, None), s)
      else with_handle h s (\<lambda>r. (r, None)) (\<lambda>hdl s.
        rbind (ws_ret (wsid_find (wsid_root hdl) wsid)) (\<lambda>p.
          Inr (if p = 0 then (FPGA_NOT_FOUND, None)
               else (FPGA_OK, Some (ws_phys (ws_get (ws_heap (wsid_root hdl)) p))), s))))"

definition ase_fpgaBindSVA ::
  "u32 \<Rightarrow> nat \<Rightarrow> 'al api_state \<Rightarrow> ((fpga_result \<times> u32 option) \<times> 'al api_state) res" where
  "ase_fpgaBindSVA rand h s =
     with_handle h s (\<lambda>r. (r, None)) (\<lambda>hdl s.
       let s = (if process_pasid s \<noteq> 0 then s
                else s\<lparr>process_pasid := (if rand AND 0xfffff = 0 then 1 else rand AND 0xfffff)\<rparr>) in
       Inr ((FPGA_OK, Some (process_pasid s)), set_handle h (hdl\<lparr>h_pasid := process_pasid s\<rparr>) s))"

definition ase_fpgaPinBuffer ::
  "(pt_mem \<Rightarrow> u64 option) \<Rightarrow> nat \<Rightarrow> u64 \<Rightarrow> u64 \<Rightarrow> u64 \<Rightarrow> 'al api_state \<Rightarrow>
   (fpga_result \<times> 'al api_state) res" where
  "ase_fpgaPinBuffer mm h buf_addr len ioaddr s =
     with_handle h s id (\<lambda>hdl s.
       rbind (ase_host_memory_pin mm (api_hm s) (h_afu_idx hdl) buf_addr ioaddr len) (\<lambda>(st, hm).
         Inr (if st \<noteq> 0 then FPGA_INVALID_PARAM else FPGA_OK, s\<lparr>api_hm := hm\<rparr>)))"

definition ase_fpgaUnpinBuffer ::
  "nat \<Rightarrow> u64 \<Rightarrow> u64 \<Rightarrow> u64 \<Rightarrow> 'al api_state \<Rightarrow> (fpga_result \<times> 'al api_state) res" where
  "ase_fpgaUnpinBuffer h buf_addr len ioaddr s =
     with_handle h s id (\<lambda>hdl s.
       rbind (ase_host_memory_unpin (api_hm s) (h_afu_idx hdl) ioaddr len) (\<lambda>(st, hm).
         Inr (if st \<noteq> 0 then FPGA_INVALID_PARAM else FPGA_OK, s\<lparr>api_hm := hm\<rparr>)))"

text \<open>\<open>ase_fpgaGetWSInfo\<close> stores the address, the IOVA and the length.\<close>

definition ase_fpgaGetWSInfo ::
  "nat \<Rightarrow> u64 \<Rightarrow> bool \<Rightarrow> bool \<Rightarrow> bool \<Rightarrow> 'al api_state \<Rightarrow>
   ((fpga_result \<times> (u64 \<times> u64 \<times> u64) option) \<times> 'al api_state) res" where
  "ase_fpgaGetWSInfo h wsid ioaddr_null buf_addr_null len_null s =
     (if ioaddr_null \<or> buf_addr_null \<or> len_null then Inr ((FPGA_INVALID_PARAM, None), s)
      else with_handle h s (\<lambda>r. (r, None)) (\<lambda>hdl s.
        rbind (ws_ret (wsid_find (wsid_root hdl) wsid)) (\<lambda>p.
          Inr (if p = 0 then (FPGA_INVALID_PARAM, None)
               else let wm = ws_get (ws_heap (wsid_root hdl)) p
                    in (FPGA_OK, Some (ws_addr wm, ws_phys wm, ws_len wm)), s))))"

subsection \<open>Specification\<close>

text \<open>The bytes that are mapped after a log of calls, and what is assumed of the system.\<close>

definition os_range :: "u64 \<Rightarrow> u64 \<Rightarrow> nat set" where
  "os_range a len = {unat a ..< unat a + unat len}"

fun os_effect :: "os_call \<Rightarrow> nat set \<Rightarrow> nat set" where
  "os_effect (Mmap len flags (Inr a)) M = M \<union> os_range a len"
| "os_effect (Mmap len flags (Inl e)) M = M"
| "os_effect (Munmap a len ok) M = (if ok then M - os_range a len else M)"

definition os_mapped :: "os_call list \<Rightarrow> nat set" where
  "os_mapped lg = fold os_effect lg {}"

text \<open>
  \<open>mmap\<close> returns a page aligned range in the lower half of the address space that was free,
  aligned to the huge page size when huge pages are asked for, and refuses an empty range;
  \<open>munmap\<close> of mapped whole pages succeeds.
\<close>

definition os_laws :: "os_ops \<Rightarrow> bool" where
  "os_laws os \<longleftrightarrow>
     (\<forall>lg len flags a. os_mmap os lg len flags = Inr a \<longrightarrow>
        len \<noteq> 0 \<and> a \<noteq> 0 \<and> unat a + unat len \<le> 2 ^ 47 \<and> take_bit 12 a = 0 \<and>
        os_range a len \<inter> os_mapped lg = {} \<and>
        (flags AND MAP_HUGETLB \<noteq> 0 \<longrightarrow> take_bit (unat (drop_bit 26 flags)) a = 0)) \<and>
     (\<forall>lg a len. take_bit 12 a = 0 \<longrightarrow> take_bit 12 len = 0 \<longrightarrow> len \<noteq> 0 \<longrightarrow>
        os_range a len \<subseteq> os_mapped lg \<longrightarrow> os_munmap os lg a len)"

definition api_ok :: "'al api_state \<Rightarrow> bool" where
  "api_ok s \<longleftrightarrow> hm_ok (api_hm s) \<and> \<not> ase_pt_lock (api_hm s) \<and>
     (\<forall>h hdl. handles s h = Some hdl \<longrightarrow> h \<noteq> 0 \<and> \<not> h_lock hdl \<and> h_magic hdl = FPGA_HANDLE_MAGIC \<and>
        ws_ok (wsid_root hdl) \<and> afu_idx_ok (h_afu_idx hdl))"

section \<open>The address space\<close>

lemma os_mapped_simps [simp]:
  "os_mapped [] = {}" "os_mapped (lg @ [c]) = os_effect c (os_mapped lg)"
  by (simp_all add: os_mapped_def)

lemma os_mmapD:
  assumes "os_laws os" and "do_mmap os lg len flags = (Inr a, lg')"
  shows "len \<noteq> 0" "a \<noteq> 0" "unat a + unat len \<le> 2 ^ 47" "take_bit 12 a = 0"
    "os_range a len \<inter> os_mapped lg = {}" "os_mapped lg' = os_mapped lg \<union> os_range a len"
    "flags AND MAP_HUGETLB \<noteq> 0 \<Longrightarrow> take_bit (unat (drop_bit 26 flags)) a = 0"
proof -
  have "os_mmap os lg len flags = Inr a" and lg': "lg' = lg @ [Mmap len flags (Inr a)]"
    using assms(2) by (auto simp: do_mmap_def Let_def)
  then show "len \<noteq> 0" "a \<noteq> 0" "unat a + unat len \<le> 2 ^ 47" "take_bit 12 a = 0"
    "os_range a len \<inter> os_mapped lg = {}"
    "flags AND MAP_HUGETLB \<noteq> 0 \<Longrightarrow> take_bit (unat (drop_bit 26 flags)) a = 0"
    using assms(1) unfolding os_laws_def by blast+
  show "os_mapped lg' = os_mapped lg \<union> os_range a len" by (simp add: lg')
qed

lemma os_mmap_fail: "do_mmap os lg len flags = (Inl e, lg') \<Longrightarrow> os_mapped lg' = os_mapped lg"
  by (auto simp: do_mmap_def Let_def)

lemma os_munmapD:
  assumes "os_laws os" and "take_bit 12 a = 0" "take_bit 12 len = 0" "len \<noteq> 0" "os_range a len \<subseteq> os_mapped lg"
  shows "fst (do_munmap os lg a len)" "os_mapped (snd (do_munmap os lg a len)) = os_mapped lg - os_range a len"
  using assms by (auto simp: os_laws_def do_munmap_def Let_def)

lemma range_cut_front:
  "M \<inter> {A..<A + X} = {} \<Longrightarrow> c \<le> X \<Longrightarrow> (M \<union> {A..<A + X}) - {A..<A + c} = M \<union> {A + c..<A + X}" for A :: nat
  by (auto simp: disjoint_iff)

lemma range_cut_end:
  "M \<inter> {A..<B + c} = {} \<Longrightarrow> A \<le> B \<Longrightarrow> (M \<union> {A..<B + c}) - {B..<B + c} = M \<union> {A..<B}" for A :: nat
  by (auto simp: disjoint_iff)

text \<open>The two ends that the fallback of \<open>sim_huge_mmap\<close> cuts off leave an aligned range.\<close>

lemma trim_range:
  fixes a :: u64
  assumes os: "os_laws os" and n: "12 \<le> n" "n < 47" and L: "unat L < 2 ^ 47" "take_bit 12 L = 0"
    and a: "unat a + unat (L + 2 ^ n) \<le> 2 ^ 47" "take_bit 12 a = 0"
    and m: "os_mapped lg = M \<union> os_range a (L + 2 ^ n)" "M \<inter> os_range a (L + 2 ^ n) = {}"
    and e: "e = a AND (2 ^ n - 1)" and b: "b = 2 ^ n - e" and a': "a' = a + b"
    and lg1: "lg1 = snd (do_munmap os lg a b)"
    and lg2: "lg2 = (if e \<noteq> 0 then snd (do_munmap os lg1 (a' + L) e) else lg1)"
  shows "take_bit n a' = 0" "a' \<noteq> 0" "unat a' + unat L \<le> 2 ^ 47"
    "os_mapped lg2 = M \<union> os_range a' L" "M \<inter> os_range a' L = {}"
proof -
  define A where "A = unat a"
  define E where "E = A mod 2 ^ n"
  have p: "(2 ^ n :: nat) < 2 ^ 47" using n by (intro power_strict_increasing) auto
  have un: "unat (2 ^ n :: u64) = 2 ^ n"
    using n by (simp add: unat_exp_u64)
  have uL: "unat (L + 2 ^ n) = unat L + 2 ^ n"
    using L p un by (simp add: unat_plus_if')
  have ee: "e = take_bit n a" using e by (simp add: take_bit_eq_mask mask_eq_exp_minus_1)
  have uE: "unat e = E" unfolding ee E_def A_def unsigned_take_bit_eq by (rule take_bit_eq_mod)
  have EA: "E \<le> A" "E < 2 ^ n" by (simp_all add: E_def)
  have "e \<le> 2 ^ n" using EA(2) uE un by (simp add: word_le_nat_alt)
  then have ub: "unat b = 2 ^ n - E" using b uE un by (simp add: unat_sub)
  have A: "A + unat L + 2 ^ n \<le> 2 ^ 47" using a(1) uL by (simp add: A_def)
  then have bd: "A + (2 ^ n - E) + unat L \<le> 2 ^ 47" using diff_le_self [of "2 ^ n" E] by linarith
  then have ua': "unat a' = A + (2 ^ n - E)"
    using a' ub by (simp add: unat_plus_if' A_def)
  have uaL: "unat (a' + L) = A + (2 ^ n - E) + unat L"
    using ua' bd by (simp add: unat_plus_if')
  have ia: "(A + (2 ^ n - E)) mod 2 ^ n = 0"
  proof -
    have "A + (2 ^ n - E) = (A - E) + 2 ^ n" using EA by simp
    moreover have "(A - E) mod 2 ^ n = 0" unfolding E_def by (metis dvd_eq_mod_eq_0 dvd_minus_mod)
    ultimately show ?thesis by simp
  qed
  have tb: "take_bit k w = 0 \<longleftrightarrow> unat w mod 2 ^ k = 0" for k and w :: u64
    by (metis take_bit_eq_mod unsigned_0 unsigned_take_bit_eq unsigned_eq_0_iff)
  show al: "take_bit n a' = 0" using ia ua' by (simp add: tb)
  have m12: "x mod 2 ^ 12 = 0" if "x mod 2 ^ n = 0" for x :: nat
    using that n(1) by (metis dvd_eq_mod_eq_0 dvd_trans le_imp_power_dvd)
  have E12: "E mod 2 ^ 12 = 0"
    using a(2) unfolding E_def tb A_def mod_mod_cancel [OF le_imp_power_dvd [OF n(1)]] .
  have b12: "(2 ^ n - E) mod 2 ^ 12 = 0"
    using E12 m12 [of "2 ^ n"] by (metis dvd_diff_nat dvd_eq_mod_eq_0 mod_self)
  show "a' \<noteq> 0" using ua' EA by (metis add_is_0 diff_is_0_eq leD unsigned_0)
  show "unat a' + unat L \<le> 2 ^ 47" using bd ua' by simp
  have b0: "b \<noteq> 0" using ub EA by (metis diff_is_0_eq leD unsigned_0)
  have sub1: "os_range a b \<subseteq> os_mapped lg"
    using m(1) ub uL by (auto simp: os_range_def A_def)
  have "os_mapped lg1 = os_mapped lg - os_range a b"
    unfolding lg1 by (rule os_munmapD(2) [OF os a(2) _ b0 sub1]) (simp only: tb ub b12)
  moreover have mA: "M \<inter> {A..<A + (unat L + 2 ^ n)} = {}" using m(2) uL by (simp add: os_range_def A_def)
  moreover have "os_mapped lg = M \<union> {A..<A + (unat L + 2 ^ n)}" using m(1) uL by (simp add: os_range_def A_def)
  ultimately have m1: "os_mapped lg1 = M \<union> {A + (2 ^ n - E) ..< A + (unat L + 2 ^ n)}"
    using range_cut_front [of M A "unat L + 2 ^ n" "2 ^ n - E"] ub by (simp add: os_range_def A_def)
  define D where "D = A + (2 ^ n - E)"
  have D: "A + (unat L + 2 ^ n) = D + unat L + E" "A \<le> D" using EA by (simp_all add: D_def)
  have mD: "M \<inter> {D..<D + unat L + E} = {}" using mA D by (auto simp: disjoint_iff)
  then show "M \<inter> os_range a' L = {}" by (auto simp: os_range_def ua' D_def disjoint_iff)
  show "os_mapped lg2 = M \<union> os_range a' L"
  proof (cases "e = 0")
    case True
    then have "E = 0" using uE by simp
    then show ?thesis using m1 True lg2 ua' by (simp add: os_range_def add_ac)
  next
    case False
    have "take_bit 12 (a' + L) = 0"
      using m12 [OF ia] L(2) unfolding tb uaL by (metis add.right_neutral mod_add_eq mod_mod_trivial)
    moreover have "os_range (a' + L) e \<subseteq> os_mapped lg1"
      using m1 unfolding D(1) by (auto simp: os_range_def uE uaL D_def)
    ultimately have "os_mapped lg2 = os_mapped lg1 - os_range (a' + L) e"
      using False os_munmapD(2) [OF os _ _ False] E12 uE lg2 unfolding tb by simp
    then show ?thesis
      using range_cut_end [OF mD] m1 unfolding D(1)
      by (simp add: os_range_def ua' uaL uE D_def [symmetric])
  qed
qed

text \<open>Both huge page sizes are in the flags as 1 GB, so the fallback always works in gigabytes.\<close>

lemma flags_values:
  "FLAGS_1G AND MAP_1G_HUGEPAGE \<noteq> 0" "FLAGS_2M AND MAP_1G_HUGEPAGE \<noteq> 0"
  "FLAGS_1G AND MAP_HUGETLB \<noteq> 0" "FLAGS_2M AND MAP_HUGETLB \<noteq> 0"
  "unat (drop_bit 26 FLAGS_1G) = 30" "unat (drop_bit 26 FLAGS_2M) = 21"
  by (simp_all add: FLAGS_1G_def FLAGS_2M_def FLAGS_4K_def MAP_1G_HUGEPAGE_def MAP_2M_HUGEPAGE_def
      MAP_HUGETLB_def)

lemma unat_sizes: "unat GB = 2 ^ 30" "unat (2 * MB) = 2 ^ 21" "unat (4 * KB) = 2 ^ 12"
  by (simp_all add: GB_def MB_def KB_def)

lemma sim_huge_direct:
  assumes "os_laws os" and "os_mmap os lg len flags = Inr a" and "sim_huge_mmap os lg len flags = (Inr a', lg')"
  shows "a' = a" "os_mapped lg' = os_mapped lg \<union> os_range a len" "os_mapped lg \<inter> os_range a len = {}"
  using assms os_mmapD [OF assms(1), of lg len flags a]
  by (auto simp: sim_huge_mmap_def do_mmap_def Let_def)

lemma sim_huge_fallback:
  assumes os: "os_laws os" and f: "os_mmap os lg len flags = Inl e" "flags AND MAP_1G_HUGEPAGE \<noteq> 0"
    and L: "(len + GB - 1) AND NOT (GB - 1) = L" "take_bit 12 L = 0" "unat L < 2 ^ 47"
    and r: "sim_huge_mmap os lg len flags = (Inr a', lg')"
  shows "take_bit 30 a' = 0" "a' \<noteq> 0" "unat a' + unat L \<le> 2 ^ 47"
    "os_mapped lg' = os_mapped lg \<union> os_range a' L" "os_mapped lg \<inter> os_range a' L = {}"
proof -
  define lg1 where "lg1 = lg @ [Mmap len flags (Inl e)]"
  define fl where "fl = flags AND NOT (MAP_HUGETLB OR MAP_1G_HUGEPAGE)"
  have m1: "do_mmap os lg len flags = (Inl e, lg1)" "os_mapped lg1 = os_mapped lg"
    using f by (simp_all add: do_mmap_def lg1_def Let_def)
  obtain a lg2 where d: "do_mmap os lg1 (L + GB) fl = (Inr a, lg2)"
    using r m1 f(2) L(1) by (auto simp: sim_huge_mmap_def Let_def fl_def split: prod.splits sum.splits)
  note D = os_mmapD [OF os d]
  have G: "GB = 2 ^ 30" by (simp add: GB_def MB_def KB_def)
  define x where "x = a AND (GB - 1)"
  define b where "b = GB - x"
  define lg3 where "lg3 = snd (do_munmap os lg2 a b)"
  define lg4 where "lg4 = (if x \<noteq> 0 then snd (do_munmap os lg3 (a + b + L) x) else lg3)"
  have "sim_huge_mmap os lg len flags = (Inr (a + b), lg4)"
    using f(2) unfolding sim_huge_mmap_def m1(1) Let_def fl_def [symmetric]
    by (simp only: prod.case sum.case if_True L(1) d lg4_def lg3_def b_def x_def simp_thms)
  then have r': "a' = a + b" "lg' = lg4" using r by simp_all
  note T = trim_range [OF os _ _ L(3,2) _ D(4) _ _ x_def [unfolded G] b_def [unfolded G] r'(1) lg3_def lg4_def [folded r'(1)],
      of "os_mapped lg"]
  have dis: "os_mapped lg \<inter> os_range a (L + 2 ^ 30) = {}" using D(5) m1(2) G by (simp add: Int_commute)
  show "take_bit 30 a' = 0" "a' \<noteq> 0" "unat a' + unat L \<le> 2 ^ 47"
    "os_mapped lg' = os_mapped lg \<union> os_range a' L" "os_mapped lg \<inter> os_range a' L = {}"
    using T D(3,6) dis m1(2) r'(2) G by simp_all
qed

lemma unat_round_down:
  fixes x :: u64
  assumes "n < 64"
  shows "unat (x AND NOT (2 ^ n - 1)) = unat x div 2 ^ n * 2 ^ n"
proof -
  have "x AND NOT (2 ^ n - 1) = push_bit n (drop_bit n x)"
    by (rule bit_word_eqI) (auto simp: bit_simps exp_minus_1_mask)
  moreover have "unat x div 2 ^ n * 2 ^ n < 2 ^ 64"
    by (rule le_less_trans [OF div_times_less_eq_dividend]) (use unat_bound [of x] in simp)
  moreover have "unat (push_bit n (drop_bit n x)) = take_bit 64 (unat x div 2 ^ n * 2 ^ n)"
    using unat_bound [of x]
    by (simp add: unsigned_push_bit_eq unsigned_drop_bit_eq take_bit_nat_eq_self
        flip: push_bit_eq_mult drop_bit_eq_div)
  ultimately show ?thesis by (simp add: take_bit_nat_eq_self)
qed

lemma round_up_GB:
  assumes "len \<le> 2 ^ 63" and "len > 2 * MB" and "(len + (GB - 1)) AND NOT (GB - 1) = len'"
    and "ase_pt_length_to_level len' \<noteq> - 1"
  shows "len' = GB" "len \<le> GB" "round_iova_length len = GB"
proof -
  let ?n = "unat len + (2 ^ 30 - 1)"
  have l: "unat len \<le> 2 ^ 63" "unat len > 2 ^ 21"
    using assms(1,2) unat_sizes by (simp_all add: word_le_nat_alt word_less_nat_alt unat_exp_u64)
  have "unat (GB - 1) = 2 ^ 30 - 1" by (simp add: GB_def MB_def KB_def)
  then have s: "unat (len + (GB - 1)) = ?n" using l by (simp add: unat_plus_if')
  have u: "unat len' = ?n div 2 ^ 30 * 2 ^ 30"
    using unat_round_down [of 30 "len + (GB - 1)"] assms(3) s by (simp add: GB_def MB_def KB_def)
  have "?n div 2 ^ 30 \<ge> 1" using l by simp
  then have "len' > 2 * MB" using u unat_sizes by (simp add: word_less_nat_alt)
  then show g: "len' = GB" using assms(4) by (simp add: ase_pt_length_to_level_def split: if_splits)
  then have d: "?n div 2 ^ 30 = 1" using u unat_sizes by simp
  then have "unat len \<le> 2 ^ 30" by simp
  then show "len \<le> GB" using unat_sizes by (simp add: word_le_nat_alt)
  have "(len + GB - 1) div GB = 1"
    using d s unat_sizes by (intro word_unat_eq_iff [THEN iffD2]) (simp add: unat_div add_diff_eq)
  then show "round_iova_length len = GB" using assms(2) by (simp add: round_iova_length_def)
qed

lemma round_2MB:
  assumes "\<not> len > 2 * MB" and "len > 4 * KB"
  shows "round_iova_length len = 2 * MB"
proof -
  have l: "unat len \<le> 2 ^ 21" "unat len > 2 ^ 12"
    using assms unat_sizes by (simp_all add: word_le_nat_alt word_less_nat_alt)
  have "unat (2 * MB - 1) = 2 ^ 21 - 1" by (simp add: MB_def KB_def)
  then have "unat (len + (2 * MB - 1)) = unat len + (2 ^ 21 - 1)" using l by (simp add: unat_plus_if')
  moreover have "(unat len + (2 ^ 21 - 1)) div 2 ^ 21 = 1" using l by simp
  ultimately have "(len + 2 * MB - 1) div (2 * MB) = 1"
    using unat_sizes by (intro word_unat_eq_iff [THEN iffD2]) (simp add: unat_div add_diff_eq)
  then show ?thesis using assms by (simp add: round_iova_length_def)
qed

lemma small_page:
  assumes "take_bit 12 len = 0" "len \<noteq> 0" "\<not> len > 4 * KB"
  shows "len = 4 * KB"
proof -
  have "unat len mod 2 ^ 12 = 0"
    using assms(1) by (metis take_bit_eq_mod unsigned_0 unsigned_take_bit_eq)
  moreover have "0 < unat len" "unat len \<le> 2 ^ 12"
    using assms(2,3) unat_sizes by (simp_all add: word_less_nat_alt unat_gt_0)
  ultimately have "unat len = 2 ^ 12" by (metis dvd_imp_le dvd_eq_mod_eq_0 le_antisym)
  then show ?thesis using unat_sizes by (simp add: word_unat_eq_iff)
qed

text \<open>
  A buffer that the page table can pin is one page of one of the three sizes, aligned to it;
  the mapped range is the buffer, or 1 GB when a 2 MB huge page was not to be had.
\<close>

lemma sizes_level:
  "ase_pt_length_to_level (4 * KB) = 0" "ase_pt_length_to_level (2 * MB) = 1" "ase_pt_length_to_level GB = 2"
  "take_bit 12 (4 * KB) = 0" "take_bit 12 (2 * MB) = 0" "take_bit 12 GB = 0"
  "4 * KB \<noteq> 0" "2 * MB \<noteq> 0" "GB \<noteq> 0" "round_iova_length (4 * KB) = 4 * KB"
  by (simp_all add: ase_pt_length_to_level_def round_iova_length_def GB_def MB_def KB_def)

lemma a_below: "unat a + unat L \<le> 2 ^ 47 \<Longrightarrow> a < 2 ^ 63" for a L :: u64
  by (simp add: word_less_nat_alt unat_exp_u64)

lemma sim_huge_mmap_OK:
  assumes os: "os_laws os" and c: "flags = FLAGS_1G \<and> len = GB \<and> n = 30 \<or> flags = FLAGS_2M \<and> len = 2 * MB \<and> n = 21"
    and r: "sim_huge_mmap os lg len flags = (Inr a, lg')"
    and L: "L = (case os_mmap os lg len flags of Inl _ \<Rightarrow> GB | Inr _ \<Rightarrow> len)"
  shows "a \<noteq> 0 \<and> a < 2 ^ 63 \<and> take_bit n a = 0 \<and> os_mapped lg' = os_mapped lg \<union> os_range a L \<and>
    os_mapped lg \<inter> os_range a L = {}"
proof (cases "os_mmap os lg len flags")
  case (Inr a0)
  note S = sim_huge_direct [OF os Inr r]
  have "do_mmap os lg len flags = (Inr a0, lg @ [Mmap len flags (Inr a0)])" using Inr by (simp add: do_mmap_def Let_def)
  note D = os_mmapD [OF os this]
  have "take_bit n a0 = 0" using D(7) c flags_values by auto
  then show ?thesis using S D(2) a_below [OF D(3)] Inr L by simp
next
  case (Inl e)
  have f: "flags AND MAP_1G_HUGEPAGE \<noteq> 0" "(len + GB - 1) AND NOT (GB - 1) = GB"
    using c flags_values by (auto simp: GB_def MB_def KB_def)
  have "take_bit 12 GB = 0" "unat GB < 2 ^ 47" using unat_sizes sizes_level by simp_all
  note S = sim_huge_fallback [OF os Inl f this r]
  have "take_bit n a = 0" using S(1) c take_bit_take_bit [of n 30 a] by auto
  then show ?thesis using S a_below [OF S(3)] Inl L by simp
qed

lemma buffer_allocate_OK:
  assumes os: "os_laws os" and len: "take_bit 12 len = 0" "len \<noteq> 0" "len \<le> 2 ^ 63"
    and r: "buffer_allocate os lg len = (FPGA_OK, a, len', lg')" and lv: "ase_pt_length_to_level len' \<noteq> - 1"
    and L: "L = (case os_mmap os lg (2 * MB) FLAGS_2M of
      Inl _ \<Rightarrow> if len' = 2 * MB then GB else len' | Inr _ \<Rightarrow> len')"
  shows "a \<noteq> 0 \<and> a < 2 ^ 63 \<and> take_bit (ase_pt_level_to_bit_idx (nat (ase_pt_length_to_level len'))) a = 0 \<and>
    os_mapped lg' = os_mapped lg \<union> os_range a L \<and> os_mapped lg \<inter> os_range a L = {} \<and>
    len \<le> len' \<and> len' \<in> {4 * KB, 2 * MB, GB} \<and> round_iova_length len = len'"
proof -
  consider (G) "len > 2 * MB" | (M) "\<not> len > 2 * MB" "len > 4 * KB" | (K) "\<not> len > 2 * MB" "\<not> len > 4 * KB" by blast
  then show ?thesis
  proof cases
    case G
    have s: "sim_huge_mmap os lg len' FLAGS_1G = (Inr a, lg')" "(len + (GB - 1)) AND NOT (GB - 1) = len'"
      using r G by (auto simp: buffer_allocate_def Let_def split: sum.splits prod.splits if_splits)
    note R = round_up_GB [OF len(3) G s(2) lv]
    show ?thesis using sim_huge_mmap_OK [OF os _ s(1) refl, of 30] R L sizes_level
      by (auto simp: ase_pt_level_to_bit_idx_def GB_def MB_def KB_def split: sum.splits)
  next
    case M
    have s: "sim_huge_mmap os lg (2 * MB) FLAGS_2M = (Inr a, lg')" "len' = 2 * MB"
      using r M by (auto simp: buffer_allocate_def Let_def split: sum.splits prod.splits if_splits)
    show ?thesis using sim_huge_mmap_OK [OF os _ s(1) refl, of 21] s(2) M round_2MB [OF M] L sizes_level
      by (auto simp: ase_pt_level_to_bit_idx_def split: sum.splits)
  next
    case K
    have k: "len = 4 * KB" by (rule small_page [OF len(1,2) K(2)])
    have s: "do_mmap os lg len FLAGS_4K = (Inr a, lg')" "len' = len"
      using r K by (auto simp: buffer_allocate_def Let_def split: sum.splits prod.splits if_splits)
    note D = os_mmapD [OF os s(1)]
    have "L = len" using L s(2) k by (auto simp: MB_def KB_def split: sum.splits)
    then show ?thesis using D a_below [OF D(3)] s(2) k sizes_level
      by (simp add: ase_pt_level_to_bit_idx_def Int_commute)
  qed
qed

lemma buffer_release_mapped:
  assumes os: "os_laws os" and l: "len' \<in> {4 * KB, 2 * MB, GB}" and a: "take_bit 12 a = 0"
    and m: "os_range a len' \<subseteq> os_mapped lg"
  shows "\<exists>lg'. buffer_release os lg a len' = (FPGA_OK, lg') \<and> os_mapped lg' = os_mapped lg - os_range a len'"
proof -
  have "(if len' > 2 * MB then (len' + (GB - 1)) AND NOT (GB - 1)
     else if len' > 4 * KB then 2 * MB else len') = len'"
    using l by (auto simp: GB_def MB_def KB_def)
  then have "buffer_release os lg a len' =
      (if fst (do_munmap os lg a len') then FPGA_OK else FPGA_INVALID_PARAM, snd (do_munmap os lg a len'))"
    unfolding buffer_release_def by (simp add: split_beta)
  moreover have "take_bit 12 len' = 0" "len' \<noteq> 0" using l sizes_level by auto
  ultimately show ?thesis using os_munmapD [OF os a _ _ m] by auto
qed

section \<open>The calls\<close>

lemma api_okD:
  assumes "api_ok s" and "handles s h = Some hdl"
  shows "h \<noteq> 0" "\<not> h_lock hdl" "h_magic hdl = FPGA_HANDLE_MAGIC" "ws_ok (wsid_root hdl)"
    "afu_idx_ok (h_afu_idx hdl)" "hm_ok (api_hm s)" "\<not> ase_pt_lock (api_hm s)"
  using assms by (auto simp: api_ok_def)

lemma with_handle_open:
  assumes "api_ok s" and "handles s h = Some hdl"
  shows "with_handle h s err body =
    rbind (body (hdl\<lparr>h_lock := True\<rparr>) (set_handle h (hdl\<lparr>h_lock := True\<rparr>) s)) (\<lambda>(b, s). Inr (b, handle_unlock h s))"
  using api_okD [OF assms] assms(2) by (simp add: with_handle_def handle_check_and_lock_def set_handle_def)

lemma with_handle_body:
  assumes "api_ok s" and "with_handle h s err body = Inr (b, s')" and "\<And>r. r \<noteq> FPGA_OK \<Longrightarrow> b \<noteq> err r"
  obtains hdl where "handles s h = Some hdl"
  using assms by (auto simp: with_handle_def handle_check_and_lock_def api_ok_def split: if_splits option.splits)

lemma handle_unlock_set: "handle_unlock h (set_handle h hdl s) = set_handle h (hdl\<lparr>h_lock := False\<rparr>) s"
  by (simp add: handle_unlock_def set_handle_def)

lemma set_handle_same: "handles s h = Some hdl \<Longrightarrow> set_handle h hdl s = s"
  by (simp add: set_handle_def fun_upd_idem)

lemma handle_lock_cycle:
  assumes "handles s h = Some hdl" and "\<not> h_lock hdl"
  shows "handle_unlock h (set_handle h (hdl\<lparr>h_lock := True\<rparr>) s) = s"
proof -
  have "hdl\<lparr>h_lock := True, h_lock := False\<rparr> = hdl" using assms(2) by simp
  then show ?thesis using assms(1) by (simp add: handle_unlock_set set_handle_same)
qed

text \<open>The queries return what the tracker of the handle has for the id and change nothing.\<close>

lemma ws_find_get:
  assumes "ws_ok t"
  obtains q where "ws_ret (wsid_find t k) = Inr q"
    and "(q = 0 \<and> ws_stack t k = []) \<or> (q \<noteq> 0 \<and> ws_stack t k \<noteq> [] \<and> ws_get (ws_heap t) q = hd (ws_stack t k))"
  using wsid_find_stack [OF assms, of k] by (fastforce simp: ws_ret_def split: list.splits)

lemma GetIOAddress_eq:
  assumes "api_ok s" and "handles s h = Some hdl"
  shows "ase_fpgaGetIOAddress h wsid False s = Inr ((case ws_stack (wsid_root hdl) wsid of
     [] \<Rightarrow> (FPGA_NOT_FOUND, None) | e # _ \<Rightarrow> (FPGA_OK, Some (ws_phys e))), s)"
proof -
  note D = api_okD [OF assms]
  obtain q where q: "ws_ret (wsid_find (wsid_root hdl) wsid) = Inr q"
    "(q = 0 \<and> ws_stack (wsid_root hdl) wsid = []) \<or> (q \<noteq> 0 \<and> ws_stack (wsid_root hdl) wsid \<noteq> [] \<and>
      ws_get (ws_heap (wsid_root hdl)) q = hd (ws_stack (wsid_root hdl) wsid))"
    by (rule ws_find_get [OF D(4)])
  show ?thesis
    using q(2) by (auto simp: ase_fpgaGetIOAddress_def with_handle_open [OF assms] q(1)
        handle_lock_cycle [OF assms(2) D(2)] split: list.splits)
qed

lemma GetWSInfo_eq:
  assumes "api_ok s" and "handles s h = Some hdl"
  shows "ase_fpgaGetWSInfo h wsid False False False s = Inr ((case ws_stack (wsid_root hdl) wsid of
     [] \<Rightarrow> (FPGA_INVALID_PARAM, None) | e # _ \<Rightarrow> (FPGA_OK, Some (ws_addr e, ws_phys e, ws_len e))), s)"
proof -
  note D = api_okD [OF assms]
  obtain q where q: "ws_ret (wsid_find (wsid_root hdl) wsid) = Inr q"
    "(q = 0 \<and> ws_stack (wsid_root hdl) wsid = []) \<or> (q \<noteq> 0 \<and> ws_stack (wsid_root hdl) wsid \<noteq> [] \<and>
      ws_get (ws_heap (wsid_root hdl)) q = hd (ws_stack (wsid_root hdl) wsid))"
    by (rule ws_find_get [OF D(4)])
  show ?thesis
    using q(2) by (auto simp: ase_fpgaGetWSInfo_def with_handle_open [OF assms] q(1) Let_def
        handle_lock_cycle [OF assms(2) D(2)] split: list.splits)
qed

text \<open>What a successful \<open>ase_fpgaPrepareBuffer\<close> of a new buffer did.\<close>

definition page_round :: "u64 \<Rightarrow> u64" where
  "page_round len = (if len AND 4095 \<noteq> 0 then 4096 + (len AND NOT 4095) else len)"

definition iova_taken :: "'al \<Rightarrow> 'al hm_state \<Rightarrow> 'al hm_state" where
  "iova_taken al hm = hm\<lparr>iova_mem_alloc := al, cached_page_len_valid := False\<rparr>"

lemma iova_taken_simps [simp]:
  "hm_ok (iova_taken al hm) = hm_ok hm" "hm_entry (iova_taken al hm) = hm_entry hm"
  "ase_pt_lock (iova_taken al hm) = ase_pt_lock hm"
proof -
  have "hm_root (iova_taken al hm) = hm_root hm" "hm_mem (iova_taken al hm) = hm_mem hm"
    by (simp_all add: hm_root_def iova_taken_def fun_eq_iff split: option.split)
  from hm_same [OF this(2,1)]
  show "hm_ok (iova_taken al hm) = hm_ok hm" "hm_entry (iova_taken al hm) = hm_entry hm" by simp_all
  show "ase_pt_lock (iova_taken al hm) = ase_pt_lock hm" by (simp add: iova_taken_def)
qed

lemma prepare_OK:
  assumes ok: "api_ok s" and pg: "os_page_size os = 4096" and nf: "flags AND BUF_PREALLOCATED os = 0"
    and r: "ase_fpgaPrepareBuffer os ma mm malloc h len buf False flags s = Inr ((FPGA_OK, Some addr, Some i), s')"
  obtains hdl iova al hm lg len' where "handles s h = Some hdl" and "len \<noteq> 0"
    and "mem_alloc_get ma (iova_mem_alloc (api_hm s)) (round_iova_length len) = (0, iova, al)"
    and "buffer_allocate os (os_log s) (page_round len) = (FPGA_OK, addr, len', lg)"
    and "ase_host_memory_pin mm (iova_taken al (api_hm s)) (h_afu_idx hdl) addr iova len' = Inr (0, hm)"
    and "s' = (set_handle h (hdl\<lparr>wsid_root := wsid_add malloc (wsid_root hdl)
         \<lparr>ws_wsid = i, ws_addr = addr, ws_phys = iova, ws_len = len', ws_offset = 0, ws_index = 0, ws_flags = flags\<rparr>\<rparr>) s)
       \<lparr>api_hm := hm, os_log := lg, wsid_ctr := wsid_ctr s + 1\<rparr>"
proof -
  obtain hdl where h: "handles s h = Some hdl"
    using r unfolding ase_fpgaPrepareBuffer_def Let_def by (rule with_handle_body [OF ok]) auto
  note D = api_okD [OF ok h]
  obtain st iova al where g: "mem_alloc_get ma (iova_mem_alloc (api_hm s)) (round_iova_length len) = (st, iova, al)"
    by (cases "mem_alloc_get ma (iova_mem_alloc (api_hm s)) (round_iova_length len)") auto
  have a: "ase_host_memory_alloc_iova ma (api_hm s) len = Inr (st, iova, iova_taken al (api_hm s))"
    using D(7) g by (simp add: ase_host_memory_alloc_iova_def hm_lock_def Let_def iova_taken_def
        ase_host_memory_unlock_def)
  obtain rr ad len' lg where b: "buffer_allocate os (os_log s) (page_round len) = (rr, ad, len', lg)"
    by (cases "buffer_allocate os (os_log s) (page_round len)") auto
  let ?hl = "hdl\<lparr>h_lock := True\<rparr>"
  define s1 where "s1 = (set_handle h ?hl s)\<lparr>api_hm := iova_taken al (api_hm s), os_log := lg\<rparr>"
  have l: "st = 0" "len \<noteq> 0" "rr = FPGA_OK"
    using r nf a b pg unfolding ase_fpgaPrepareBuffer_def with_handle_open [OF ok h] Let_def page_round_def
    by (auto simp: set_handle_def split: if_splits)
  have p: "rbind (prepare_pin os mm malloc h ?hl False flags ad iova len' s1) (\<lambda>(b, s). Inr (b, handle_unlock h s)) =
      Inr ((FPGA_OK, Some addr, Some i), s')"
    using r nf a b pg l unfolding ase_fpgaPrepareBuffer_def with_handle_open [OF ok h] Let_def page_round_def
    by (auto simp: set_handle_def s1_def split: if_splits)
  then obtain hm where hm: "ase_host_memory_pin mm (iova_taken al (api_hm s)) (h_afu_idx hdl) ad iova len' = Inr (0, hm)"
    by (auto simp: prepare_pin_def s1_def Let_def split: if_splits)
  have "ad = addr" using p hm by (auto simp: prepare_pin_def s1_def Let_def wsid_gen_def split: prod.splits)
  moreover have u: "hdl\<lparr>wsid_root := t, h_lock := False\<rparr> = hdl\<lparr>wsid_root := t\<rparr>" for t
    by (rule fpga_handle.equality) (use D(2) in simp_all)
  moreover have "s' = (set_handle h (hdl\<lparr>wsid_root := wsid_add malloc (wsid_root hdl)
         \<lparr>ws_wsid = i, ws_addr = addr, ws_phys = iova, ws_len = len', ws_offset = 0, ws_index = 0, ws_flags = flags\<rparr>\<rparr>) s)
       \<lparr>api_hm := hm, os_log := lg, wsid_ctr := wsid_ctr s + 1\<rparr>"
    using p hm by (intro api_state.equality)
      (auto simp: prepare_pin_def s1_def Let_def wsid_gen_def handle_unlock_def set_handle_def u)
  ultimately show ?thesis using that [OF h l(2) _ _ _] g b hm l by blast
qed

lemma page_round:
  assumes "len \<noteq> 0" and "len \<le> 2 ^ 63"
  shows "take_bit 12 (page_round len) = 0" "page_round len \<noteq> 0" "page_round len \<le> 2 ^ 63" "len \<le> page_round len"
proof -
  define m where "m = unat len div 2 ^ 12 * 2 ^ 12"
  have ul: "unat len \<le> 2 ^ 63" "0 < unat len"
    using assms by (simp_all add: word_le_nat_alt unat_exp_u64 unat_gt_0)
  have um: "unat (len AND NOT 4095) = m" using unat_round_down [of 12 len] by (simp add: m_def)
  have t: "take_bit 12 len = len AND 4095" by (simp add: take_bit_eq_mask mask_eq_exp_minus_1)
  have tz: "take_bit 12 w = 0 \<longleftrightarrow> unat w mod 2 ^ 12 = 0" for w :: u64
    by (metis take_bit_eq_mod unsigned_0 unsigned_take_bit_eq unsigned_eq_0_iff)
  have mm: "unat len mod 2 ^ 12 + m = unat len" by (simp add: m_def)
  have u: "unat (page_round len) = (if unat len mod 2 ^ 12 = 0 then unat len else 2 ^ 12 + m)"
    using um ul mm tz [of len] unfolding page_round_def t [symmetric] by (auto simp: unat_plus_if')
  have m0: "m mod 2 ^ 12 = 0" by (simp add: m_def)
  have "2 ^ 12 + m \<le> 2 ^ 63" if "unat len mod 2 ^ 12 \<noteq> 0"
  proof -
    have "m < 2 ^ 63" using mm that ul by linarith
    moreover have "(2 ^ 63 :: nat) mod 2 ^ 12 = 0" by simp
    ultimately show ?thesis using m0 by (simp add: m_def)
  qed
  then show "page_round len \<le> 2 ^ 63" using u ul by (simp add: word_le_nat_alt unat_exp_u64 split: if_splits)
  show "take_bit 12 (page_round len) = 0" unfolding tz u using m0 by simp
  have "unat len mod 2 ^ 12 < 2 ^ 12" by simp
  then show "len \<le> page_round len" using u mm unfolding word_le_nat_alt by (simp split: if_splits)
  then show "page_round len \<noteq> 0" using assms(1) by auto
qed

text \<open>The tracker entry of a new buffer, and the state that \<open>ase_fpgaPrepareBuffer\<close> leaves.\<close>

definition new_entry :: "u64 \<Rightarrow> u64 \<Rightarrow> u64 \<Rightarrow> u64 \<Rightarrow> u32 \<Rightarrow> ws_entry" where
  "new_entry i addr iova len flags = \<lparr>ws_wsid = i, ws_addr = addr, ws_phys = iova, ws_len = len,
     ws_offset = 0, ws_index = 0, ws_flags = flags\<rparr>"

definition mapped_len :: "os_ops \<Rightarrow> os_call list \<Rightarrow> u64 \<Rightarrow> u64" where
  "mapped_len os lg len = (case os_mmap os lg (2 * MB) FLAGS_2M of
     Inl _ \<Rightarrow> if len = 2 * MB then GB else len | Inr _ \<Rightarrow> len)"

definition prepared :: "os_ops \<Rightarrow> u32 \<Rightarrow> nat \<Rightarrow> u64 \<Rightarrow> u64 \<Rightarrow> u64 \<Rightarrow> 'al api_state \<Rightarrow> 'al api_state \<Rightarrow>
    fpga_handle \<Rightarrow> fpga_handle \<Rightarrow> u64 \<Rightarrow> u64 \<Rightarrow> nat \<Rightarrow> u64 \<Rightarrow> bool" where
  "prepared os flags h len addr i s s' hdl hdl' iova len' k e' \<longleftrightarrow>
     (handles s h = Some hdl \<and> handles s' h = Some hdl' \<and> api_ok s' \<and> h_afu_idx hdl' = h_afu_idx hdl \<and>
      (\<forall>j. j \<noteq> h \<longrightarrow> handles s' j = handles s j) \<and>
      (\<forall>j. ws_stack (wsid_root hdl') j = (if j = i then new_entry i addr iova len' flags # ws_stack (wsid_root hdl) j
         else ws_stack (wsid_root hdl) j))) \<and>
     (k = nat (ase_pt_length_to_level len') \<and> len \<le> len' \<and> len' \<in> {4 * KB, 2 * MB, GB} \<and>
      addr \<noteq> 0 \<and> addr < 2 ^ 63 \<and> take_bit (ase_pt_level_to_bit_idx k) addr = 0) \<and>
     (pinned_entry k (hm_entry (api_hm s) (Some (nat (h_afu_idx hdl))) iova) addr = Inr e' \<and>
      (\<forall>y x. hm_entry (api_hm s') y x = (if y = Some (nat (h_afu_idx hdl)) \<and> same_page 3 k iova x then Some (k, e')
         else hm_entry (api_hm s) y x))) \<and>
     (os_mapped (os_log s') = os_mapped (os_log s) \<union> os_range addr (mapped_len os (os_log s) len') \<and>
      os_mapped (os_log s) \<inter> os_range addr (mapped_len os (os_log s) len') = {})"

lemma preparedD:
  assumes "prepared os flags h len addr i s s' hdl hdl' iova len' k e'"
  shows "handles s h = Some hdl" "handles s' h = Some hdl'" "api_ok s'" "h_afu_idx hdl' = h_afu_idx hdl"
    "\<And>j. j \<noteq> h \<Longrightarrow> handles s' j = handles s j"
    "\<And>j. ws_stack (wsid_root hdl') j = (if j = i then new_entry i addr iova len' flags # ws_stack (wsid_root hdl) j
       else ws_stack (wsid_root hdl) j)"
  and preparedD2: "k = nat (ase_pt_length_to_level len')" "len \<le> len'" "len' \<in> {4 * KB, 2 * MB, GB}"
    "addr \<noteq> 0" "addr < 2 ^ 63" "take_bit (ase_pt_level_to_bit_idx k) addr = 0"
  and preparedD3: "pinned_entry k (hm_entry (api_hm s) (Some (nat (h_afu_idx hdl))) iova) addr = Inr e'"
    "\<And>y x. hm_entry (api_hm s') y x = (if y = Some (nat (h_afu_idx hdl)) \<and> same_page 3 k iova x then Some (k, e')
       else hm_entry (api_hm s) y x)"
  and preparedD4: "os_mapped (os_log s') = os_mapped (os_log s) \<union> os_range addr (mapped_len os (os_log s) len')"
    "os_mapped (os_log s) \<inter> os_range addr (mapped_len os (os_log s) len') = {}"
  using assms unfolding prepared_def by blast+

lemma prepare_state:
  assumes ok: "api_ok s" and os: "os_laws os" "os_page_size os = 4096" and mm: "mmap_fresh mm" and ml: "malloc_fresh malloc"
    and nf: "flags AND BUF_PREALLOCATED os = 0" and len: "len \<le> 2 ^ 63"
    and r: "ase_fpgaPrepareBuffer os ma mm malloc h len buf False flags s = Inr ((FPGA_OK, Some addr, Some i), s')"
  obtains hdl hdl' iova len' k e' where "prepared os flags h len addr i s s' hdl hdl' iova len' k e'"
proof -
  obtain hdl iova al hm lg len' where h: "handles s h = Some hdl" and l0: "len \<noteq> 0"
    and b: "buffer_allocate os (os_log s) (page_round len) = (FPGA_OK, addr, len', lg)"
    and pin: "ase_host_memory_pin mm (iova_taken al (api_hm s)) (h_afu_idx hdl) addr iova len' = Inr (0, hm)"
    and s': "s' = (set_handle h (hdl\<lparr>wsid_root := wsid_add malloc (wsid_root hdl)
         \<lparr>ws_wsid = i, ws_addr = addr, ws_phys = iova, ws_len = len', ws_offset = 0, ws_index = 0, ws_flags = flags\<rparr>\<rparr>) s)
       \<lparr>api_hm := hm, os_log := lg, wsid_ctr := wsid_ctr s + 1\<rparr>"
    by (rule prepare_OK [OF ok os(2) nf r])
  note D = api_okD [OF ok h]
  note P = page_round [OF l0 len]
  have tk: "hm_ok (iova_taken al (api_hm s))" "hm_entry (iova_taken al (api_hm s)) = hm_entry (api_hm s)"
    using D(6) by simp_all
  note H = host_pin_done [OF tk(1) mm pin]
  have lv: "ase_pt_length_to_level len' \<noteq> - 1" using H(3) by simp
  define k where "k = nat (ase_pt_length_to_level len')"
  obtain e' where e': "pinned_entry k (hm_entry (api_hm s) (Some (nat (h_afu_idx hdl))) iova) addr = Inr e'"
    "\<And>y x. hm_entry hm y x = (if y = Some (nat (h_afu_idx hdl)) \<and> same_page 3 k iova x then Some (k, e')
       else hm_entry (api_hm s) y x)"
    using H(5) unfolding tk(2) k_def by blast
  note B = buffer_allocate_OK [OF os(1) P(1,2,3) b lv refl]
  define t where "t = wsid_add malloc (wsid_root hdl) (new_entry i addr iova len' flags)"
  note W = wsid_add_ok [OF D(4) ml t_def]
  have hs: "handles s' = (handles s)(h \<mapsto> hdl\<lparr>wsid_root := t\<rparr>)" using s' by (simp add: set_handle_def t_def new_entry_def)
  have "api_ok s'"
    using ok H(1,2) W(1) D s' hs by (auto simp: api_ok_def)
  have st: "ws_stack t j = (if j = i then new_entry i addr iova len' flags # ws_stack (wsid_root hdl) j
      else ws_stack (wsid_root hdl) j)" for j using W(2) [of j] by (simp add: new_entry_def)
  have "prepared os flags h len addr i s s' hdl (hdl\<lparr>wsid_root := t\<rparr>) iova len' k e'"
    unfolding prepared_def mapped_len_def using h hs st B e' s' P(4) \<open>api_ok s'\<close> by (auto simp: k_def)
  then show ?thesis by (rule that)
qed

text \<open>Releasing a buffer whose entry is the newest of its id and whose page is pinned.\<close>

lemma release_OK:
  assumes ok: "api_ok s" and os: "os_laws os" and h: "handles s h = Some hdl"
    and st: "ws_stack (wsid_root hdl) i = e # es"
    and e: "ws_flags e AND BUF_PREALLOCATED os = 0" "ws_len e \<in> {4 * KB, 2 * MB, GB}" "take_bit 12 (ws_addr e) = 0"
    and k: "k = nat (ase_pt_length_to_level (ws_len e))"
    and ent: "hm_entry (api_hm s) (Some (nat (h_afu_idx hdl))) (ws_phys e) = Some (k, pe)"
    and v: "ase_pt_decr_refcnt pe = Inr (v, c)" and m: "os_range (ws_addr e) (ws_len e) \<subseteq> os_mapped (os_log s)"
  shows "\<exists>s' hdl'. ase_fpgaReleaseBuffer os ma h i s = Inr (FPGA_OK, s') \<and> api_ok s' \<and> handles s' = (handles s)(h \<mapsto> hdl') \<and>
    h_afu_idx hdl' = h_afu_idx hdl \<and>
    (\<forall>j. ws_stack (wsid_root hdl') j = (if j = i then es else ws_stack (wsid_root hdl) j)) \<and>
    os_mapped (os_log s') = os_mapped (os_log s) - os_range (ws_addr e) (ws_len e) \<and>
    (\<forall>y x. hm_entry (api_hm s') y x = (if y = Some (nat (h_afu_idx hdl)) \<and> same_page 3 k (ws_phys e) x
       then unpinned_entry k v else hm_entry (api_hm s) y x))"
proof -
  note D = api_okD [OF ok h]
  obtain q where q: "ws_ret (wsid_find (wsid_root hdl) i) = Inr q" "q \<noteq> 0" "ws_get (ws_heap (wsid_root hdl)) q = e"
    by (rule ws_find_get [OF D(4), of i]) (auto simp: st)
  obtain st2 al where al: "mem_alloc_put ma (iova_mem_alloc (api_hm s)) (ws_phys e) = (st2, al)" by fastforce
  have fr: "ase_host_memory_free_iova ma (api_hm s) (ws_phys e) = Inr (st2, iova_taken al (api_hm s))"
    using D(7) al by (simp add: ase_host_memory_free_iova_def hm_lock_def Let_def iova_taken_def ase_host_memory_unlock_def)
  have lv: "ase_pt_length_to_level (ws_len e) \<noteq> - 1" using e(2) sizes_level by auto
  obtain hm where un: "ase_host_memory_unpin (iova_taken al (api_hm s)) (h_afu_idx hdl) (ws_phys e) (ws_len e) = Inr (0, hm)"
    and hm: "hm_ok hm" "\<not> ase_pt_lock hm"
    and he: "\<And>y x. hm_entry hm y x = (if y = Some (nat (h_afu_idx hdl)) \<and> same_page 3 k (ws_phys e) x
       then unpinned_entry k v else hm_entry (api_hm s) y x)"
    using host_unpin_done [of "iova_taken al (api_hm s)" "h_afu_idx hdl" "ws_len e" k "ws_phys e" pe v c] D lv k ent v by auto
  obtain lg where lg: "buffer_release os (os_log s) (ws_addr e) (ws_len e) = (FPGA_OK, lg)"
    "os_mapped lg = os_mapped (os_log s) - os_range (ws_addr e) (ws_len e)"
    using buffer_release_mapped [OF os e(2,3) m] by blast
  obtain t where t: "wsid_del (wsid_root hdl) i = Some (Inr (True, t))" "ws_ok t"
    "\<And>j. ws_stack t j = (if j = i then es else ws_stack (wsid_root hdl) j)"
    using wsid_del_stack [OF D(4), of i] by (auto simp: st)
  define s' where "s' = (set_handle h (hdl\<lparr>wsid_root := t\<rparr>) s)\<lparr>api_hm := hm, os_log := lg\<rparr>"
  have u: "hdl\<lparr>wsid_root := t, h_lock := False\<rparr> = hdl\<lparr>wsid_root := t\<rparr>"
    by (rule fpga_handle.equality) (use D(2) in simp_all)
  have "ase_fpgaReleaseBuffer os ma h i s = Inr (FPGA_OK,
      handle_unlock h (set_handle h (hdl\<lparr>h_lock := True, wsid_root := t\<rparr>)
        ((set_handle h (hdl\<lparr>h_lock := True\<rparr>) s)\<lparr>api_hm := hm, os_log := lg\<rparr>)))"
    using q fr un lg(1) t(1) e(1)
    by (simp add: ase_fpgaReleaseBuffer_def with_handle_open [OF ok h] Let_def ws_ret_def set_handle_def)
  also have "handle_unlock h (set_handle h (hdl\<lparr>h_lock := True, wsid_root := t\<rparr>)
        ((set_handle h (hdl\<lparr>h_lock := True\<rparr>) s)\<lparr>api_hm := hm, os_log := lg\<rparr>)) = s'"
    by (rule api_state.equality) (simp_all add: handle_unlock_def set_handle_def s'_def u)
  finally have r: "ase_fpgaReleaseBuffer os ma h i s = Inr (FPGA_OK, s')" .
  have hs: "handles s' = (handles s)(h \<mapsto> hdl\<lparr>wsid_root := t\<rparr>)" by (simp add: s'_def set_handle_def)
  have "api_ok s'" using ok hm t(2) D hs by (auto simp: api_ok_def s'_def)
  then show ?thesis using r hs t(3) lg(2) he
    by (intro exI [of _ s'] exI [of _ "hdl\<lparr>wsid_root := t\<rparr>"]) (simp add: s'_def)
qed

text \<open>The first pin of a page gives an entry with one reference.\<close>

lemma first_pin_entry:
  assumes "pinned_entry k old va = Inr e'" and "lookup_result old = (0, - 1)"
  obtains v c where "ase_pt_decr_refcnt e' = Inr (v, c)" and "lookup_result (unpinned_entry k v) = (0, - 1)"
proof -
  define e where "e = (case old of Some (k', e) \<Rightarrow> if k' = k then e else 0 | None \<Rightarrow> 0)"
  from assms(1) obtain v1 c1 where i: "ase_pt_incr_refcnt e = Inr (v1, c1)" "e' = ase_pt_set_addr v1 va"
    unfolding pinned_entry_def e_def [symmetric] by auto
  have z: "ase_pt_get_refcnt 0 = 0" by (simp add: ase_pt_get_refcnt_def)
  have e: "ase_pt_get_refcnt e = 0"
    using assms(2) z by (auto simp: e_def lookup_result_def split: option.splits if_splits)
  have e': "ase_pt_get_refcnt e' = 1" "ase_pt_entry_is_terminal e'" using incr_refcnt_Inr [OF i(1)] i e by simp_all
  then obtain v c where v: "ase_pt_decr_refcnt e' = Inr (v, c)" by (simp add: decr_refcnt_cases)
  then have "ase_pt_get_refcnt v = 0" using decr_refcnt_Inr [OF v] e' by simp
  with v show ?thesis using that by (simp add: unpinned_entry_def lookup_result_def)
qed

section \<open>Properties\<close>


text \<open>
  A system with one free range for huge pages or, in the second variant, none.
\<close>

definition demo_os :: "bool \<Rightarrow> os_ops" where
  "demo_os huge = \<lparr>os_mmap = (\<lambda>lg len flags.
       if len = 2 * MB \<and> flags = FLAGS_2M \<and> huge \<and> lg = [] then Inr 0x7f0000200000
       else if len = GB + GB \<and> flags AND MAP_HUGETLB = 0 \<and> lg = [Mmap (2 * MB) FLAGS_2M (Inl 12)]
       then Inr 0x7e0000000000 else Inl 12),
     os_munmap = (\<lambda>lg a len. True), os_maps = (\<lambda>_. None), os_smaps = (\<lambda>_. None),
     os_page_size = 4096, os_pid = 7, BUF_PREALLOCATED = 1, BUF_QUIET = 2\<rparr>"

lemma demo_os_laws: "os_laws (demo_os huge)"
  by (auto simp: os_laws_def demo_os_def os_range_def unat_sizes flags_values split: if_splits)
    (simp_all add: GB_def MB_def KB_def unat_plus_if' os_mapped_def)

definition demo_ma :: "unit mem_alloc" where
  "demo_ma = \<lparr>mem_alloc_init = (), mem_alloc_destroy = id, mem_alloc_add_free = (\<lambda>_ _ _. ()),
     mem_alloc_get = (\<lambda>_ _. (0, 0x40000000, ())), mem_alloc_put = (\<lambda>_ _. (0, ()))\<rparr>"

definition demo_handle :: fpga_handle where
  "demo_handle = \<lparr>h_lock = False, h_magic = FPGA_HANDLE_MAGIC, h_token = 0,
     wsid_root = the (wsid_tracker_init 16384), h_pasid = 0, h_afu_idx = 0\<rparr>"

definition demo_api :: "unit api_state" where
  "demo_api = \<lparr>api_hm = demo_hm, os_log = [], handles = [1 \<mapsto> demo_handle], wsid_ctr = 0,
     process_pasid = 0, n_tested = 0\<rparr>"

lemma demo_api_ok: "api_ok demo_api" "handles demo_api 1 = Some demo_handle"
proof -
  obtain t where t: "wsid_tracker_init 16384 = Some t" by (simp add: wsid_tracker_init_def)
  have "ws_ok t" by (rule wsid_tracker_init_ok(1) [OF t])
  then show "api_ok demo_api" "handles demo_api 1 = Some demo_handle"
    using demo_hm_ok t
    by (auto simp: api_ok_def demo_api_def demo_handle_def afu_idx_ok_def ASE_MAX_TOKENS_def split: if_splits)
qed

lemma demo_prepare:
  "\<exists>s'. ase_fpgaPrepareBuffer (demo_os True) demo_ma demo_mmap lowest_free 1 5000 (Some 0) False 0 demo_api =
     Inr ((FPGA_OK, Some 0x7f0000200000, Some 0x70000000000), s')"
proof -
  obtain hm where hm: "ase_host_memory_pin demo_mmap demo_hm 0 0x7f0000200000 0x40000000 (2 * MB) = Inr (0, hm)"
    using demo_host_pin by blast
  have "demo_hm\<lparr>iova_mem_alloc := (), cached_page_len_valid := False, ase_pt_lock := False\<rparr> = demo_hm"
    by (simp add: demo_hm_def)
  then have a: "ase_host_memory_alloc_iova demo_ma demo_hm 5000 = Inr (0, 0x40000000, demo_hm)"
    using demo_hm_ok(2) by (simp add: ase_host_memory_alloc_iova_def hm_lock_def demo_ma_def
        ase_host_memory_unlock_def Let_def)
  have b: "buffer_allocate (demo_os True) [] 8192 = (FPGA_OK, 0x7f0000200000, 2 * MB, [Mmap (2 * MB) FLAGS_2M (Inr 0x7f0000200000)])"
    by (simp add: buffer_allocate_def sim_huge_mmap_def do_mmap_def demo_os_def Let_def MB_def KB_def)
  have o: "BUF_PREALLOCATED (demo_os True) = 1" "BUF_QUIET (demo_os True) = 2" "os_page_size (demo_os True) = 4096"
    "os_pid (demo_os True) = 7" by (simp_all add: demo_os_def)
  have d: "api_hm demo_api = demo_hm" "os_log demo_api = []" "h_afu_idx demo_handle = 0" "wsid_ctr demo_api = 0"
    by (simp_all add: demo_api_def demo_handle_def)
  show ?thesis
    unfolding ase_fpgaPrepareBuffer_def with_handle_open [OF demo_api_ok] Let_def
    by (simp add: o d a b hm prepare_pin_def wsid_gen_def set_handle_def Let_def)
qed








text \<open>
  A refused call of \<open>ase_fpgaPrepareBuffer\<close> keeps an IOVA range. The range is taken before
  the preallocated buffer is checked and is not given back: the call that asks only whether
  preallocated buffers are supported, and the call with a length that is not a multiple of
  the page size, leave the allocator without the range and change nothing else.
\<close>

theorem prepare_refused_keeps_iova:
  assumes "api_ok s" and "handles s h = Some hdl" and "os_page_size os = 4096"
    and "flags AND BUF_PREALLOCATED os \<noteq> 0" and "flags AND NOT (BUF_PREALLOCATED os OR BUF_QUIET os) = 0"
    and "mem_alloc_get ma (iova_mem_alloc (api_hm s)) (round_iova_length len) = (0, iova, al)"
    and "buf = None \<and> len = 0 \<or> buf = Some a \<and> len AND 4095 \<noteq> 0"
  shows "ase_fpgaPrepareBuffer os ma mm malloc h len buf False flags s =
    Inr ((if buf = None then FPGA_OK else FPGA_INVALID_PARAM, None, None),
      s\<lparr>api_hm := (api_hm s)\<lparr>iova_mem_alloc := al, cached_page_len_valid := False\<rparr>\<rparr>)"
proof -
  note D = api_okD [OF assms(1,2)]
  have a: "ase_host_memory_alloc_iova ma (api_hm s) len = Inr (0, iova, iova_taken al (api_hm s))"
    using D(7) assms(6) by (simp add: ase_host_memory_alloc_iova_def hm_lock_def Let_def iova_taken_def
        ase_host_memory_unlock_def)
  have "ase_fpgaPrepareBuffer os ma mm malloc h len buf False flags s =
    Inr ((if buf = None then FPGA_OK else FPGA_INVALID_PARAM, None, None),
      handle_unlock h ((set_handle h (hdl\<lparr>h_lock := True\<rparr>) s)\<lparr>api_hm := iova_taken al (api_hm s)\<rparr>))"
    using assms(3-5,7) unfolding ase_fpgaPrepareBuffer_def with_handle_open [OF assms(1,2)] Let_def
    by (auto simp: a set_handle_def)
  moreover have "handle_unlock h ((set_handle h (hdl\<lparr>h_lock := True\<rparr>) s)\<lparr>api_hm := iova_taken al (api_hm s)\<rparr>) =
      s\<lparr>api_hm := (api_hm s)\<lparr>iova_mem_alloc := al, cached_page_len_valid := False\<rparr>\<rparr>"
  proof -
    have "hdl\<lparr>h_lock := False\<rparr> = hdl" by (rule fpga_handle.equality) (use D(2) in simp_all)
    then show ?thesis
      using assms(2) by (intro api_state.equality) (simp_all add: handle_unlock_def set_handle_def iova_taken_def fun_upd_idem)
  qed
  ultimately show ?thesis by simp
qed

theorem prepare_refused_keeps_iova_witness:
  "ase_fpgaPrepareBuffer (demo_os True) demo_ma demo_mmap lowest_free 1 0 None False 1 demo_api =
     Inr ((FPGA_OK, None, None),
       demo_api\<lparr>api_hm := demo_hm\<lparr>iova_mem_alloc := (), cached_page_len_valid := False\<rparr>\<rparr>)"
  using prepare_refused_keeps_iova [OF demo_api_ok, of "demo_os True" 1 demo_ma 0 "0x40000000" "()" None 0 demo_mmap lowest_free]
  by (simp add: demo_os_def demo_ma_def demo_api_def)

text \<open>
  The rounding of the length can overflow. For a length within 1 GB of the largest
  64 bit value the rounded length is 0; \<open>buffer_allocate\<close> then falls back, unmaps all that it
  mapped, and reports success with a length of 0 and an address where nothing is mapped.
\<close>

theorem buffer_length_overflow:
  assumes "os_laws os" and "len > - GB" and "buffer_allocate os lg len = (FPGA_OK, a, len', lg')"
  shows "len' = 0 \<and> os_mapped lg' = os_mapped lg"
proof -
  have g: "len > 2 * MB"
    using assms(2) by (simp add: GB_def MB_def KB_def word_less_nat_alt)
  have "(len + (GB - 1)) AND NOT (GB - 1) = 0"
  proof -
    have "unat len > 2 ^ 64 - 2 ^ 30" using assms(2) by (simp add: GB_def MB_def KB_def word_less_nat_alt)
    then have "unat (len + (GB - 1)) < 2 ^ 30"
      using unat_bound [of len] by (simp add: GB_def MB_def KB_def unat_plus_if')
    then show ?thesis
      using unat_round_down [of 30 "len + (GB - 1)"] by (simp add: GB_def MB_def KB_def word_unat_eq_iff)
  qed
  then have s: "sim_huge_mmap os lg 0 FLAGS_1G = (Inr a, lg')" "len' = 0"
    using assms(3) g by (auto simp: buffer_allocate_def Let_def split: sum.splits prod.splits if_splits)
  obtain e where e: "os_mmap os lg 0 FLAGS_1G = Inl e"
    using assms(1) unfolding os_laws_def by (metis sum.exhaust)
  have "os_mapped lg' = os_mapped lg \<union> os_range a 0"
    by (rule sim_huge_fallback(4) [OF assms(1) e flags_values(1) _ _ _ s(1)]) (simp_all add: GB_def MB_def KB_def)
  then show ?thesis using s(2) by (simp add: os_range_def)
qed

theorem buffer_length_overflow_witness:
  "\<exists>os lg'. os_laws os \<and> buffer_allocate os [] (- 1) = (FPGA_OK, 0x7e0040000000, 0, lg') \<and> os_mapped lg' = {}"
proof -
  define os where "os = (demo_os False)\<lparr>os_mmap := (\<lambda>lg len flags. if len = GB \<and> lg = [Mmap 0 FLAGS_1G (Inl 22)] \<and>
    flags AND MAP_HUGETLB = 0 then Inr 0x7e0000000000 else Inl 22)\<rparr>"
  have l: "os_laws os"
    by (auto simp: os_laws_def os_def demo_os_def os_range_def unat_sizes split: if_splits)
      (simp_all add: GB_def MB_def KB_def os_mapped_def)
  obtain lg' where a: "buffer_allocate os [] (- 1) = (FPGA_OK, 0x7e0040000000, 0, lg')"
    by (simp add: os_def buffer_allocate_def sim_huge_mmap_def do_mmap_def do_munmap_def demo_os_def Let_def GB_def MB_def KB_def
        FLAGS_1G_def FLAGS_4K_def MAP_1G_HUGEPAGE_def MAP_HUGETLB_def)
  show ?thesis using l a buffer_length_overflow [OF l _ a] by (auto simp: GB_def MB_def KB_def)
qed

end
