(* ===== verification/Tag_Pool.thy ===== *)
theory Tag_Pool
  imports ASE_Prelude
begin

text \<open>
  The contract that the allocators of small integer tags share: the invalidation tags of
  \<open>ase_pcie_ats.c\<close>, the MMIO scoreboard slots of \<open>app_backend.c\<close> and the DMA read
  trackers of \<open>pcie_ss_tlp_stream.c\<close>. A provider says which tags are busy, and the lemmas of
  the locale show what a client may rely on: outstanding tags are distinct, and exactly as
  many requests as there are idle tags can be outstanding.
\<close>

fun alloc_many :: "('s \<Rightarrow> (nat \<times> 's) option) \<Rightarrow> nat \<Rightarrow> 's \<Rightarrow> (nat list \<times> 's) option" where
  "alloc_many alloc 0 s = Some ([], s)"
| "alloc_many alloc (Suc n) s = (case alloc s of
      None \<Rightarrow> None
    | Some (t, s') \<Rightarrow> map_option (\<lambda>(ts, s''). (t # ts, s'')) (alloc_many alloc n s'))"

locale tag_pool =
  fixes tags :: "nat set" and ok :: "'s \<Rightarrow> bool" and busy :: "'s \<Rightarrow> nat set"
    and alloc :: "'s \<Rightarrow> (nat \<times> 's) option" and free :: "'s \<Rightarrow> nat \<Rightarrow> 's"
  assumes finite_tags: "finite tags"
    and busy_tags: "ok s \<Longrightarrow> busy s \<subseteq> tags"
    and alloc_Some: "ok s \<Longrightarrow> alloc s = Some (t, s') \<Longrightarrow>
      t \<in> tags \<and> t \<notin> busy s \<and> busy s' = insert t (busy s) \<and> ok s'"
    and alloc_None: "ok s \<Longrightarrow> alloc s = None \<longleftrightarrow> busy s = tags"
    and free_busy: "ok s \<Longrightarrow> t \<in> busy s \<Longrightarrow> busy (free s t) = busy s - {t} \<and> ok (free s t)"
begin

lemma alloc_many_distinct:
  assumes "ok s" and "alloc_many alloc n s = Some (ts, s')"
  shows "distinct ts \<and> length ts = n \<and> set ts \<inter> busy s = {} \<and> busy s' = set ts \<union> busy s \<and> ok s'"
  using assms
proof (induction n arbitrary: s ts)
  case (Suc n)
  from Suc.prems(2) obtain t s1 ts1 where *: "alloc s = Some (t, s1)"
    "alloc_many alloc n s1 = Some (ts1, s')" "ts = t # ts1"
    by (auto split: option.splits)
  note a = alloc_Some [OF Suc.prems(1) *(1)]
  then show ?case using Suc.IH [OF _ *(2)] *(3) by auto
qed simp

lemma busy_card: "ok s \<Longrightarrow> card (busy s) \<le> card tags"
  by (rule card_mono [OF finite_tags busy_tags])

lemma finite_busy: "ok s \<Longrightarrow> finite (busy s)"
  using busy_tags finite_tags by (metis finite_subset)

lemma alloc_many_capacity:
  assumes "ok s"
  shows "alloc_many alloc n s \<noteq> None \<longleftrightarrow> n + card (busy s) \<le> card tags"
  using assms
proof (induction n arbitrary: s)
  case 0
  then show ?case using busy_card by simp
next
  case (Suc n)
  show ?case
  proof (cases "alloc s")
    case None
    then show ?thesis using alloc_None [OF Suc.prems] by simp
  next
    case (Some p)
    then obtain t s1 where p: "alloc s = Some (t, s1)" by (cases p) auto
    note a = alloc_Some [OF Suc.prems p]
    have "card (busy s1) = Suc (card (busy s))"
      using a finite_busy [OF Suc.prems] by simp
    then show ?thesis using p Suc.IH [of s1] a by (auto split: option.splits)
  qed
qed

lemma free_makes_room:
  assumes "ok s" and "t \<in> busy s"
  shows "alloc (free s t) \<noteq> None"
proof -
  note f = free_busy [OF assms]
  have "t \<in> tags" using assms busy_tags by blast
  then show ?thesis using f alloc_None [of "free s t"] by auto
qed

end

end
