(* ===== verification/Byte_Memory.thy ===== *)
theory Byte_Memory
  imports ASE_Prelude
begin

text \<open>
  Byte addressed memory, for the code that copies data through pointers: \<open>memcpy\<close>, stores
  of 32 and 64 bit integers (little endian) and the reads that give them back.
\<close>

type_synonym byte_mem = "u64 \<Rightarrow> u8"

fun mem_write :: "byte_mem \<Rightarrow> u64 \<Rightarrow> u8 list \<Rightarrow> byte_mem" where
  "mem_write m a [] = m"
| "mem_write m a (b # bs) = mem_write (m(a := b)) (a + 1) bs"

fun mem_read :: "byte_mem \<Rightarrow> u64 \<Rightarrow> nat \<Rightarrow> u8 list" where
  "mem_read m a 0 = []"
| "mem_read m a (Suc n) = m a # mem_read m (a + 1) n"

definition le_bytes :: "nat \<Rightarrow> 'a::len word \<Rightarrow> u8 list" where
  "le_bytes n w = map (\<lambda>i. ucast (drop_bit (8 * i) w)) [0..<n]"

fun le_word :: "u8 list \<Rightarrow> 'a::len word" where
  "le_word [] = 0"
| "le_word (b # bs) = ucast b OR push_bit 8 (le_word bs)"

section \<open>Reading back\<close>

lemma length_mem_read [simp]: "length (mem_read m a n) = n"
  by (induction n arbitrary: a) auto

lemma length_le_bytes [simp]: "length (le_bytes n w) = n"
  by (simp add: le_bytes_def)

lemma mem_read_nth: "i < n \<Longrightarrow> mem_read m a n ! i = m (a + of_nat i)"
proof (induction n arbitrary: a i)
  case (Suc n)
  then show ?case by (cases i) (auto simp: add.assoc)
qed simp

lemma of_nat_u64_eq_iff:
  "\<lbrakk>i < 2 ^ 64; j < 2 ^ 64\<rbrakk> \<Longrightarrow> of_nat i = (of_nat j :: u64) \<longleftrightarrow> i = j"
  by (simp add: word_of_nat_eq_iff take_bit_nat_eq_self)

text \<open>A write changes the bytes of its range and no other.\<close>

lemma mem_write_apply:
  assumes "length bs \<le> 2 ^ 64"
  shows "mem_write m a bs x =
    (if unat (x - a) < length bs then bs ! unat (x - a) else m x)"
  using assms
proof (induction bs arbitrary: m a)
  case (Cons b bs)
  have IH: "mem_write (m(a := b)) (a + 1) bs x =
    (if unat (x - (a + 1)) < length bs then bs ! unat (x - (a + 1)) else (m(a := b)) x)"
    using Cons by simp
  show ?case
  proof (cases "x = a")
    case True
    have "unat (- 1 :: u64) = 2 ^ 64 - 1" by (simp add: unsigned_minus_1_eq_mask mask_eq_exp_minus_1)
    then show ?thesis using True IH Cons.prems by simp
  next
    case False
    then have nz: "x - a \<noteq> 0" by simp
    then have "unat (x - (a + 1)) = unat (x - a) - 1"
      using unat_minus_one [OF nz] by (simp add: diff_diff_eq)
    moreover have "unat (x - a) \<noteq> 0" using nz by (simp add: unat_eq_zero)
    ultimately show ?thesis using IH False
      by (cases "unat (x - a)") auto
  qed
qed simp

lemma mem_read_write:
  assumes "length bs < 2 ^ 64"
  shows "mem_read (mem_write m a bs) a (length bs) = bs"
proof (rule nth_equalityI)
  fix i assume i: "i < length (mem_read (mem_write m a bs) a (length bs))"
  then have "unat (of_nat i :: u64) = i" using assms by (simp add: unat_of_nat)
  then show "mem_read (mem_write m a bs) a (length bs) ! i = bs ! i"
    using i assms by (simp add: mem_read_nth mem_write_apply)
qed simp

lemma le_bytes_Suc: "le_bytes (Suc n) w = ucast w # le_bytes n (drop_bit 8 w)"
  unfolding le_bytes_def upt_conv_Cons [OF zero_less_Suc] map_Suc_upt [symmetric]
  by (simp add: comp_def drop_bit_drop_bit add.commute del: upt_Suc)

lemma le_word_le_bytes: "le_word (le_bytes n w) = take_bit (8 * n) (w :: 'a::len word)"
proof (induction n arbitrary: w)
  case 0
  then show ?case by (simp add: le_bytes_def)
next
  case (Suc n)
  have "ucast (ucast w :: u8) OR push_bit 8 (take_bit (8 * n) (drop_bit 8 w)) = take_bit (8 + 8 * n) w"
  proof (rule bit_word_eqI)
    fix i assume "i < LENGTH('a)"
    then show "bit (ucast (ucast w :: u8) OR push_bit 8 (take_bit (8 * n) (drop_bit 8 w))) i =
        bit (take_bit (8 + 8 * n) w) i"
      by (cases "i < 8") (auto simp: bit_simps)
  qed
  then show ?case by (simp add: le_bytes_Suc Suc)
qed

end
