(* ===== verification/Mmio_Scoreboard.thy ===== *)
theory Mmio_Scoreboard
  imports Tag_Pool Byte_Memory
begin

text \<open>
  MMIO requests of the application, the part of \<open>src/ase/sw/app_backend.c\<close> that sends them
  to the simulator and matches the responses: the scoreboard \<open>mmio_table\<close> with its 64 slots,
  the transaction ids, the write and read calls, and the response watcher thread.

  \<open>mmio_port_lock\<close> makes the generation of an id and the slot allocation one atomic step, so
  a request is one function here; the watcher and the end of a read are further steps, and a
  run of the threads is a list of such steps. A read call waits for its slot to be answered:
  \<open>mmio_read_poll\<close> is \<open>Blocked\<close> while it would go on waiting.
\<close>

section \<open>Definitions\<close>

definition MMIO_MAX_OUTSTANDING :: nat where "MMIO_MAX_OUTSTANDING = 64"
definition MMIO_TID_BITMASK :: u32 where "MMIO_TID_BITMASK = 2 ^ 9 - 1"
definition MMIO_WRITE_REQ :: int where "MMIO_WRITE_REQ = 0xAA88"
definition MMIO_READ_REQ :: int where "MMIO_READ_REQ = 0xBB88"

record mmio_scoreboard_line =
  line_data :: u64
  line_tid :: int
  tx_flag :: bool
  rx_flag :: bool

record mmio_pkt =
  pkt_tid :: int
  pkt_write_en :: int
  pkt_width :: int
  pkt_addr :: int
  pkt_qword :: "u64 list"
  pkt_resp_en :: int
  pkt_slot_idx :: int
  pkt_afu_idx :: int

record mmio_state =
  mmio_table :: "nat \<Rightarrow> mmio_scoreboard_line"
  glbl_mmio_tid :: u32
  app2sim_mmioreq :: "mmio_pkt list"
  mmio_afu_vbase :: u64
  mmio_map :: byte_mem

text \<open>The setup of the scoreboard in \<open>session_init\<close>.\<close>

definition mmio_scoreboard_init :: "mmio_state \<Rightarrow> mmio_state" where
  "mmio_scoreboard_init s = s\<lparr>mmio_table :=
     (\<lambda>i. if i < MMIO_MAX_OUTSTANDING
          then \<lparr>line_data = 0, line_tid = 0, tx_flag = False, rx_flag = False\<rparr>
          else mmio_table s i)\<rparr>"

definition find_empty_mmio_scoreboard_slot :: "mmio_state \<Rightarrow> nat option" where
  "find_empty_mmio_scoreboard_slot s =
     find (\<lambda>i. \<not> tx_flag (mmio_table s i) \<and> \<not> rx_flag (mmio_table s i)) [0..<MMIO_MAX_OUTSTANDING]"

definition get_scoreboard_slot_by_tid :: "mmio_state \<Rightarrow> int \<Rightarrow> nat option" where
  "get_scoreboard_slot_by_tid s in_tid =
     find (\<lambda>i. tx_flag (mmio_table s i) \<and> line_tid (mmio_table s i) = in_tid)
       [0..<MMIO_MAX_OUTSTANDING]"

definition count_mmio_tid_used :: "mmio_state \<Rightarrow> nat" where
  "count_mmio_tid_used s =
     length (filter (\<lambda>i. tx_flag (mmio_table s i)) [0..<MMIO_MAX_OUTSTANDING])"

definition generate_mmio_tid :: "mmio_state \<Rightarrow> (u32 \<times> mmio_state) res" where
  "generate_mmio_tid s =
     (if count_mmio_tid_used s = MMIO_MAX_OUTSTANDING then Inl Blocked
      else Inr (glbl_mmio_tid s AND MMIO_TID_BITMASK, s\<lparr>glbl_mmio_tid := glbl_mmio_tid s + 1\<rparr>))"

definition mmio_request_put :: "mmio_state \<Rightarrow> mmio_pkt \<Rightarrow> (nat \<times> mmio_state) res" where
  "mmio_request_put s pkt =
     (case find_empty_mmio_scoreboard_slot s of
        None \<Rightarrow> Inl Sigabrt
      | Some i \<Rightarrow>
          let pkt = pkt\<lparr>pkt_slot_idx := int i\<rparr> in
          Inr (i, s\<lparr>mmio_table := (mmio_table s)(i :=
                      \<lparr>line_data = pkt_qword pkt ! 0, line_tid = pkt_tid pkt,
                       tx_flag = True, rx_flag = False\<rparr>),
                    app2sim_mmioreq := app2sim_mmioreq s @ [pkt]\<rparr>))"

text \<open>The critical section of each call: a new id, then the slot and the message.\<close>

definition mmio_send :: "mmio_state \<Rightarrow> mmio_pkt \<Rightarrow> (nat \<times> mmio_state) res" where
  "mmio_send s pkt = rbind (generate_mmio_tid s) (\<lambda>(t, s).
     mmio_request_put s (pkt\<lparr>pkt_tid := uint t\<rparr>))"

text \<open>A packet from \<open>ase_malloc\<close>, which clears it, with the fields that each call sets.\<close>

definition mmio_new_pkt :: "int \<Rightarrow> int \<Rightarrow> int \<Rightarrow> int \<Rightarrow> u64 list \<Rightarrow> mmio_pkt" where
  "mmio_new_pkt wr width offset afu_idx qword =
     \<lparr>pkt_tid = 0, pkt_write_en = wr, pkt_width = width, pkt_addr = offset,
      pkt_qword = qword @ replicate (8 - length qword) 0, pkt_resp_en = 0, pkt_slot_idx = 0,
      pkt_afu_idx = afu_idx\<rparr>"

definition mmio_map_store :: "mmio_state \<Rightarrow> int \<Rightarrow> u8 list \<Rightarrow> mmio_state" where
  "mmio_map_store s offset bs =
     s\<lparr>mmio_map := mem_write (mmio_map s) (mmio_afu_vbase s + word_of_int offset) bs\<rparr>"

definition mmio_write32 :: "mmio_state \<Rightarrow> int \<Rightarrow> int \<Rightarrow> u32 \<Rightarrow> mmio_state res" where
  "mmio_write32 s offset afu_idx data =
     (if offset < 0 then Inl Sigabrt
      else rbind (mmio_send s (mmio_new_pkt MMIO_WRITE_REQ 32 offset afu_idx [ucast data]))
        (\<lambda>(i, s). Inr (mmio_map_store s offset (le_bytes 4 data))))"

definition mmio_write64 :: "mmio_state \<Rightarrow> int \<Rightarrow> int \<Rightarrow> u64 \<Rightarrow> mmio_state res" where
  "mmio_write64 s offset afu_idx data =
     (if offset < 0 then Inl Sigabrt
      else rbind (mmio_send s (mmio_new_pkt MMIO_WRITE_REQ 64 offset afu_idx [data]))
        (\<lambda>(i, s). Inr (mmio_map_store s offset (le_bytes 8 data))))"

text \<open>\<open>mmio_write512\<close> copies 64 bytes; they are given as the eight words they make up.\<close>

definition mmio_write512 :: "mmio_state \<Rightarrow> int \<Rightarrow> int \<Rightarrow> u64 list \<Rightarrow> mmio_state res" where
  "mmio_write512 s offset afu_idx data =
     (if offset < 0 then Inl Sigabrt
      else rbind (mmio_send s (mmio_new_pkt MMIO_WRITE_REQ 512 offset afu_idx (take 8 data)))
        (\<lambda>(i, s). Inr (mmio_map_store s offset (concat (map (le_bytes 8) (take 8 data))))))"

definition mmio_read_request :: "mmio_state \<Rightarrow> int \<Rightarrow> int \<Rightarrow> int \<Rightarrow> (nat \<times> mmio_state) res" where
  "mmio_read_request s width offset afu_idx =
     (if offset < 0 then Inl Sigabrt
      else mmio_send s (mmio_new_pkt MMIO_READ_REQ width offset afu_idx []))"

definition mmio_read_poll :: "mmio_state \<Rightarrow> nat \<Rightarrow> (u64 \<times> mmio_state) res" where
  "mmio_read_poll s slot_idx =
     (let l = mmio_table s slot_idx in
      if rx_flag l \<noteq> True then Inl Blocked
      else Inr (line_data l, s\<lparr>mmio_table := (mmio_table s)(slot_idx :=
                  l\<lparr>tx_flag := False, rx_flag := False\<rparr>)\<rparr>))"

text \<open>The two read calls; \<open>env\<close> is what the other threads do while the call waits.\<close>

definition mmio_read64 ::
  "(mmio_state \<Rightarrow> mmio_state res) \<Rightarrow> mmio_state \<Rightarrow> int \<Rightarrow> int \<Rightarrow> (u64 \<times> mmio_state) res" where
  "mmio_read64 env s offset afu_idx =
     rbind (mmio_read_request s 64 offset afu_idx) (\<lambda>(i, s).
     rbind (env s) (\<lambda>s. mmio_read_poll s i))"

definition mmio_read32 ::
  "(mmio_state \<Rightarrow> mmio_state res) \<Rightarrow> mmio_state \<Rightarrow> int \<Rightarrow> int \<Rightarrow> (u32 \<times> mmio_state) res" where
  "mmio_read32 env s offset afu_idx =
     rbind (mmio_read_request s 32 offset afu_idx) (\<lambda>(i, s).
     rbind (env s) (\<lambda>s.
     rbind (mmio_read_poll s i) (\<lambda>(d, s). Inr (ucast d, s))))"

text \<open>One message received by \<open>mmio_response_watcher\<close>.\<close>

definition mmio_response :: "mmio_state \<Rightarrow> mmio_pkt \<Rightarrow> mmio_state res" where
  "mmio_response s pkt =
     (case get_scoreboard_slot_by_tid s (pkt_tid pkt) of
        None \<Rightarrow> Inl Sigabrt
      | Some i \<Rightarrow>
          let l = mmio_table s i in
          if pkt_write_en pkt = MMIO_READ_REQ
          then Inr (s\<lparr>mmio_table := (mmio_table s)(i :=
                        \<lparr>line_data = pkt_qword pkt ! 0, line_tid = pkt_tid pkt,
                         tx_flag = True, rx_flag = True\<rparr>)\<rparr>)
          else if pkt_write_en pkt = MMIO_WRITE_REQ
          then Inr (s\<lparr>mmio_table := (mmio_table s)(i := l\<lparr>tx_flag := False, rx_flag := False\<rparr>)\<rparr>)
          else Inr s)"

text \<open>Runs of the threads.\<close>

datatype mmio_act = Request mmio_pkt | Response mmio_pkt | Poll nat

fun mmio_do :: "mmio_act \<Rightarrow> mmio_state \<Rightarrow> mmio_state res" where
  "mmio_do (Request pkt) s = rbind (mmio_send s pkt) (\<lambda>(i, s). Inr s)"
| "mmio_do (Response pkt) s = mmio_response s pkt"
| "mmio_do (Poll i) s = rbind (mmio_read_poll s i) (\<lambda>(d, s). Inr s)"

fun mmio_run :: "mmio_act list \<Rightarrow> mmio_state \<Rightarrow> mmio_state res" where
  "mmio_run [] s = Inr s"
| "mmio_run (a # as) s = rbind (mmio_do a s) (mmio_run as)"

fun mmio_requests :: "mmio_act list \<Rightarrow> nat" where
  "mmio_requests [] = 0"
| "mmio_requests (Request p # as) = Suc (mmio_requests as)"
| "mmio_requests (_ # as) = mmio_requests as"

subsection \<open>Specification\<close>

definition mmio_busy :: "mmio_state \<Rightarrow> nat set" where
  "mmio_busy s = {i. i < MMIO_MAX_OUTSTANDING \<and> tx_flag (mmio_table s i)}"

text \<open>Only a slot in use is answered, and the ids in use are distinct.\<close>

definition mmio_flags_ok :: "mmio_state \<Rightarrow> bool" where
  "mmio_flags_ok s \<longleftrightarrow> (\<forall>i < MMIO_MAX_OUTSTANDING. rx_flag (mmio_table s i) \<longrightarrow> tx_flag (mmio_table s i))"

definition mmio_inv :: "mmio_state \<Rightarrow> bool" where
  "mmio_inv s \<longleftrightarrow> mmio_flags_ok s \<and> inj_on (\<lambda>i. line_tid (mmio_table s i)) (mmio_busy s)"

text \<open>
  The ids in use come from the requests with the numbers \<open>lo\<close> to \<open>g - 1\<close>, where \<open>g\<close> counts
  all requests so far.
\<close>

definition mmio_window :: "nat \<Rightarrow> nat \<Rightarrow> mmio_state \<Rightarrow> bool" where
  "mmio_window lo g s \<longleftrightarrow> glbl_mmio_tid s = of_nat g \<and> lo \<le> g \<and>
     (\<forall>i \<in> mmio_busy s. \<exists>n. lo \<le> n \<and> n < g \<and> line_tid (mmio_table s i) = int (n mod 512))"

text \<open>The abstract scoreboard: each id in use, with the data of its answer if there is one.\<close>

definition mmio_board :: "mmio_state \<Rightarrow> int \<Rightarrow> u64 option option" where
  "mmio_board s t = map_option (\<lambda>i. let l = mmio_table s i in if rx_flag l then Some (line_data l) else None)
     (get_scoreboard_slot_by_tid s t)"

section \<open>Slots\<close>

lemma find_empty_cases:
  "find_empty_mmio_scoreboard_slot s = None \<Longrightarrow> mmio_flags_ok s \<Longrightarrow> mmio_busy s = {..<MMIO_MAX_OUTSTANDING}"
  "find_empty_mmio_scoreboard_slot s = Some i \<Longrightarrow> i < MMIO_MAX_OUTSTANDING \<and>
     \<not> tx_flag (mmio_table s i) \<and> \<not> rx_flag (mmio_table s i)"
  by (auto simp: find_empty_mmio_scoreboard_slot_def find_None_iff find_Some_iff mmio_busy_def
      mmio_flags_ok_def)

lemma slot_by_tid_Some:
  "get_scoreboard_slot_by_tid s t = Some i \<Longrightarrow> i \<in> mmio_busy s \<and> line_tid (mmio_table s i) = t"
  by (auto simp: get_scoreboard_slot_by_tid_def find_Some_iff mmio_busy_def)

lemma slot_by_tid_None:
  "get_scoreboard_slot_by_tid s t = None \<longleftrightarrow> (\<forall>i \<in> mmio_busy s. line_tid (mmio_table s i) \<noteq> t)"
  by (auto simp: get_scoreboard_slot_by_tid_def find_None_iff mmio_busy_def)

lemma slot_by_tid_unique:
  assumes "mmio_inv s" and "i \<in> mmio_busy s" and "line_tid (mmio_table s i) = t"
  shows "get_scoreboard_slot_by_tid s t = Some i"
proof (cases "get_scoreboard_slot_by_tid s t")
  case None
  then show ?thesis using assms slot_by_tid_None by blast
next
  case (Some j)
  then show ?thesis using slot_by_tid_Some [OF Some] assms by (auto simp: mmio_inv_def inj_on_def)
qed

lemma finite_mmio_busy [simp]: "finite (mmio_busy s)"
  by (simp add: mmio_busy_def)

lemma count_card: "count_mmio_tid_used s = card (mmio_busy s)"
proof -
  have "set (filter (\<lambda>i. tx_flag (mmio_table s i)) [0..<MMIO_MAX_OUTSTANDING]) = mmio_busy s"
    by (auto simp: mmio_busy_def)
  then show ?thesis unfolding count_mmio_tid_used_def by (metis distinct_card distinct_filter distinct_upt)
qed

lemma count_full: "count_mmio_tid_used s = MMIO_MAX_OUTSTANDING \<longleftrightarrow> mmio_busy s = {..<MMIO_MAX_OUTSTANDING}"
proof
  assume "count_mmio_tid_used s = MMIO_MAX_OUTSTANDING"
  moreover have "mmio_busy s \<subseteq> {..<MMIO_MAX_OUTSTANDING}" by (auto simp: mmio_busy_def)
  ultimately show "mmio_busy s = {..<MMIO_MAX_OUTSTANDING}"
    by (intro card_subset_eq) (simp_all add: count_card)
qed (simp add: count_card)

section \<open>Steps\<close>

text \<open>
  A request: it waits when all slots are in use, and it takes an idle slot otherwise, so
  the abort in \<open>mmio_request_put\<close> is never reached.
\<close>

lemma mmio_send_cases:
  assumes "mmio_flags_ok s"
  shows "mmio_busy s = {..<MMIO_MAX_OUTSTANDING} \<Longrightarrow> mmio_send s pkt = Inl Blocked"
    and "mmio_busy s \<noteq> {..<MMIO_MAX_OUTSTANDING} \<Longrightarrow> \<exists>i s'. mmio_send s pkt = Inr (i, s') \<and>
      i < MMIO_MAX_OUTSTANDING \<and> i \<notin> mmio_busy s \<and> \<not> rx_flag (mmio_table s i) \<and>
      glbl_mmio_tid s' = glbl_mmio_tid s + 1 \<and>
      mmio_table s' = (mmio_table s)(i := \<lparr>line_data = pkt_qword pkt ! 0,
        line_tid = uint (glbl_mmio_tid s AND MMIO_TID_BITMASK), tx_flag = True, rx_flag = False\<rparr>)"
proof -
  show "mmio_busy s = {..<MMIO_MAX_OUTSTANDING} \<Longrightarrow> mmio_send s pkt = Inl Blocked"
    by (simp add: mmio_send_def generate_mmio_tid_def count_full)
  assume f: "mmio_busy s \<noteq> {..<MMIO_MAX_OUTSTANDING}"
  let ?s = "s\<lparr>glbl_mmio_tid := glbl_mmio_tid s + 1\<rparr>"
  have same: "find_empty_mmio_scoreboard_slot ?s = find_empty_mmio_scoreboard_slot s"
    by (simp add: find_empty_mmio_scoreboard_slot_def)
  obtain i where i: "find_empty_mmio_scoreboard_slot s = Some i"
    using find_empty_cases(1) [OF _ assms] f by blast
  then show "\<exists>i s'. mmio_send s pkt = Inr (i, s') \<and>
      i < MMIO_MAX_OUTSTANDING \<and> i \<notin> mmio_busy s \<and> \<not> rx_flag (mmio_table s i) \<and>
      glbl_mmio_tid s' = glbl_mmio_tid s + 1 \<and>
      mmio_table s' = (mmio_table s)(i := \<lparr>line_data = pkt_qword pkt ! 0,
        line_tid = uint (glbl_mmio_tid s AND MMIO_TID_BITMASK), tx_flag = True, rx_flag = False\<rparr>)"
    using find_empty_cases(2) [OF i] f same
    by (simp add: mmio_send_def generate_mmio_tid_def count_full mmio_request_put_def Let_def
        mmio_busy_def)
qed

lemma mmio_busy_upd:
  "mmio_table s' = (mmio_table s)(i := l) \<Longrightarrow> i < MMIO_MAX_OUTSTANDING \<Longrightarrow>
   mmio_busy s' = (if tx_flag l then insert i (mmio_busy s) else mmio_busy s - {i})"
  by (auto simp: mmio_busy_def)

lemma tid_of_count: "uint ((of_nat g :: u32) AND MMIO_TID_BITMASK) = int (g mod 512)"
proof -
  have "(of_nat g :: u32) AND MMIO_TID_BITMASK = take_bit 9 (of_nat g)"
    by (simp add: MMIO_TID_BITMASK_def take_bit_eq_mask mask_eq_exp_minus_1)
  also have "uint \<dots> = take_bit 9 (take_bit 32 (int g))"
    by (simp add: unsigned_take_bit_eq unsigned_of_nat take_bit_of_nat)
  also have "\<dots> = take_bit 9 (int g)" by simp
  finally show ?thesis by (simp add: take_bit_eq_mod zmod_int)
qed

text \<open>The id of the next request is not in use when fewer than 512 are in the window.\<close>

lemma mmio_window_fresh:
  assumes "mmio_window lo g s" and "g - lo < 512" and "i \<in> mmio_busy s"
  shows "line_tid (mmio_table s i) \<noteq> uint (glbl_mmio_tid s AND MMIO_TID_BITMASK)"
proof -
  obtain n where n: "lo \<le> n" "n < g" "line_tid (mmio_table s i) = int (n mod 512)"
    using assms(1,3) by (auto simp: mmio_window_def)
  have "n mod 512 \<noteq> g mod 512"
  proof
    assume "n mod 512 = g mod 512"
    then have "512 dvd g - n" using n(2) by (metis less_imp_le mod_eq_dvd_iff_nat)
    then show False using n assms(2) by (auto dest: dvd_imp_le)
  qed
  then show ?thesis using n assms(1) by (simp add: mmio_window_def tid_of_count)
qed

lemma mmio_send_inv:
  assumes "mmio_inv s" and "mmio_window lo g s" and "g - lo < 512" and "mmio_send s pkt = Inr (i, s')"
  shows "mmio_inv s'" and "mmio_window lo (Suc g) s'" and "i \<notin> mmio_busy s"
    and "mmio_table s' = (mmio_table s)(i := \<lparr>line_data = pkt_qword pkt ! 0,
        line_tid = int (g mod 512), tx_flag = True, rx_flag = False\<rparr>)"
    and "i < MMIO_MAX_OUTSTANDING"
proof -
  have flags: "mmio_flags_ok s" using assms(1) by (simp add: mmio_inv_def)
  have g: "glbl_mmio_tid s = of_nat g" using assms(2) by (simp add: mmio_window_def)
  have n: "mmio_busy s \<noteq> {..<MMIO_MAX_OUTSTANDING}"
    using mmio_send_cases(1) [OF flags] assms(4) by auto
  have c: "i < MMIO_MAX_OUTSTANDING" "i \<notin> mmio_busy s" "glbl_mmio_tid s' = glbl_mmio_tid s + 1"
    "mmio_table s' = (mmio_table s)(i := \<lparr>line_data = pkt_qword pkt ! 0,
        line_tid = int (g mod 512), tx_flag = True, rx_flag = False\<rparr>)"
    using mmio_send_cases(2) [OF flags n, of pkt] assms(4) g by (auto simp: tid_of_count)
  then show "i \<notin> mmio_busy s" "i < MMIO_MAX_OUTSTANDING"
    "mmio_table s' = (mmio_table s)(i := \<lparr>line_data = pkt_qword pkt ! 0,
        line_tid = int (g mod 512), tx_flag = True, rx_flag = False\<rparr>)" by auto
  have b: "mmio_busy s' = insert i (mmio_busy s)" using mmio_busy_upd [OF c(4,1)] by simp
  have fresh: "int (g mod 512) \<noteq> line_tid (mmio_table s y)" if "y \<in> mmio_busy s" for y
    using mmio_window_fresh [OF assms(2,3) that] g by (auto simp: tid_of_count)
  show "mmio_inv s'"
    using assms(1) fresh c(2) unfolding mmio_inv_def b
    by (auto simp: c(4) mmio_flags_ok_def inj_on_def eq_commute [of _ "int (g mod 512)"])
  show "mmio_window lo (Suc g) s'"
    using assms(2) c(2) unfolding mmio_window_def b
    by (force simp: c(3,4) intro: less_SucI)
qed

text \<open>A slot update that keeps the id and does not answer an idle slot keeps the invariant.\<close>

lemma mmio_inv_upd:
  assumes "mmio_inv s" and "mmio_table s' = (mmio_table s)(i := l)" and "i \<in> mmio_busy s"
    and "line_tid l = line_tid (mmio_table s i)" and "rx_flag l \<longrightarrow> tx_flag l"
  shows "mmio_inv s'"
proof -
  have "i < MMIO_MAX_OUTSTANDING" using assms(3) by (simp add: mmio_busy_def)
  note b = mmio_busy_upd [OF assms(2) this]
  have "inj_on (\<lambda>j. line_tid (mmio_table s j)) (mmio_busy s')"
    using assms(1,3) unfolding mmio_inv_def b by (auto intro: inj_on_subset simp: insert_absorb)
  moreover have "line_tid (mmio_table s' j) = line_tid (mmio_table s j)" for j
    using assms(2,4) by simp
  ultimately show ?thesis
    using assms(1,2,5) by (auto simp: mmio_inv_def mmio_flags_ok_def)
qed

lemma mmio_window_upd:
  assumes "mmio_window lo g s" and "mmio_table s' = (mmio_table s)(i := l)" and "i \<in> mmio_busy s"
    and "line_tid l = line_tid (mmio_table s i)" and "glbl_mmio_tid s' = glbl_mmio_tid s"
  shows "mmio_window lo g s'"
proof -
  have "i < MMIO_MAX_OUTSTANDING" using assms(3) by (simp add: mmio_busy_def)
  note b = mmio_busy_upd [OF assms(2) this]
  have "mmio_busy s' \<subseteq> mmio_busy s" using b assms(3) by auto
  moreover have "line_tid (mmio_table s' j) = line_tid (mmio_table s j)" for j
    using assms(2,4) by simp
  ultimately show ?thesis using assms(1,5) by (auto simp: mmio_window_def)
qed

text \<open>A response changes the slot of its id only, and a poll the slot that it names.\<close>

lemma mmio_response_slot:
  assumes "mmio_response s pkt = Inr s'"
  shows "\<exists>i l. i \<in> mmio_busy s \<and> line_tid (mmio_table s i) = pkt_tid pkt \<and>
    get_scoreboard_slot_by_tid s (pkt_tid pkt) = Some i \<and>
    line_tid l = pkt_tid pkt \<and> (rx_flag l \<longrightarrow> tx_flag l) \<and>
    (pkt_write_en pkt = MMIO_READ_REQ \<longrightarrow> l = \<lparr>line_data = pkt_qword pkt ! 0,
       line_tid = pkt_tid pkt, tx_flag = True, rx_flag = True\<rparr>) \<and>
    mmio_table s' = (mmio_table s)(i := l) \<and> glbl_mmio_tid s' = glbl_mmio_tid s"
proof -
  obtain i where i: "get_scoreboard_slot_by_tid s (pkt_tid pkt) = Some i"
    using assms by (auto simp: mmio_response_def split: option.splits)
  note p = slot_by_tid_Some [OF i]
  show ?thesis
    using assms i p by (intro exI [of _ i] exI [of _ "mmio_table s' i"])
      (auto simp: mmio_response_def Let_def mmio_busy_def split: if_splits)
qed

lemma mmio_poll_slot:
  assumes "mmio_read_poll s i = Inr (d, s')"
  shows "rx_flag (mmio_table s i)" and "d = line_data (mmio_table s i)"
    and "mmio_table s' = (mmio_table s)(i := (mmio_table s i)\<lparr>tx_flag := False, rx_flag := False\<rparr>)"
    and "glbl_mmio_tid s' = glbl_mmio_tid s"
  using assms by (auto simp: mmio_read_poll_def Let_def split: if_splits)

section \<open>Runs\<close>

lemma mmio_same:
  assumes "\<And>j. j < MMIO_MAX_OUTSTANDING \<Longrightarrow> mmio_table s' j = mmio_table s j"
  shows "mmio_inv s' = mmio_inv s" and "mmio_busy s' = mmio_busy s"
    and "glbl_mmio_tid s' = glbl_mmio_tid s \<Longrightarrow> mmio_window lo g s' = mmio_window lo g s"
proof -
  show b: "mmio_busy s' = mmio_busy s" using assms by (auto simp: mmio_busy_def)
  have e: "mmio_table s' j = mmio_table s j" if "j \<in> mmio_busy s" for j
    using assms that by (simp add: mmio_busy_def)
  have "inj_on (\<lambda>i. line_tid (mmio_table s' i)) (mmio_busy s) =
      inj_on (\<lambda>i. line_tid (mmio_table s i)) (mmio_busy s)"
    by (rule inj_on_cong) (simp add: e)
  moreover have "mmio_flags_ok s' = mmio_flags_ok s" using assms by (auto simp: mmio_flags_ok_def)
  ultimately show "mmio_inv s' = mmio_inv s" unfolding mmio_inv_def b by simp
  show "glbl_mmio_tid s' = glbl_mmio_tid s \<Longrightarrow> mmio_window lo g s' = mmio_window lo g s"
    unfolding mmio_window_def b using e by simp
qed

lemma mmio_poll_inv:
  assumes "mmio_inv s" and "mmio_read_poll s i = Inr (d, s')"
  shows "mmio_inv s'" and "mmio_window lo g s \<Longrightarrow> mmio_window lo g s'" and "i \<notin> mmio_busy s'"
proof -
  note p = mmio_poll_slot [OF assms(2)]
  have "mmio_inv s' \<and> (mmio_window lo g s \<longrightarrow> mmio_window lo g s')"
  proof (cases "i < MMIO_MAX_OUTSTANDING")
    case True
    then have "i \<in> mmio_busy s"
      using p(1) assms(1) by (auto simp: mmio_inv_def mmio_flags_ok_def mmio_busy_def)
    then show ?thesis
      using mmio_inv_upd [OF assms(1) p(3)] mmio_window_upd [OF _ p(3) _ _ p(4)] by simp
  next
    case False
    then show ?thesis using mmio_same [of s' s] assms(1) p(3,4) by auto
  qed
  then show "mmio_inv s'" "mmio_window lo g s \<Longrightarrow> mmio_window lo g s'" by auto
  show "i \<notin> mmio_busy s'" using p(3) by (simp add: mmio_busy_def)
qed

lemma mmio_do_inv:
  assumes "mmio_inv s" and "mmio_window lo g s" and "g - lo + mmio_requests [a] \<le> 512"
    and "mmio_do a s = Inr s'"
  shows "mmio_inv s' \<and> mmio_window lo (g + mmio_requests [a]) s'"
proof (cases a)
  case (Request pkt)
  then show ?thesis using assms mmio_send_inv [OF assms(1,2)] by fastforce
next
  case (Response pkt)
  then have "mmio_response s pkt = Inr s'" using assms(4) by simp
  from mmio_response_slot [OF this] obtain i l where i: "i \<in> mmio_busy s"
    "line_tid (mmio_table s i) = pkt_tid pkt" "line_tid l = pkt_tid pkt"
    "rx_flag l \<longrightarrow> tx_flag l" "mmio_table s' = (mmio_table s)(i := l)"
    "glbl_mmio_tid s' = glbl_mmio_tid s" by auto
  then show ?thesis
    using Response mmio_inv_upd [OF assms(1) i(5,1) _ i(4)] mmio_window_upd [OF assms(2) i(5,1) _ i(6)]
    by simp
next
  case (Poll i)
  then show ?thesis using assms mmio_poll_inv [OF assms(1)] by fastforce
qed

lemma mmio_requests_append [simp]: "mmio_requests (as @ bs) = mmio_requests as + mmio_requests bs"
  by (induction as rule: mmio_requests.induct) auto

lemma mmio_run_append: "mmio_run (as @ bs) s = rbind (mmio_run as s) (mmio_run bs)"
  by (induction as arbitrary: s) (simp_all add: rbind_assoc cong: rbind_cong)

lemma mmio_requests_Cons: "mmio_requests (a # as) = mmio_requests [a] + mmio_requests as"
  by (cases a) simp_all

lemma mmio_window_le: "mmio_window lo g s \<Longrightarrow> lo \<le> g"
  by (simp add: mmio_window_def)

lemma mmio_run_inv:
  assumes "mmio_inv s" and "mmio_window lo g s" and "g - lo + mmio_requests as \<le> 512"
    and "mmio_run as s = Inr s'"
  shows "mmio_inv s' \<and> mmio_window lo (g + mmio_requests as) s'"
  using assms
proof (induction as arbitrary: s g)
  case (Cons a as)
  from Cons.prems(4) obtain s1 where s1: "mmio_do a s = Inr s1" "mmio_run as s1 = Inr s'" by auto
  have le: "g - lo + mmio_requests [a] \<le> 512" "g + mmio_requests [a] - lo + mmio_requests as \<le> 512"
    using Cons.prems(3) mmio_window_le [OF Cons.prems(2)] mmio_requests_Cons [of a as] by linarith+
  have "mmio_inv s1 \<and> mmio_window lo (g + mmio_requests [a]) s1"
    by (rule mmio_do_inv [OF Cons.prems(1,2) le(1) s1(1)])
  then show ?case
    using Cons.IH [of s1 "g + mmio_requests [a]"] le(2) s1(2) mmio_requests_Cons [of a as]
    by (simp add: add.assoc)
qed simp

text \<open>The steps that leave the slot \<open>i\<close>, in use with the id \<open>t\<close>, alone.\<close>

definition mmio_quiet :: "nat \<Rightarrow> int \<Rightarrow> mmio_act \<Rightarrow> bool" where
  "mmio_quiet i t a = (case a of Request _ \<Rightarrow> True | Response p \<Rightarrow> pkt_tid p \<noteq> t | Poll j \<Rightarrow> j \<noteq> i)"

lemma mmio_do_quiet:
  assumes "mmio_inv s" and "i \<in> mmio_busy s" and "mmio_quiet i (line_tid (mmio_table s i)) a"
    and "mmio_do a s = Inr s'"
  shows "mmio_table s' i = mmio_table s i"
proof (cases a)
  case (Request pkt)
  have f: "mmio_flags_ok s" using assms(1) by (simp add: mmio_inv_def)
  obtain j where j: "mmio_send s pkt = Inr (j, s')" using assms(4) Request by auto
  then have "mmio_busy s \<noteq> {..<MMIO_MAX_OUTSTANDING}" using mmio_send_cases(1) [OF f] by auto
  then show ?thesis using mmio_send_cases(2) [OF f, of pkt] j assms(2) by auto
next
  case (Response pkt)
  then show ?thesis using assms(3,4) mmio_response_slot [of s pkt s'] by (auto simp: mmio_quiet_def)
next
  case (Poll j)
  then show ?thesis using assms(3,4) mmio_poll_slot(3) [of s j] by (fastforce simp: mmio_quiet_def)
qed

lemma mmio_run_quiet:
  assumes "mmio_inv s" and "mmio_window lo g s" and "g - lo + mmio_requests as \<le> 512"
    and "i \<in> mmio_busy s" and "\<forall>a \<in> set as. mmio_quiet i (line_tid (mmio_table s i)) a"
    and "mmio_run as s = Inr s'"
  shows "mmio_table s' i = mmio_table s i \<and> i \<in> mmio_busy s'"
  using assms
proof (induction as arbitrary: s g)
  case (Cons a as)
  from Cons.prems(6) obtain s1 where s1: "mmio_do a s = Inr s1" "mmio_run as s1 = Inr s'" by auto
  have le: "g - lo + mmio_requests [a] \<le> 512" "g + mmio_requests [a] - lo + mmio_requests as \<le> 512"
    using Cons.prems(3) mmio_window_le [OF Cons.prems(2)] mmio_requests_Cons [of a as] by linarith+
  have inv: "mmio_inv s1" "mmio_window lo (g + mmio_requests [a]) s1"
    using mmio_do_inv [OF Cons.prems(1,2) le(1) s1(1)] by auto
  have t: "mmio_table s1 i = mmio_table s i"
    using mmio_do_quiet [OF Cons.prems(1,4) _ s1(1)] Cons.prems(5) by simp
  then have "i \<in> mmio_busy s1" using Cons.prems(4) by (simp add: mmio_busy_def)
  then show ?case using Cons.IH [OF inv le(2) _ _ s1(2)] Cons.prems(5) t by simp
qed simp

section \<open>The interfaces\<close>

text \<open>The slots as a pool of tags: a request takes one, the end of a write frees it.\<close>

definition slot_take :: "mmio_state \<Rightarrow> (nat \<times> mmio_state) option" where
  "slot_take s = (case mmio_send s (mmio_new_pkt MMIO_WRITE_REQ 64 0 0 []) of
     Inl _ \<Rightarrow> None | Inr p \<Rightarrow> Some p)"

definition slot_release :: "mmio_state \<Rightarrow> nat \<Rightarrow> mmio_state" where
  "slot_release s i = s\<lparr>mmio_table := (mmio_table s)(i :=
     (mmio_table s i)\<lparr>tx_flag := False, rx_flag := False\<rparr>)\<rparr>"

text \<open>Releasing a slot is what the watcher does for the answer to a write.\<close>

lemma response_releases:
  assumes "mmio_inv s" and "i \<in> mmio_busy s" and "pkt_tid pkt = line_tid (mmio_table s i)"
    and "pkt_write_en pkt = MMIO_WRITE_REQ"
  shows "mmio_response s pkt = Inr (slot_release s i)"
  using slot_by_tid_unique [OF assms(1,2)] assms(3,4)
  by (simp add: mmio_response_def slot_release_def Let_def MMIO_WRITE_REQ_def MMIO_READ_REQ_def)

lemma slot_take_cases:
  assumes "mmio_flags_ok s"
  shows "slot_take s = None \<and> mmio_busy s = {..<MMIO_MAX_OUTSTANDING} \<or>
    mmio_busy s \<noteq> {..<MMIO_MAX_OUTSTANDING} \<and>
    (\<exists>i s'. slot_take s = Some (i, s') \<and> i < MMIO_MAX_OUTSTANDING \<and> i \<notin> mmio_busy s \<and>
       mmio_busy s' = insert i (mmio_busy s) \<and> mmio_flags_ok s')"
proof (cases "mmio_busy s = {..<MMIO_MAX_OUTSTANDING}")
  case True
  then show ?thesis using mmio_send_cases(1) [OF assms] by (simp add: slot_take_def)
next
  case False
  obtain i s' l where i: "mmio_send s (mmio_new_pkt MMIO_WRITE_REQ 64 0 0 []) = Inr (i, s')"
    "i < MMIO_MAX_OUTSTANDING" "i \<notin> mmio_busy s" "mmio_table s' = (mmio_table s)(i := l)"
    "tx_flag l" "\<not> rx_flag l"
    using mmio_send_cases(2) [OF assms False, of "mmio_new_pkt MMIO_WRITE_REQ 64 0 0 []"] by auto
  then show ?thesis
    using False mmio_busy_upd [OF i(4,2)] assms by (auto simp: slot_take_def mmio_flags_ok_def)
qed

interpretation slots: tag_pool "{..<MMIO_MAX_OUTSTANDING}" mmio_flags_ok mmio_busy slot_take slot_release
proof (unfold_locales, goal_cases)
  case (2 s) show ?case by (auto simp: mmio_busy_def)
next
  case (3 s i s') then show ?case using slot_take_cases [OF 3(1)] by auto
next
  case (4 s) then show ?case using slot_take_cases [OF 4] by auto
next
  case (5 s i)
  then show ?case by (auto simp: slot_release_def mmio_busy_def mmio_flags_ok_def)
qed simp

text \<open>The scoreboard implements a map from ids in use to answers.\<close>

lemma board_iff:
  assumes "mmio_inv s"
  shows "mmio_board s t = Some r \<longleftrightarrow> (\<exists>i \<in> mmio_busy s. line_tid (mmio_table s i) = t \<and>
    r = (if rx_flag (mmio_table s i) then Some (line_data (mmio_table s i)) else None))"
proof
  assume "mmio_board s t = Some r"
  then obtain i where i: "get_scoreboard_slot_by_tid s t = Some i"
    and "r = (if rx_flag (mmio_table s i) then Some (line_data (mmio_table s i)) else None)"
    by (auto simp: mmio_board_def Let_def)
  then show "\<exists>i \<in> mmio_busy s. line_tid (mmio_table s i) = t \<and>
    r = (if rx_flag (mmio_table s i) then Some (line_data (mmio_table s i)) else None)"
    using slot_by_tid_Some [OF i] by blast
next
  assume "\<exists>i \<in> mmio_busy s. line_tid (mmio_table s i) = t \<and>
    r = (if rx_flag (mmio_table s i) then Some (line_data (mmio_table s i)) else None)"
  then obtain i where i: "i \<in> mmio_busy s" "line_tid (mmio_table s i) = t"
    "r = (if rx_flag (mmio_table s i) then Some (line_data (mmio_table s i)) else None)" by blast
  show "mmio_board s t = Some r"
    using slot_by_tid_unique [OF assms i(1,2)] i(3) by (simp add: mmio_board_def Let_def)
qed

lemma board_None: "mmio_board s t = None \<longleftrightarrow> (\<forall>i \<in> mmio_busy s. line_tid (mmio_table s i) \<noteq> t)"
  by (simp add: mmio_board_def slot_by_tid_None)

lemma board_eqI:
  assumes "mmio_inv s" and "mmio_inv s'" and "\<And>t r. mmio_board s t = Some r \<longleftrightarrow> b t = Some r"
  shows "mmio_board s = b"
  using assms(3) by (intro ext) (metis not_Some_eq)

text \<open>The board after an update of the slot that has the id \<open>t\<close> before and after it.\<close>

lemma board_upd:
  assumes "mmio_inv s" and "mmio_inv s'" and "mmio_table s' = (mmio_table s)(i := l)"
    and "i < MMIO_MAX_OUTSTANDING" and "line_tid l = t"
    and "i \<in> mmio_busy s \<and> line_tid (mmio_table s i) = t \<or> mmio_board s t = None \<and> i \<notin> mmio_busy s"
  shows "mmio_board s' = (mmio_board s)(t :=
    if tx_flag l then Some (if rx_flag l then Some (line_data l) else None) else None)"
proof (rule board_eqI [OF assms(2,2)])
  fix u r
  have other: "j = i" if "j \<in> mmio_busy s" "line_tid (mmio_table s j) = t" for j
    using that assms(1,6) board_None [of s t] by (auto simp: mmio_inv_def inj_on_def)
  note b = mmio_busy_upd [OF assms(3,4)]
  show "mmio_board s' u = Some r \<longleftrightarrow> ((mmio_board s)(t :=
    if tx_flag l then Some (if rx_flag l then Some (line_data l) else None) else None)) u = Some r"
  proof (cases "u = t")
    case True
    have only: "j = i" if "j \<in> mmio_busy s'" "line_tid (mmio_table s' j) = t" for j
      using that other b assms(3) by (cases "j = i") (auto split: if_splits)
    show ?thesis
    proof (cases "tx_flag l")
      case tx: True
      then have i: "i \<in> mmio_busy s'" "mmio_table s' i = l" using b assms(3) by simp_all
      show ?thesis
        unfolding True fun_upd_same using slot_by_tid_unique [OF assms(2) i(1)] i(2) assms(5) tx
        by (simp add: mmio_board_def Let_def)
    next
      case False
      then have "mmio_board s' t = None" using only b by (auto simp: board_None)
      then show ?thesis using True False by simp
    qed
  next
    case False
    have "j \<in> mmio_busy s' \<and> line_tid (mmio_table s' j) = u \<and> P (mmio_table s' j) \<longleftrightarrow>
        j \<in> mmio_busy s \<and> line_tid (mmio_table s j) = u \<and> P (mmio_table s j)" for j P
      using b assms(3,5,6) False by (cases "j = i") (auto split: if_splits)
    note * = this [of _ "\<lambda>l. r = (if rx_flag l then Some (line_data l) else None)"]
    have "mmio_board s' u = Some r \<longleftrightarrow> mmio_board s u = Some r"
      unfolding board_iff [OF assms(1)] board_iff [OF assms(2)] Bex_def * ..
    then show ?thesis unfolding fun_upd_other [OF False] .
  qed
qed

text \<open>The steps on the abstract scoreboard.\<close>

lemma board_send:
  assumes "mmio_inv s" and "mmio_window lo g s" and "g - lo < 512"
    and send: "mmio_send s pkt = Inr (i, s')"
  shows "mmio_board s (int (g mod 512)) = None"
    and "mmio_board s' = (mmio_board s)(int (g mod 512) \<mapsto> None)"
proof -
  have "glbl_mmio_tid s = of_nat g" using assms(2) by (simp add: mmio_window_def)
  then show n: "mmio_board s (int (g mod 512)) = None"
    using mmio_window_fresh [OF assms(2,3)] by (simp add: board_None tid_of_count)
  show "mmio_board s' = (mmio_board s)(int (g mod 512) \<mapsto> None)"
    using board_upd [OF assms(1) mmio_send_inv(1,4,5) [OF assms]] mmio_send_inv(3) [OF assms] n by simp
qed

lemma board_response:
  assumes inv: "mmio_inv s" and resp: "mmio_response s pkt = Inr s'"
  shows "mmio_inv s'"
    and "pkt_write_en pkt = MMIO_READ_REQ \<Longrightarrow>
      mmio_board s' = (mmio_board s)(pkt_tid pkt \<mapsto> Some (pkt_qword pkt ! 0))"
    and "pkt_write_en pkt = MMIO_WRITE_REQ \<Longrightarrow> mmio_board s' = (mmio_board s)(pkt_tid pkt := None)"
proof -
  obtain i l where i: "i \<in> mmio_busy s" "line_tid (mmio_table s i) = pkt_tid pkt"
    "line_tid l = pkt_tid pkt" "rx_flag l \<longrightarrow> tx_flag l" "mmio_table s' = (mmio_table s)(i := l)"
    and rd: "pkt_write_en pkt = MMIO_READ_REQ \<longrightarrow> l = \<lparr>line_data = pkt_qword pkt ! 0,
       line_tid = pkt_tid pkt, tx_flag = True, rx_flag = True\<rparr>"
    using mmio_response_slot [OF resp] by auto
  show inv': "mmio_inv s'" using mmio_inv_upd [OF inv i(5,1) _ i(4)] i(2,3) by simp
  have lt: "i < MMIO_MAX_OUTSTANDING" using i(1) by (simp add: mmio_busy_def)
  note b = board_upd [OF inv inv' i(5) lt i(3)]
  show "mmio_board s' = (mmio_board s)(pkt_tid pkt \<mapsto> Some (pkt_qword pkt ! 0))"
    if "pkt_write_en pkt = MMIO_READ_REQ" using b i(1,2) rd that by simp
  show "mmio_board s' = (mmio_board s)(pkt_tid pkt := None)"
    if "pkt_write_en pkt = MMIO_WRITE_REQ"
  proof -
    have "mmio_table s' i = l" using i(5) by simp
    then have "\<not> tx_flag l"
      using response_releases [OF inv i(1) i(2) [symmetric] that] resp by (auto simp: slot_release_def)
    then show ?thesis using b i(1,2) by simp
  qed
qed

lemma board_poll:
  assumes inv: "mmio_inv s" and i: "i < MMIO_MAX_OUTSTANDING" and poll: "mmio_read_poll s i = Inr (d, s')"
  shows "mmio_board s (line_tid (mmio_table s i)) = Some (Some d)"
    and "mmio_board s' = (mmio_board s)(line_tid (mmio_table s i) := None)"
proof -
  note p = mmio_poll_slot [OF poll]
  have b: "i \<in> mmio_busy s"
    using p(1) i inv by (auto simp: mmio_inv_def mmio_flags_ok_def mmio_busy_def)
  show "mmio_board s (line_tid (mmio_table s i)) = Some (Some d)"
    using p(1,2) board_iff [OF inv] b by auto
  show "mmio_board s' = (mmio_board s)(line_tid (mmio_table s i) := None)"
    using board_upd [OF inv mmio_poll_inv(1) [OF inv poll] p(3) i] b by simp
qed

lemma response_aborts:
  "mmio_response s pkt = Inl Sigabrt \<longleftrightarrow> mmio_board s (pkt_tid pkt) = None"
  by (auto simp: mmio_response_def mmio_board_def Let_def split: option.splits if_splits)

section \<open>Properties\<close>

text \<open>
  C27: the scoreboard implements a map from the ids in use to their answers. A request adds
  an unanswered id, the answer to a read stores its data under its id, the answer to a write
  removes the id, the end of a read removes the id and yields the data, and an answer
  to an id that is not in use aborts.
\<close>

theorem scoreboard_refines_map:
  assumes "mmio_inv s" and "mmio_window lo g s" and "g - lo < 512"
  shows "(\<forall>i s'. mmio_send s pkt = Inr (i, s') \<longrightarrow> mmio_inv s' \<and>
      mmio_board s (int (g mod 512)) = None \<and>
      mmio_board s' = (mmio_board s)(int (g mod 512) \<mapsto> None)) \<and>
    (\<forall>s'. mmio_response s pkt = Inr s' \<and> pkt_write_en pkt = MMIO_READ_REQ \<longrightarrow> mmio_inv s' \<and>
      mmio_board s' = (mmio_board s)(pkt_tid pkt \<mapsto> Some (pkt_qword pkt ! 0))) \<and>
    (\<forall>s'. mmio_response s pkt = Inr s' \<and> pkt_write_en pkt = MMIO_WRITE_REQ \<longrightarrow> mmio_inv s' \<and>
      mmio_board s' = (mmio_board s)(pkt_tid pkt := None)) \<and>
    (mmio_response s pkt = Inl Sigabrt \<longleftrightarrow> mmio_board s (pkt_tid pkt) = None) \<and>
    (\<forall>i d s'. i < MMIO_MAX_OUTSTANDING \<and> mmio_read_poll s i = Inr (d, s') \<longrightarrow> mmio_inv s' \<and>
      mmio_board s (line_tid (mmio_table s i)) = Some (Some d) \<and>
      mmio_board s' = (mmio_board s)(line_tid (mmio_table s i) := None))"
proof (intro conjI allI impI, goal_cases)
  case (1 i s') then show ?case by (rule mmio_send_inv(1) [OF assms])
next
  case (2 i s') then show ?case by (rule board_send(1) [OF assms])
next
  case (3 i s') then show ?case by (rule board_send(2) [OF assms])
next
  case (4 s') then show ?case using board_response(1) [OF assms(1)] by blast
next
  case (5 s') then show ?case using board_response(2) [OF assms(1)] by blast
next
  case (6 s') then show ?case using board_response(1) [OF assms(1)] by blast
next
  case (7 s') then show ?case using board_response(3) [OF assms(1)] by blast
next
  case 8 show ?case by (rule response_aborts)
next
  case (9 i d s') then show ?case using mmio_poll_inv(1) [OF assms(1)] by blast
next
  case (10 i d s') then show ?case using board_poll(1) [OF assms(1)] by blast
next
  case (11 i d s') then show ?case using board_poll(2) [OF assms(1)] by blast
qed

definition demo_mmio :: mmio_state where
  "demo_mmio = \<lparr>mmio_table = (\<lambda>_. \<lparr>line_data = 0, line_tid = 0, tx_flag = False, rx_flag = False\<rparr>),
     glbl_mmio_tid = 0, app2sim_mmioreq = [], mmio_afu_vbase = 0x7f0000000000, mmio_map = (\<lambda>_. 0)\<rparr>"

lemma demo_mmio_ok: "mmio_inv demo_mmio" "mmio_window 0 0 demo_mmio"
  by (simp_all add: mmio_inv_def mmio_flags_ok_def mmio_busy_def demo_mmio_def mmio_window_def)

theorem scoreboard_refines_map_witness:
  "\<exists>s'. mmio_send demo_mmio (mmio_new_pkt MMIO_READ_REQ 64 8 0 []) = Inr (0, s') \<and>
     mmio_board s' = (mmio_board demo_mmio)(0 \<mapsto> None)"
proof -
  have "\<exists>s'. mmio_send demo_mmio (mmio_new_pkt MMIO_READ_REQ 64 8 0 []) = Inr (0, s')"
    by (simp add: mmio_send_def generate_mmio_tid_def count_mmio_tid_used_def demo_mmio_def
        mmio_request_put_def find_empty_mmio_scoreboard_slot_def MMIO_MAX_OUTSTANDING_def
        upt_conv_Cons Let_def)
  then show ?thesis
    using scoreboard_refines_map [OF demo_mmio_ok, of "mmio_new_pkt MMIO_READ_REQ 64 8 0 []"] by auto
qed

text \<open>
  C4: a read returns the data of its own response, whatever the other threads do. Between
  the request of \<open>mmio_read64\<close> and its end there may be any number of responses to other ids
  and ends of other reads, and other requests as long as at most 512 ids were handed out since the
  oldest one in use; if the response with the id of the read is among these steps, the
  call returns its data and the slot is idle again.
\<close>

theorem mmio_read_returns_answer:
  assumes "mmio_inv s" and "mmio_window lo g s"
    and "g - lo + mmio_requests as + mmio_requests bs < 512"
    and "mmio_read_request s 64 offset afu_idx = Inr (i, s1)"
    and "pkt_tid rsp = int (g mod 512)" and "pkt_write_en rsp = MMIO_READ_REQ"
    and "\<forall>a \<in> set (as @ bs). mmio_quiet i (int (g mod 512)) a"
    and "mmio_run (as @ Response rsp # bs) s1 = Inr s2"
  shows "\<exists>s3. mmio_read64 (mmio_run (as @ Response rsp # bs)) s offset afu_idx =
      Inr (pkt_qword rsp ! 0, s3) \<and> mmio_inv s3 \<and> i \<notin> mmio_busy s3"
proof -
  have send: "mmio_send s (mmio_new_pkt MMIO_READ_REQ 64 offset afu_idx []) = Inr (i, s1)"
    using assms(4) by (auto simp: mmio_read_request_def split: if_splits)
  have lt: "g - lo < 512" "Suc g - lo + mmio_requests as \<le> 512"
    "Suc g + mmio_requests as - lo + mmio_requests bs \<le> 512"
    using assms(3) mmio_window_le [OF assms(2)] by linarith+
  note p = mmio_send_inv [OF assms(1,2) lt(1) send]
  have i: "i \<in> mmio_busy s1" "line_tid (mmio_table s1 i) = int (g mod 512)"
    using p(4,5) by (simp_all add: mmio_busy_def)
  obtain sa sb where run: "mmio_run as s1 = Inr sa" "mmio_response sa rsp = Inr sb" "mmio_run bs sb = Inr s2"
    using assms(8) by (auto simp: mmio_run_append)
  have a: "mmio_inv sa" "mmio_window lo (Suc g + mmio_requests as) sa"
    using mmio_run_inv [OF p(1,2) lt(2) run(1)] by auto
  have ia: "mmio_table sa i = mmio_table s1 i" "i \<in> mmio_busy sa"
    using mmio_run_quiet [OF p(1,2) lt(2) i(1) _ run(1)] assms(7) i(2) by auto
  have slot: "get_scoreboard_slot_by_tid sa (pkt_tid rsp) = Some i"
    using slot_by_tid_unique [OF a(1) ia(2)] ia(1) i(2) assms(5) by simp
  then have tb: "mmio_table sb i = \<lparr>line_data = pkt_qword rsp ! 0, line_tid = int (g mod 512),
      tx_flag = True, rx_flag = True\<rparr>" and gb: "glbl_mmio_tid sb = glbl_mmio_tid sa"
    using run(2) assms(5,6) by (auto simp: mmio_response_def Let_def)
  have b: "mmio_inv sb" "mmio_window lo (Suc g + mmio_requests as) sb"
    using mmio_do_inv [OF a, of "Response rsp" sb] run(2) lt by auto
  have ib: "i \<in> mmio_busy sb" using tb p(5) by (simp add: mmio_busy_def)
  have t2: "mmio_table s2 i = mmio_table sb i"
    using mmio_run_quiet [OF b lt(3) ib _ run(3)] assms(7) tb by auto
  have inv2: "mmio_inv s2" using mmio_run_inv [OF b lt(3) run(3)] by simp
  obtain s3 where s3: "mmio_read_poll s2 i = Inr (pkt_qword rsp ! 0, s3)"
    using t2 tb by (simp add: mmio_read_poll_def)
  then show ?thesis
    using assms(4,8) mmio_poll_inv(1,3) [OF inv2 s3] by (simp add: mmio_read64_def)
qed

lemma demo_mmio_read:
  "\<exists>s1 s2. mmio_read_request demo_mmio 64 8 0 = Inr (0, s1) \<and>
     mmio_run [Response (mmio_new_pkt MMIO_READ_REQ 64 8 0 [0x1234])] s1 = Inr s2"
  by (simp add: mmio_read_request_def mmio_send_def generate_mmio_tid_def count_mmio_tid_used_def
      demo_mmio_def mmio_request_put_def find_empty_mmio_scoreboard_slot_def mmio_response_def
      get_scoreboard_slot_by_tid_def MMIO_MAX_OUTSTANDING_def upt_conv_Cons Let_def mmio_new_pkt_def)

theorem mmio_read_returns_answer_witness:
  "\<exists>s3. mmio_read64 (mmio_run [Response (mmio_new_pkt MMIO_READ_REQ 64 8 0 [0x1234])]) demo_mmio 8 0 =
     Inr (0x1234, s3)"
proof -
  obtain s1 s2 where s: "mmio_read_request demo_mmio 64 8 0 = Inr (0, s1)"
    "mmio_run [Response (mmio_new_pkt MMIO_READ_REQ 64 8 0 [0x1234])] s1 = Inr s2"
    using demo_mmio_read by blast
  show ?thesis
    using mmio_read_returns_answer [OF demo_mmio_ok _ s(1), of "[]" "[]" "mmio_new_pkt MMIO_READ_REQ 64 8 0 [0x1234]" s2] s(2)
    by (auto simp: mmio_new_pkt_def)
qed

text \<open>A write that is sent and answered while one old request waits in slot 0.\<close>

definition one_pending :: "nat \<Rightarrow> mmio_state \<Rightarrow> bool" where
  "one_pending g s \<longleftrightarrow> glbl_mmio_tid s = of_nat g \<and> mmio_busy s = {0} \<and> mmio_flags_ok s \<and>
     line_tid (mmio_table s 0) = 0 \<and> \<not> rx_flag (mmio_table s 0)"

definition write_pkt :: mmio_pkt where
  "write_pkt = mmio_new_pkt MMIO_WRITE_REQ 64 0 0 []"

fun write_cycles :: "nat \<Rightarrow> nat \<Rightarrow> mmio_act list" where
  "write_cycles g 0 = []"
| "write_cycles g (Suc n) =
     Request write_pkt # Response (write_pkt\<lparr>pkt_tid := int (g mod 512)\<rparr>) # write_cycles (Suc g) n"

lemma slots_not_full: "{..<MMIO_MAX_OUTSTANDING} \<noteq> {}" "{..<MMIO_MAX_OUTSTANDING} \<noteq> {0}"
proof -
  have "1 \<in> {..<MMIO_MAX_OUTSTANDING}" by (simp add: MMIO_MAX_OUTSTANDING_def)
  then show "{..<MMIO_MAX_OUTSTANDING} \<noteq> {}" "{..<MMIO_MAX_OUTSTANDING} \<noteq> {0}"
    by (blast, metis insertE empty_iff one_neq_zero)
qed

lemma one_pending_send:
  assumes "one_pending g s"
  shows "\<exists>i s'. mmio_send s pkt = Inr (i, s') \<and> 0 < i \<and> i < MMIO_MAX_OUTSTANDING \<and>
    glbl_mmio_tid s' = of_nat (Suc g) \<and>
    mmio_table s' = (mmio_table s)(i := \<lparr>line_data = pkt_qword pkt ! 0,
      line_tid = int (g mod 512), tx_flag = True, rx_flag = False\<rparr>)"
proof -
  have "mmio_busy s \<noteq> {..<MMIO_MAX_OUTSTANDING}"
    using assms slots_not_full(2) by (metis one_pending_def)
  moreover have "mmio_flags_ok s" "glbl_mmio_tid s = of_nat g" "mmio_busy s = {0}"
    using assms by (simp_all add: one_pending_def)
  ultimately show ?thesis
    using mmio_send_cases(2) [of s pkt] by (fastforce simp: tid_of_count)
qed

lemma one_pending_cycle:
  assumes "one_pending g s" and "g mod 512 \<noteq> 0"
  shows "\<exists>s'. mmio_run [Request write_pkt, Response (write_pkt\<lparr>pkt_tid := int (g mod 512)\<rparr>)] s = Inr s' \<and>
    one_pending (Suc g) s'"
proof -
  obtain i s1 where s1: "mmio_send s write_pkt = Inr (i, s1)" "0 < i" "i < MMIO_MAX_OUTSTANDING"
    "glbl_mmio_tid s1 = of_nat (Suc g)" "mmio_table s1 = (mmio_table s)(i :=
      \<lparr>line_data = pkt_qword write_pkt ! 0, line_tid = int (g mod 512), tx_flag = True, rx_flag = False\<rparr>)"
    using one_pending_send [OF assms(1)] by blast
  have b: "mmio_busy s1 = {0, i}" using mmio_busy_upd [OF s1(5,3)] assms(1) by (auto simp: one_pending_def)
  have inv: "mmio_inv s1"
    using assms s1(2,5) unfolding mmio_inv_def b by (auto simp: one_pending_def mmio_flags_ok_def inj_on_def)
  have "mmio_response s1 (write_pkt\<lparr>pkt_tid := int (g mod 512)\<rparr>) = Inr (slot_release s1 i)"
    using response_releases [OF inv, of i] b s1(5) by (simp add: write_pkt_def mmio_new_pkt_def)
  moreover have "mmio_busy (slot_release s1 i) = {0}"
    using b s1(2) by (auto simp: slot_release_def mmio_busy_def)
  then have "one_pending (Suc g) (slot_release s1 i)"
    using assms(1) s1 by (auto simp: one_pending_def slot_release_def mmio_flags_ok_def)
  ultimately show ?thesis using s1(1) by simp
qed

lemma one_pending_cycles:
  "one_pending g s \<Longrightarrow> 0 < g \<Longrightarrow> g + n \<le> 512 \<Longrightarrow>
   \<exists>s'. mmio_run (write_cycles g n) s = Inr s' \<and> one_pending (g + n) s'"
proof (induction n arbitrary: g s)
  case (Suc n)
  then obtain s1 where s1: "mmio_run [Request write_pkt, Response (write_pkt\<lparr>pkt_tid := int (g mod 512)\<rparr>)] s = Inr s1"
    "one_pending (Suc g) s1" using one_pending_cycle [OF Suc.prems(1)] by auto
  obtain s' where s': "mmio_run (write_cycles (Suc g) n) s1 = Inr s'" "one_pending (Suc g + n) s'"
    using Suc.IH [OF s1(2)] Suc.prems by auto
  have "mmio_run (write_cycles g (Suc n)) s = Inr s'"
    using mmio_run_append [of "[Request write_pkt, Response (write_pkt\<lparr>pkt_tid := int (g mod 512)\<rparr>)]"
        "write_cycles (Suc g) n" s] s1(1) s'(1) by simp
  then show ?case using s'(2) by auto
qed auto

lemma one_pending_start:
  "\<exists>s'. mmio_run [Request (mmio_new_pkt MMIO_READ_REQ 64 8 0 [])] demo_mmio = Inr s' \<and> one_pending 1 s'"
proof -
  have "count_mmio_tid_used demo_mmio \<noteq> MMIO_MAX_OUTSTANDING"
    "find_empty_mmio_scoreboard_slot (demo_mmio\<lparr>glbl_mmio_tid := 1\<rparr>) = Some 0"
    by (auto simp: demo_mmio_def count_mmio_tid_used_def find_empty_mmio_scoreboard_slot_def
        MMIO_MAX_OUTSTANDING_def upt_conv_Cons)
  then show ?thesis
    by (auto simp: mmio_send_def generate_mmio_tid_def mmio_request_put_def Let_def
        one_pending_def mmio_busy_def mmio_flags_ok_def demo_mmio_def MMIO_MAX_OUTSTANDING_def)
qed


end
