(* ===== verification/Device_Tokens.thy ===== *)
theory Device_Tokens
  imports Buffer_Api Mmio_Scoreboard
begin

text \<open>
  Discovery of devices, \<open>src/ase/api/src/enum.c\<close>: the table \<open>aseToken\<close> of simulated devices, the
  probe that fills it, the filters of \<open>ase_fpgaEnumerate\<close>, copies of tokens and properties.

  A token pointer is an address in \<open>tok_mem\<close>: the addresses 1 to 32 are the elements of the
  static array \<open>aseToken\<close>, larger ones come from \<open>malloc\<close>, 0 is \<open>NULL\<close>. The structures of the
  OPAE headers have the fields that the source names; a set of valid fields stands for the
  bits of \<open>valid_fields\<close>, and the two members of the union \<open>u\<close> are separate fields, since the
  code reads only the member that belongs to the object type. \<open>is_parent p h\<close> stands for
  \<open>fpga_is_parent_child\<close> of that library on what the pointer \<open>p\<close>, cast to a header, points to.
\<close>

section \<open>Definitions\<close>

subsection \<open>Tokens and properties\<close>

definition ASE_TOKEN_MAGIC :: u64 where "ASE_TOKEN_MAGIC = 0x46504741544f4b40"
definition FPGA_PROPERTY_MAGIC :: u64 where "FPGA_PROPERTY_MAGIC = 0x4650474150524f50"
definition ASE_BBSID :: u64 where "ASE_BBSID = 0x63000023b637277"
definition ASE_BBS_VERSION :: "u8 \<times> u8 \<times> u16" where "ASE_BBS_VERSION = (6, 3, 0)"
definition ASE_NUM_SLOTS :: u32 where "ASE_NUM_SLOTS = 1"
definition ASE_SOCKET_ID :: u8 where "ASE_SOCKET_ID = 0"
definition ASE_NUM_MMIO :: u32 where "ASE_NUM_MMIO = 2"
definition ASE_NUM_IRQ :: u32 where "ASE_NUM_IRQ = 7"
definition ASE_VF0_FUNCTION :: u8 where "ASE_VF0_FUNCTION = 1"
definition ASE_VF0_SUBSYSTEM_DEVICE :: u16 where "ASE_VF0_SUBSYSTEM_DEVICE = 0x0A5F"
definition NOT_ESTABLISHED :: u32 where "NOT_ESTABLISHED = 0xC0C0"
definition ESTABLISHED :: u32 where "ESTABLISHED = 0xBEEF"

definition FPGA_FME_GUID :: "u8 list" where
  "FPGA_FME_GUID = [0xbf, 0xaf, 0x2a, 0xe9, 0x4a, 0x52, 0x46, 0xe3, 0x82, 0xfe,
     0x38, 0xf0, 0xf9, 0xe1, 0x77, 0x64]"

datatype fpga_objtype = FPGA_DEVICE | FPGA_ACCELERATOR
datatype fpga_interface = FPGA_IFC_SIM_DFL | FPGA_IFC_SIM_VFIO | FPGA_IFC_OTHER nat
datatype ase_portctrl_cmd = AFU_RESET | ASE_SIMKILL | ASE_INIT | UMSG_MODE
datatype fpga_accelerator_state = FPGA_ACCELERATOR_ASSIGNED | FPGA_ACCELERATOR_UNASSIGNED

record fpga_token_header =
  th_magic :: u64
  th_vendor_id :: u16
  th_device_id :: u16
  th_segment :: u16
  th_bus :: u8
  th_device :: u8
  th_function :: u8
  th_interface :: fpga_interface
  th_objtype :: fpga_objtype
  th_object_id :: u64
  th_guid :: "u8 list"
  th_subsystem_vendor_id :: u16
  th_subsystem_device_id :: u16

record fpga_token =
  tok_idx :: int
  tok_hdr :: fpga_token_header

datatype fpga_property = FPGA_PROPERTY_PARENT | FPGA_PROPERTY_OBJTYPE | FPGA_PROPERTY_SEGMENT
  | FPGA_PROPERTY_BUS | FPGA_PROPERTY_DEVICE | FPGA_PROPERTY_FUNCTION | FPGA_PROPERTY_SOCKETID
  | FPGA_PROPERTY_GUID | FPGA_PROPERTY_OBJECTID | FPGA_PROPERTY_VENDORID | FPGA_PROPERTY_DEVICEID
  | FPGA_PROPERTY_SUB_VENDORID | FPGA_PROPERTY_SUB_DEVICEID | FPGA_PROPERTY_INTERFACE
  | FPGA_PROPERTY_NUM_SLOTS | FPGA_PROPERTY_BBSID | FPGA_PROPERTY_BBSVERSION
  | FPGA_PROPERTY_ACCELERATOR_STATE | FPGA_PROPERTY_NUM_MMIO | FPGA_PROPERTY_NUM_INTERRUPTS

record fpga_properties =
  pr_magic :: u64
  pr_valid :: "fpga_property set"
  pr_parent :: nat
  pr_objtype :: fpga_objtype
  pr_segment :: u16
  pr_bus :: u8
  pr_device :: u8
  pr_function :: u8
  pr_socket_id :: u8
  pr_guid :: "u8 list"
  pr_object_id :: u64
  pr_vendor_id :: u16
  pr_device_id :: u16
  pr_subsystem_vendor_id :: u16
  pr_subsystem_device_id :: u16
  pr_interface :: fpga_interface
  pr_num_slots :: u32
  pr_bbs_id :: u64
  pr_bbs_version :: "u8 \<times> u8 \<times> u16"
  pr_state :: fpga_accelerator_state
  pr_num_mmio :: u32
  pr_num_interrupts :: u32

record 'al dev_state = "'al api_state" +
  tok_mem :: "nat \<Rightarrow> fpga_token option"
  aseNumTokens :: nat
  ase_open_afus_by_tok_idx :: u64
  session_exist_status :: u32
  mmio_is_mapped :: "nat \<Rightarrow> bool"
  dev_mmio :: mmio_state
  portctrl_sent :: "(ase_portctrl_cmd \<times> int) list"

text \<open>The address of \<open>aseToken[i]\<close>, and the initial table: three devices, the rest is zero.\<close>

definition aseToken :: "nat \<Rightarrow> nat" where "aseToken i = Suc i"

definition ase_token_pf0 :: fpga_token where
  "ase_token_pf0 = \<lparr>tok_idx = 0, tok_hdr = \<lparr>th_magic = ASE_TOKEN_MAGIC, th_vendor_id = 0x8086,
     th_device_id = 0x0A5E, th_segment = 0, th_bus = 1, th_device = 1, th_function = 0,
     th_interface = FPGA_IFC_SIM_DFL, th_objtype = FPGA_DEVICE, th_object_id = 0xa53a53,
     th_guid = replicate 16 0, th_subsystem_vendor_id = 0x8086, th_subsystem_device_id = 0x0A5E\<rparr>\<rparr>"

definition ase_token_port :: fpga_token where
  "ase_token_port = \<lparr>tok_idx = 1, tok_hdr = (tok_hdr ase_token_pf0)\<lparr>th_objtype := FPGA_ACCELERATOR,
     th_object_id := 0xa54a54\<rparr>\<rparr>"

definition ase_token_vf0 :: fpga_token where
  "ase_token_vf0 = \<lparr>tok_idx = 2, tok_hdr = (tok_hdr ase_token_pf0)\<lparr>th_function := ASE_VF0_FUNCTION,
     th_interface := FPGA_IFC_SIM_VFIO, th_objtype := FPGA_ACCELERATOR, th_object_id := 0xa55a55,
     th_subsystem_device_id := ASE_VF0_SUBSYSTEM_DEVICE\<rparr>\<rparr>"

definition ase_token_zero :: fpga_token where
  "ase_token_zero = \<lparr>tok_idx = 0, tok_hdr = \<lparr>th_magic = 0, th_vendor_id = 0, th_device_id = 0, th_segment = 0,
     th_bus = 0, th_device = 0, th_function = 0, th_interface = FPGA_IFC_OTHER 0, th_objtype = FPGA_DEVICE,
     th_object_id = 0, th_guid = replicate 16 0, th_subsystem_vendor_id = 0, th_subsystem_device_id = 0\<rparr>\<rparr>"

definition ase_tokens_init :: "nat \<Rightarrow> fpga_token option" where
  "ase_tokens_init p =
     (if p = 0 \<or> p > 32 then None else if p = aseToken 0 then Some ase_token_pf0
      else if p = aseToken 1 then Some ase_token_port else if p = aseToken 2 then Some ase_token_vf0
      else Some ase_token_zero)"

definition tok_read :: "'al dev_state \<Rightarrow> nat \<Rightarrow> fpga_token res" where
  "tok_read s p = (case tok_mem s p of None \<Rightarrow> Inl Segv | Some t \<Rightarrow> Inr t)"

text \<open>The loops of \<open>api_guid_to_fpga\<close>: the most significant byte of each word comes first.\<close>

definition api_guid_to_fpga :: "u64 \<Rightarrow> u64 \<Rightarrow> u8 list" where
  "api_guid_to_fpga guidh guidl =
     map (\<lambda>i. ucast (drop_bit (64 - 8 * (i + 1)) guidh AND 0xff)) [0..<8] @
     map (\<lambda>i. ucast (drop_bit (64 - 8 * (i + 1)) guidl AND 0xff)) [0..<8]"

subsection \<open>Filters\<close>

definition accelerator_state :: "u32 \<Rightarrow> fpga_accelerator_state" where
  "accelerator_state status =
     (if status = NOT_ESTABLISHED then FPGA_ACCELERATOR_UNASSIGNED else FPGA_ACCELERATOR_ASSIGNED)"

definition matches_filter ::
  "(nat \<Rightarrow> fpga_token_header \<Rightarrow> bool) \<Rightarrow> u32 \<Rightarrow> fpga_properties \<Rightarrow> fpga_token \<Rightarrow> bool" where
  "matches_filter is_parent status f tok =
     (let h = tok_hdr tok; valid = (\<lambda>p. p \<in> pr_valid f) in
      if valid FPGA_PROPERTY_PARENT \<and> (pr_parent f = 0 \<or> \<not> is_parent (pr_parent f) h) then False
      else if valid FPGA_PROPERTY_OBJTYPE \<and> pr_objtype f \<noteq> th_objtype h then False
      else if valid FPGA_PROPERTY_SEGMENT \<and> pr_segment f \<noteq> th_segment h then False
      else if valid FPGA_PROPERTY_BUS \<and> pr_bus f \<noteq> th_bus h then False
      else if valid FPGA_PROPERTY_DEVICE \<and> pr_device f \<noteq> th_device h then False
      else if valid FPGA_PROPERTY_FUNCTION \<and> pr_function f \<noteq> th_function h then False
      else if valid FPGA_PROPERTY_SOCKETID \<and> pr_socket_id f \<noteq> ASE_SOCKET_ID then False
      else if valid FPGA_PROPERTY_GUID \<and> th_guid h \<noteq> pr_guid f then False
      else if valid FPGA_PROPERTY_OBJECTID \<and> pr_object_id f \<noteq> th_object_id h then False
      else if valid FPGA_PROPERTY_VENDORID \<and> pr_vendor_id f \<noteq> th_vendor_id h then False
      else if valid FPGA_PROPERTY_DEVICEID \<and> pr_device_id f \<noteq> th_device_id h then False
      else if valid FPGA_PROPERTY_SUB_VENDORID \<and> pr_subsystem_vendor_id f \<noteq> th_subsystem_vendor_id h then False
      else if valid FPGA_PROPERTY_SUB_DEVICEID \<and> pr_subsystem_device_id f \<noteq> th_subsystem_device_id h then False
      else if valid FPGA_PROPERTY_INTERFACE \<and> pr_interface f \<noteq> th_interface h then False
      else if valid FPGA_PROPERTY_OBJTYPE \<and> pr_objtype f = FPGA_DEVICE then
        (if valid FPGA_PROPERTY_NUM_SLOTS \<and> (th_objtype h \<noteq> FPGA_DEVICE \<or> pr_num_slots f \<noteq> ASE_NUM_SLOTS) then False
         else if valid FPGA_PROPERTY_BBSID \<and> (th_objtype h \<noteq> FPGA_DEVICE \<or> pr_bbs_id f \<noteq> ASE_BBSID) then False
         else if valid FPGA_PROPERTY_BBSVERSION \<and> (th_objtype h \<noteq> FPGA_DEVICE \<or> pr_bbs_version f \<noteq> ASE_BBS_VERSION)
         then False else True)
      else if valid FPGA_PROPERTY_OBJTYPE \<and> pr_objtype f = FPGA_ACCELERATOR then
        (if valid FPGA_PROPERTY_ACCELERATOR_STATE \<and>
            (th_objtype h \<noteq> FPGA_ACCELERATOR \<or> pr_state f \<noteq> accelerator_state status) then False
         else if valid FPGA_PROPERTY_NUM_MMIO \<and> (th_objtype h \<noteq> FPGA_ACCELERATOR \<or> pr_num_mmio f \<noteq> ASE_NUM_MMIO) then False
         else if valid FPGA_PROPERTY_NUM_INTERRUPTS \<and>
            (th_objtype h \<noteq> FPGA_ACCELERATOR \<or> pr_num_interrupts f \<noteq> ASE_NUM_IRQ) then False
         else True)
      else True)"

text \<open>\<open>None\<close> is the \<open>NULL\<close> array of filters.\<close>

definition matches_filters ::
  "(nat \<Rightarrow> fpga_token_header \<Rightarrow> bool) \<Rightarrow> u32 \<Rightarrow> fpga_properties list option \<Rightarrow> nat \<Rightarrow> fpga_token \<Rightarrow> bool" where
  "matches_filters is_parent status filters num_filter tok =
     (case filters of
        None \<Rightarrow> True
      | Some fs \<Rightarrow> num_filter = 0 \<or> list_ex (\<lambda>i. matches_filter is_parent status (fs ! i) tok) [0..<num_filter])"

subsection \<open>Copies of tokens and properties\<close>

text \<open>The result of the call and, if it succeeds, the address stored in \<open>*dst\<close>.\<close>

definition ase_fpgaCloneToken ::
  "((nat \<Rightarrow> fpga_token option) \<Rightarrow> nat) \<Rightarrow> 'al dev_state \<Rightarrow> nat \<Rightarrow> bool \<Rightarrow>
   (fpga_result \<times> nat option \<times> 'al dev_state) res" where
  "ase_fpgaCloneToken malloc s src dst_null =
     (if src = 0 \<or> dst_null then Inr (FPGA_INVALID_PARAM, None, s)
      else rbind (tok_read s src) (\<lambda>t.
        if th_magic (tok_hdr t) \<noteq> ASE_TOKEN_MAGIC then Inr (FPGA_INVALID_PARAM, None, s)
        else let dst = malloc (tok_mem s) in
          Inr (FPGA_OK, Some dst, s\<lparr>tok_mem := (tok_mem s)(dst \<mapsto> t)\<rparr>)))"

text \<open>
  \<open>ase_fpgaDestroyToken\<close> with \<open>*token = p\<close>; \<open>None\<close> is a \<open>NULL\<close> argument. The C library aborts when
  an element of the static table is freed.
\<close>

definition ase_fpgaDestroyToken :: "'al dev_state \<Rightarrow> nat option \<Rightarrow> (fpga_result \<times> 'al dev_state) res" where
  "ase_fpgaDestroyToken s token =
     (case token of
        None \<Rightarrow> Inr (FPGA_INVALID_PARAM, s)
      | Some p \<Rightarrow>
          if p = 0 then Inr (FPGA_INVALID_PARAM, s)
          else rbind (tok_read s p) (\<lambda>t.
            if th_magic (tok_hdr t) \<noteq> ASE_TOKEN_MAGIC then Inr (FPGA_INVALID_PARAM, s)
            else if p \<le> 32 then Inl Sigabrt
            else Inr (FPGA_OK, s\<lparr>tok_mem := (tok_mem s)(p := None)\<rparr>)))"

definition token_get_parent :: "fpga_token \<Rightarrow> nat" where
  "token_get_parent t = (if th_guid (tok_hdr t) = FPGA_FME_GUID then 0 else aseToken 0)"

definition zero_properties :: fpga_properties where
  "zero_properties = \<lparr>pr_magic = 0, pr_valid = {}, pr_parent = 0, pr_objtype = FPGA_DEVICE, pr_segment = 0,
     pr_bus = 0, pr_device = 0, pr_function = 0, pr_socket_id = 0, pr_guid = replicate 16 0, pr_object_id = 0,
     pr_vendor_id = 0, pr_device_id = 0, pr_subsystem_vendor_id = 0, pr_subsystem_device_id = 0,
     pr_interface = FPGA_IFC_OTHER 0, pr_num_slots = 0, pr_bbs_id = 0, pr_bbs_version = (0, 0, 0),
     pr_state = FPGA_ACCELERATOR_ASSIGNED, pr_num_mmio = 0, pr_num_interrupts = 0\<rparr>"

definition set_valid :: "fpga_property list \<Rightarrow> fpga_properties \<Rightarrow> fpga_properties" where
  "set_valid ps f = f\<lparr>pr_valid := pr_valid f \<union> set ps\<rparr>"

text \<open>The two arms of \<open>ase_fpgaUpdateProperties\<close>; \<open>guid2\<close> is the id in \<open>aseToken[2]\<close>.\<close>

definition accelerator_properties :: "u32 \<Rightarrow> u8 list \<Rightarrow> fpga_token \<Rightarrow> fpga_properties \<Rightarrow> fpga_properties" where
  "accelerator_properties status guid2 t f =
     (let f = f\<lparr>pr_parent := token_get_parent t\<rparr>;
          f = (if pr_parent f \<noteq> 0 then set_valid [FPGA_PROPERTY_PARENT] f else f);
          f = (if th_interface (tok_hdr t) = FPGA_IFC_SIM_VFIO
               then set_valid [FPGA_PROPERTY_GUID] (f\<lparr>pr_guid := guid2\<rparr>) else f)
      in set_valid [FPGA_PROPERTY_ACCELERATOR_STATE, FPGA_PROPERTY_NUM_MMIO, FPGA_PROPERTY_NUM_INTERRUPTS]
           (f\<lparr>pr_state := accelerator_state status, pr_num_mmio := ASE_NUM_MMIO, pr_num_interrupts := ASE_NUM_IRQ\<rparr>))"

definition device_properties :: "fpga_properties \<Rightarrow> fpga_properties" where
  "device_properties f =
     set_valid [FPGA_PROPERTY_GUID, FPGA_PROPERTY_NUM_SLOTS, FPGA_PROPERTY_BBSID, FPGA_PROPERTY_BBSVERSION]
       (f\<lparr>pr_guid := FPGA_FME_GUID, pr_num_slots := ASE_NUM_SLOTS, pr_bbs_id := ASE_BBSID, pr_bbs_version := ASE_BBS_VERSION\<rparr>)"

definition ase_fpgaUpdateProperties ::
  "'al dev_state \<Rightarrow> nat \<Rightarrow> fpga_properties \<Rightarrow> (fpga_result \<times> fpga_properties) res" where
  "ase_fpgaUpdateProperties s token prop =
     (if token = 0 then Inr (FPGA_INVALID_PARAM, prop)
      else if pr_magic prop \<noteq> FPGA_PROPERTY_MAGIC then Inr (FPGA_INVALID_PARAM, prop)
      else rbind (tok_read s token) (\<lambda>t.
        let h = tok_hdr t in
        if th_magic h \<noteq> ASE_TOKEN_MAGIC then Inr (FPGA_INVALID_PARAM, prop)
        else rbind (tok_read s (aseToken 2)) (\<lambda>vf0.
          let f = zero_properties\<lparr>pr_magic := FPGA_PROPERTY_MAGIC\<rparr>;
              f = (if th_objtype h = FPGA_ACCELERATOR
                   then accelerator_properties (session_exist_status s) (th_guid (tok_hdr vf0)) t f
                   else device_properties f);
              f = f\<lparr>pr_objtype := th_objtype h, pr_segment := th_segment h, pr_bus := th_bus h,
                    pr_device := th_device h, pr_function := th_function h, pr_socket_id := ASE_SOCKET_ID,
                    pr_vendor_id := th_vendor_id h, pr_device_id := th_device_id h,
                    pr_object_id := th_object_id h, pr_interface := th_interface h,
                    pr_subsystem_vendor_id := th_subsystem_vendor_id h,
                    pr_subsystem_device_id := th_subsystem_device_id h\<rparr>
          in Inr (FPGA_OK, set_valid [FPGA_PROPERTY_OBJTYPE, FPGA_PROPERTY_SEGMENT, FPGA_PROPERTY_BUS,
               FPGA_PROPERTY_DEVICE, FPGA_PROPERTY_FUNCTION, FPGA_PROPERTY_SOCKETID, FPGA_PROPERTY_VENDORID,
               FPGA_PROPERTY_DEVICEID, FPGA_PROPERTY_OBJECTID, FPGA_PROPERTY_INTERFACE,
               FPGA_PROPERTY_SUB_VENDORID, FPGA_PROPERTY_SUB_DEVICEID] f))))"

text \<open>
  The other calls on properties; the object that a call allocates is given as its contents,
  \<open>None\<close> where \<open>*prop\<close> is not stored.
\<close>

definition ase_fpgaGetProperties ::
  "'al dev_state \<Rightarrow> nat \<Rightarrow> bool \<Rightarrow> (fpga_result \<times> fpga_properties option) res" where
  "ase_fpgaGetProperties s token prop_null =
     (if prop_null then Inr (FPGA_INVALID_PARAM, None)
      else let f = zero_properties\<lparr>pr_magic := FPGA_PROPERTY_MAGIC\<rparr> in
        if token = 0 then Inr (FPGA_OK, Some f)
        else rbind (ase_fpgaUpdateProperties s token f) (\<lambda>(r, f).
          Inr (r, if r \<noteq> FPGA_OK then None else Some f)))"

definition ase_fpgaGetPropertiesFromHandle ::
  "'al dev_state \<Rightarrow> nat \<Rightarrow> bool \<Rightarrow> (fpga_result \<times> fpga_properties option) res" where
  "ase_fpgaGetPropertiesFromHandle s h prop_null =
     (if h = 0 then Inr (FPGA_INVALID_PARAM, None)
      else case handles s h of
             None \<Rightarrow> Inl Segv
           | Some hdl \<Rightarrow> ase_fpgaGetProperties s (h_token hdl) prop_null)"

definition ase_fpgaCloneProperties ::
  "fpga_properties option \<Rightarrow> bool \<Rightarrow> fpga_result \<times> fpga_properties option" where
  "ase_fpgaCloneProperties src dst_null =
     (case src of
        None \<Rightarrow> (FPGA_INVALID_PARAM, None)
      | Some f \<Rightarrow> if dst_null then (FPGA_INVALID_PARAM, None)
                 else if pr_magic f \<noteq> FPGA_PROPERTY_MAGIC then (FPGA_INVALID_PARAM, None)
                 else (FPGA_OK, Some f))"

subsection \<open>The session and the enumeration\<close>

text \<open>
  Port control: each command is sent and its acknowledgement awaited. The software reset
  waits until no MMIO request is pending.
\<close>

definition ase_portctrl :: "ase_portctrl_cmd \<Rightarrow> int \<Rightarrow> 'al dev_state \<Rightarrow> 'al dev_state" where
  "ase_portctrl command value s = s\<lparr>portctrl_sent := portctrl_sent s @ [(command, value)]\<rparr>"

definition send_swreset :: "'al dev_state \<Rightarrow> 'al dev_state res" where
  "send_swreset s = (if count_mmio_tid_used (dev_mmio s) \<noteq> 0 then Inl Blocked
     else Inr (ase_portctrl AFU_RESET 0 (ase_portctrl AFU_RESET 1 s)))"

text \<open>
  \<open>session_init\<close> on the state of this model: host memory, MMIO map, scoreboard and commands.
  \<open>vbase\<close> is the address of the MMIO map that \<open>allocate_buffer\<close> obtains.
\<close>

definition session_init ::
  "(pt_mem \<Rightarrow> u64 option) \<Rightarrow> 'al mem_alloc \<Rightarrow> int \<Rightarrow> u64 \<Rightarrow> 'al dev_state \<Rightarrow> 'al dev_state res" where
  "session_init mm ma pid vbase s =
     (if session_exist_status s = ESTABLISHED then Inr s
      else rbind (send_swreset s) (\<lambda>s.
        let s = s\<lparr>api_hm := snd (ase_host_memory_initialize mm ma (api_hm s)), dev_mmio := (dev_mmio s)\<lparr>glbl_mmio_tid := 0\<rparr>\<rparr>;
            s = ase_portctrl ASE_INIT pid s;
            s = s\<lparr>dev_mmio := (dev_mmio s)\<lparr>mmio_afu_vbase := vbase + 0x40000\<rparr>\<rparr>;
            s = ase_portctrl UMSG_MODE 0 s
        in Inr (s\<lparr>dev_mmio := mmio_scoreboard_init (dev_mmio s), session_exist_status := ESTABLISHED\<rparr>)))"

text \<open>
  The loop that probes the VFs. \<open>env\<close> is what the simulator and the watcher thread do while an
  MMIO read waits.
\<close>

fun probe_vfs :: "(mmio_state \<Rightarrow> mmio_state res) \<Rightarrow> nat list \<Rightarrow> 'al dev_state \<Rightarrow> 'al dev_state res" where
  "probe_vfs env [] s = Inr s"
| "probe_vfs env (i # is) s =
     rbind (mmio_read64 env (dev_mmio s) 0x8 (int i - 2)) (\<lambda>(d0, m).
     rbind (mmio_read64 env m 0x10 (int i - 2)) (\<lambda>(d1, m).
       let s = s\<lparr>dev_mmio := m\<rparr> in
       if d0 = - 1 \<and> d1 = - 1 then Inr s
       else rbind (tok_read s (aseToken i)) (\<lambda>own.
         rbind (tok_read s (aseToken (i - 1))) (\<lambda>prev.
           let t = (if i > 2
                    then prev\<lparr>tok_idx := tok_idx prev + 1,
                           tok_hdr := (tok_hdr prev)\<lparr>th_function := th_function (tok_hdr prev) + 1\<rparr>\<rparr>
                    else own);
               t = t\<lparr>tok_hdr := (tok_hdr t)\<lparr>th_guid := api_guid_to_fpga d1 d0\<rparr>\<rparr>
           in probe_vfs env is (s\<lparr>tok_mem := (tok_mem s)(aseToken i \<mapsto> t), aseNumTokens := i + 1\<rparr>)))))"

definition enum_session ::
  "(pt_mem \<Rightarrow> u64 option) \<Rightarrow> 'al mem_alloc \<Rightarrow> int \<Rightarrow> u64 \<Rightarrow> (mmio_state \<Rightarrow> mmio_state res) \<Rightarrow> 'al dev_state \<Rightarrow>
   'al dev_state res" where
  "enum_session mm ma pid vbase env s =
     (if session_exist_status s = NOT_ESTABLISHED
      then rbind (session_init mm ma pid vbase s) (\<lambda>s.
        rbind (tok_read s (aseToken 0)) (\<lambda>t.
        rbind (probe_vfs env [2..<32]
          (s\<lparr>tok_mem := (tok_mem s)(aseToken 0 \<mapsto> t\<lparr>tok_hdr := (tok_hdr t)\<lparr>th_guid := FPGA_FME_GUID\<rparr>\<rparr>)\<rparr>)) (\<lambda>s.
          Inr (s\<lparr>session_exist_status := ESTABLISHED\<rparr>))))
      else Inr s)"

text \<open>The loop over the table, with \<open>*num_matches\<close> and the array \<open>tokens\<close>.\<close>

fun enum_loop ::
  "((nat \<Rightarrow> fpga_token option) \<Rightarrow> nat) \<Rightarrow> (nat \<Rightarrow> fpga_token_header \<Rightarrow> bool) \<Rightarrow> fpga_properties list option \<Rightarrow> nat \<Rightarrow>
   nat \<Rightarrow> nat list \<Rightarrow> nat \<Rightarrow> nat list \<Rightarrow> 'al dev_state \<Rightarrow> (nat \<times> nat list \<times> 'al dev_state) res" where
  "enum_loop malloc is_parent filters num_filters max_tokens [] n tokens s = Inr (n, tokens, s)"
| "enum_loop malloc is_parent filters num_filters max_tokens (i # is) n tokens s =
     (if bit (ase_open_afus_by_tok_idx s) i
      then enum_loop malloc is_parent filters num_filters max_tokens is n tokens s
      else rbind (tok_read s (aseToken i)) (\<lambda>t.
        if matches_filters is_parent (session_exist_status s) filters num_filters t
        then rbind (if n < max_tokens
                    then rbind (ase_fpgaCloneToken malloc s (aseToken i) False) (\<lambda>(r, dst, s).
                      Inr (case dst of None \<Rightarrow> tokens | Some p \<Rightarrow> tokens[n := p], s))
                    else Inr (tokens, s)) (\<lambda>(tokens, s).
               enum_loop malloc is_parent filters num_filters max_tokens is (n + 1) tokens s)
        else enum_loop malloc is_parent filters num_filters max_tokens is n tokens s))"

text \<open>
  \<open>ase_fpgaEnumerate\<close>: the result, and \<open>*num_matches\<close> with the array \<open>tokens\<close> if the call succeeds.
\<close>

definition ase_fpgaEnumerate ::
  "(pt_mem \<Rightarrow> u64 option) \<Rightarrow> 'al mem_alloc \<Rightarrow> int \<Rightarrow> u64 \<Rightarrow> (mmio_state \<Rightarrow> mmio_state res) \<Rightarrow>
   ((nat \<Rightarrow> fpga_token option) \<Rightarrow> nat) \<Rightarrow> (nat \<Rightarrow> fpga_token_header \<Rightarrow> bool) \<Rightarrow>
   fpga_properties list option \<Rightarrow> nat \<Rightarrow> nat list option \<Rightarrow> nat \<Rightarrow> bool \<Rightarrow> 'al dev_state \<Rightarrow>
   (fpga_result \<times> (nat \<times> nat list) option \<times> 'al dev_state) res" where
  "ase_fpgaEnumerate mm ma pid vbase env malloc is_parent filters num_filters tokens max_tokens num_matches_null s =
     (if num_filters > 0 \<and> filters = None then Inr (FPGA_INVALID_PARAM, None, s)
      else if num_matches_null then Inr (FPGA_INVALID_PARAM, None, s)
      else if max_tokens > 0 \<and> tokens = None then Inr (FPGA_INVALID_PARAM, None, s)
      else if num_filters = 0 \<and> filters \<noteq> None then Inr (FPGA_INVALID_PARAM, None, s)
      else rbind (enum_session mm ma pid vbase env s) (\<lambda>s.
        rbind (enum_loop malloc is_parent filters num_filters max_tokens [0..<aseNumTokens s] 0
                (case tokens of None \<Rightarrow> [] | Some ts \<Rightarrow> ts) s) (\<lambda>(n, ts, s).
          Inr (FPGA_OK, Some (n, ts), s))))"

subsection \<open>Specification\<close>

text \<open>
  What a filter asks for: each valid property that applies to the object type it names agrees
  with the token.
\<close>

fun prop_agrees ::
  "(nat \<Rightarrow> fpga_token_header \<Rightarrow> bool) \<Rightarrow> u32 \<Rightarrow> fpga_properties \<Rightarrow> fpga_token_header \<Rightarrow> fpga_property \<Rightarrow> bool" where
  "prop_agrees is_parent status f h FPGA_PROPERTY_PARENT = (pr_parent f \<noteq> 0 \<and> is_parent (pr_parent f) h)"
| "prop_agrees is_parent status f h FPGA_PROPERTY_OBJTYPE = (pr_objtype f = th_objtype h)"
| "prop_agrees is_parent status f h FPGA_PROPERTY_SEGMENT = (pr_segment f = th_segment h)"
| "prop_agrees is_parent status f h FPGA_PROPERTY_BUS = (pr_bus f = th_bus h)"
| "prop_agrees is_parent status f h FPGA_PROPERTY_DEVICE = (pr_device f = th_device h)"
| "prop_agrees is_parent status f h FPGA_PROPERTY_FUNCTION = (pr_function f = th_function h)"
| "prop_agrees is_parent status f h FPGA_PROPERTY_SOCKETID = (pr_socket_id f = ASE_SOCKET_ID)"
| "prop_agrees is_parent status f h FPGA_PROPERTY_GUID = (pr_guid f = th_guid h)"
| "prop_agrees is_parent status f h FPGA_PROPERTY_OBJECTID = (pr_object_id f = th_object_id h)"
| "prop_agrees is_parent status f h FPGA_PROPERTY_VENDORID = (pr_vendor_id f = th_vendor_id h)"
| "prop_agrees is_parent status f h FPGA_PROPERTY_DEVICEID = (pr_device_id f = th_device_id h)"
| "prop_agrees is_parent status f h FPGA_PROPERTY_SUB_VENDORID = (pr_subsystem_vendor_id f = th_subsystem_vendor_id h)"
| "prop_agrees is_parent status f h FPGA_PROPERTY_SUB_DEVICEID = (pr_subsystem_device_id f = th_subsystem_device_id h)"
| "prop_agrees is_parent status f h FPGA_PROPERTY_INTERFACE = (pr_interface f = th_interface h)"
| "prop_agrees is_parent status f h FPGA_PROPERTY_NUM_SLOTS = (pr_num_slots f = ASE_NUM_SLOTS)"
| "prop_agrees is_parent status f h FPGA_PROPERTY_BBSID = (pr_bbs_id f = ASE_BBSID)"
| "prop_agrees is_parent status f h FPGA_PROPERTY_BBSVERSION = (pr_bbs_version f = ASE_BBS_VERSION)"
| "prop_agrees is_parent status f h FPGA_PROPERTY_ACCELERATOR_STATE = (pr_state f = accelerator_state status)"
| "prop_agrees is_parent status f h FPGA_PROPERTY_NUM_MMIO = (pr_num_mmio f = ASE_NUM_MMIO)"
| "prop_agrees is_parent status f h FPGA_PROPERTY_NUM_INTERRUPTS = (pr_num_interrupts f = ASE_NUM_IRQ)"

definition prop_applies :: "fpga_properties \<Rightarrow> fpga_property \<Rightarrow> bool" where
  "prop_applies f p \<longleftrightarrow>
     (p \<in> {FPGA_PROPERTY_NUM_SLOTS, FPGA_PROPERTY_BBSID, FPGA_PROPERTY_BBSVERSION}
        \<longrightarrow> FPGA_PROPERTY_OBJTYPE \<in> pr_valid f \<and> pr_objtype f = FPGA_DEVICE) \<and>
     (p \<in> {FPGA_PROPERTY_ACCELERATOR_STATE, FPGA_PROPERTY_NUM_MMIO, FPGA_PROPERTY_NUM_INTERRUPTS}
        \<longrightarrow> FPGA_PROPERTY_OBJTYPE \<in> pr_valid f \<and> pr_objtype f = FPGA_ACCELERATOR)"

definition token_wanted ::
  "(nat \<Rightarrow> fpga_token_header \<Rightarrow> bool) \<Rightarrow> u32 \<Rightarrow> fpga_properties list \<Rightarrow> fpga_token \<Rightarrow> bool" where
  "token_wanted is_parent status fs t \<longleftrightarrow> fs = [] \<or>
     (\<exists>f \<in> set fs. \<forall>p \<in> pr_valid f. prop_applies f p \<longrightarrow> prop_agrees is_parent status f (tok_hdr t) p)"

text \<open>The table: every element is there, the ones in use are tokens, and all memory is finite.\<close>

definition tokens_ok :: "'al dev_state \<Rightarrow> bool" where
  "tokens_ok s \<longleftrightarrow> finite (dom (tok_mem s)) \<and> 3 \<le> aseNumTokens s \<and> aseNumTokens s \<le> 32 \<and>
     (\<forall>i < 32. \<exists>t. tok_mem s (aseToken i) = Some t \<and>
        (i < aseNumTokens s \<longrightarrow> th_magic (tok_hdr t) = ASE_TOKEN_MAGIC \<and> tok_idx t = int i))"

abbreviation ase_tok :: "'al dev_state \<Rightarrow> nat \<Rightarrow> fpga_token" where
  "ase_tok s i \<equiv> the (tok_mem s (aseToken i))"

section \<open>Filters\<close>

lemma all_properties:
  "(\<forall>p. P p) \<longleftrightarrow> P FPGA_PROPERTY_PARENT \<and> P FPGA_PROPERTY_OBJTYPE \<and> P FPGA_PROPERTY_SEGMENT \<and>
     P FPGA_PROPERTY_BUS \<and> P FPGA_PROPERTY_DEVICE \<and> P FPGA_PROPERTY_FUNCTION \<and> P FPGA_PROPERTY_SOCKETID \<and>
     P FPGA_PROPERTY_GUID \<and> P FPGA_PROPERTY_OBJECTID \<and> P FPGA_PROPERTY_VENDORID \<and> P FPGA_PROPERTY_DEVICEID \<and>
     P FPGA_PROPERTY_SUB_VENDORID \<and> P FPGA_PROPERTY_SUB_DEVICEID \<and> P FPGA_PROPERTY_INTERFACE \<and>
     P FPGA_PROPERTY_NUM_SLOTS \<and> P FPGA_PROPERTY_BBSID \<and> P FPGA_PROPERTY_BBSVERSION \<and>
     P FPGA_PROPERTY_ACCELERATOR_STATE \<and> P FPGA_PROPERTY_NUM_MMIO \<and> P FPGA_PROPERTY_NUM_INTERRUPTS"
  (is "_ \<longleftrightarrow> ?all")
proof
  assume ?all
  show "\<forall>p. P p"
  proof
    fix p
    show "P p" using \<open>?all\<close> by (cases p) simp_all
  qed
qed simp

lemma matches_filter_spec:
  "matches_filter is_parent status f t \<longleftrightarrow>
     (\<forall>p \<in> pr_valid f. prop_applies f p \<longrightarrow> prop_agrees is_parent status f (tok_hdr t) p)"
proof -
  have "(\<forall>p \<in> pr_valid f. prop_applies f p \<longrightarrow> prop_agrees is_parent status f (tok_hdr t) p) \<longleftrightarrow>
      (\<forall>p. p \<in> pr_valid f \<longrightarrow> prop_applies f p \<longrightarrow> prop_agrees is_parent status f (tok_hdr t) p)" by blast
  then show ?thesis
    unfolding all_properties
    by (cases "pr_objtype f"; cases "FPGA_PROPERTY_OBJTYPE \<in> pr_valid f")
      (simp add: matches_filter_def Let_def prop_applies_def; argo)+
qed

lemma list_ex_nth: "list_ex (\<lambda>i. P (xs ! i)) [0..<length xs] \<longleftrightarrow> (\<exists>x \<in> set xs. P x)"
  unfolding list_ex_iff by (metis atLeastLessThan_iff in_set_conv_nth set_upt zero_le)

lemma matches_filters_spec:
  assumes "filters = (if fs = [] then None else Some fs)"
  shows "matches_filters is_parent status filters (length fs) t \<longleftrightarrow> token_wanted is_parent status fs t"
  unfolding assms token_wanted_def matches_filter_spec [symmetric] 
  using list_ex_nth [of "\<lambda>f. matches_filter is_parent status f t" fs] by (simp add: matches_filters_def)

section \<open>Enumeration\<close>

lemma tokens_okD:
  assumes "tokens_ok s"
  shows "finite (dom (tok_mem s))" and "3 \<le> aseNumTokens s" and "aseNumTokens s \<le> 32"
    and "i < 32 \<Longrightarrow> tok_mem s (aseToken i) = Some (ase_tok s i)"
    and "i < aseNumTokens s \<Longrightarrow> th_magic (tok_hdr (ase_tok s i)) = ASE_TOKEN_MAGIC"
    and "i < aseNumTokens s \<Longrightarrow> tok_idx (ase_tok s i) = int i"
proof -
  show "finite (dom (tok_mem s))" and "3 \<le> aseNumTokens s" and n: "aseNumTokens s \<le> 32"
    using assms by (simp_all add: tokens_ok_def)
  show "i < 32 \<Longrightarrow> tok_mem s (aseToken i) = Some (ase_tok s i)" using assms by (auto simp: tokens_ok_def)
  assume "i < aseNumTokens s"
  moreover from this n have "i < 32" by simp
  ultimately have "\<exists>t. tok_mem s (aseToken i) = Some t \<and> th_magic (tok_hdr t) = ASE_TOKEN_MAGIC \<and> tok_idx t = int i"
    using assms unfolding tokens_ok_def by blast
  then show "th_magic (tok_hdr (ase_tok s i)) = ASE_TOKEN_MAGIC" and "tok_idx (ase_tok s i) = int i" by auto
qed

text \<open>
  The copies that a loop stores: the \<open>k\<close>-th one is at a fresh address and is a copy of the
  \<open>k\<close>-th token selected; nothing else in the array or the memory changes.
\<close>

definition cloned ::
  "(nat \<Rightarrow> fpga_token option) \<Rightarrow> nat list \<Rightarrow> nat \<Rightarrow> nat \<Rightarrow> nat list \<Rightarrow> nat list \<Rightarrow> (nat \<Rightarrow> fpga_token option) \<Rightarrow> bool" where
  "cloned m js n mx ts ts' m' \<longleftrightarrow> length ts' = length ts \<and> finite (dom m') \<and>
     (\<forall>p. m p \<noteq> None \<longrightarrow> m' p = m p) \<and>
     (\<forall>k < length js. n + k < mx \<longrightarrow> m (ts' ! (n + k)) = None \<and> m' (ts' ! (n + k)) = m (aseToken (js ! k))) \<and>
     (\<forall>k < length js. \<forall>l < k. n + k < mx \<longrightarrow> ts' ! (n + k) \<noteq> ts' ! (n + l)) \<and>
     (\<forall>j. j < n \<or> n + length js \<le> j \<or> mx \<le> j \<longrightarrow> ts' ! j = ts ! j)"

lemma cloned_Nil: "finite (dom m) \<Longrightarrow> cloned m [] n mx ts ts m"
  by (simp add: cloned_def)

lemma cloned_skip:
  assumes "cloned m js (n + 1) mx ts ts' m'" and "mx \<le> n"
  shows "cloned m (j # js) n mx ts ts' m'"
  using assms by (auto simp: cloned_def)

lemma cloned_Cons:
  assumes c: "cloned (m(p \<mapsto> t)) js (n + 1) mx (ts[n := p]) ts' m'"
    and p: "m p = None" and j: "m (aseToken j) = Some t" and js: "\<forall>k \<in> set js. m (aseToken k) \<noteq> None"
    and n: "n < mx" "mx \<le> length ts"
  shows "cloned m (j # js) n mx ts ts' m'"
proof -
  let ?m = "m(p \<mapsto> t)"
  have C: "length ts' = length ts" "finite (dom m')" "\<And>q. ?m q \<noteq> None \<Longrightarrow> m' q = ?m q"
    "\<And>k. k < length js \<Longrightarrow> n + 1 + k < mx \<Longrightarrow> ?m (ts' ! (n + 1 + k)) = None \<and> m' (ts' ! (n + 1 + k)) = ?m (aseToken (js ! k))"
    "\<And>k l. k < length js \<Longrightarrow> l < k \<Longrightarrow> n + 1 + k < mx \<Longrightarrow> ts' ! (n + 1 + k) \<noteq> ts' ! (n + 1 + l)"
    "\<And>i. i < n + 1 \<or> n + 1 + length js \<le> i \<or> mx \<le> i \<Longrightarrow> ts' ! i = ts[n := p] ! i"
    using c unfolding cloned_def by auto
  have first: "ts' ! n = p" using C(6) [of n] n by simp
  have mp: "m' q = m q" if "m q \<noteq> None" for q using C(3) [of q] that p by (auto split: if_splits)
  have at: "m (ts' ! (n + k)) = None \<and> m' (ts' ! (n + k)) = m (aseToken ((j # js) ! k)) \<and> (k \<noteq> 0 \<longrightarrow> ts' ! (n + k) \<noteq> p)"
    if k: "k < length (j # js)" "n + k < mx" for k
  proof (cases k)
    case 0
    then show ?thesis using first p j C(3) [of p] by simp
  next
    case (Suc k')
    with k have k': "k' < length js" "n + 1 + k' < mx" by auto
    have "m (aseToken (js ! k')) \<noteq> None" using js k'(1) nth_mem by blast
    then have "?m (aseToken (js ! k')) = m (aseToken (js ! k'))" using p by auto
    then show ?thesis using C(4) [OF k'] Suc by (auto split: if_splits)
  qed
  have dist: "ts' ! (n + k) \<noteq> ts' ! (n + l)" if k: "k < length (j # js)" "l < k" "n + k < mx" for k l
  proof (cases l)
    case 0
    then show ?thesis using at [OF k(1,3)] first k(2) by simp
  next
    case (Suc l')
    then obtain k' where "k = Suc k'" using k(2) by (cases k) auto
    then show ?thesis using C(5) [of k' l'] k Suc by simp
  qed
  have "ts' ! i = ts ! i" if "i < n \<or> n + length (j # js) \<le> i \<or> mx \<le> i" for i
    using C(6) [of i] that n by (auto simp: nth_list_update)
  then show ?thesis using C(1,2) mp at dist unfolding cloned_def by blast
qed

definition enum_sel ::
  "(nat \<Rightarrow> fpga_token_header \<Rightarrow> bool) \<Rightarrow> fpga_properties list option \<Rightarrow> nat \<Rightarrow> 'al dev_state \<Rightarrow> nat \<Rightarrow> bool" where
  "enum_sel is_parent filters nf s i \<longleftrightarrow> \<not> bit (ase_open_afus_by_tok_idx s) i \<and>
     matches_filters is_parent (session_exist_status s) filters nf (ase_tok s i)"

lemma enum_loop_spec:
  fixes s :: "'a dev_state"
  assumes "malloc_fresh malloc" and "finite (dom (tok_mem s))"
    and "\<forall>i \<in> set is. \<exists>t. tok_mem s (aseToken i) = Some t \<and> th_magic (tok_hdr t) = ASE_TOKEN_MAGIC"
    and "mx \<le> length ts"
    and "js = filter (enum_sel is_parent filters nf s) is"
  shows "\<exists>ts' m'. enum_loop malloc is_parent filters nf mx is n ts s = Inr (n + length js, ts', s\<lparr>tok_mem := m'\<rparr>) \<and>
    cloned (tok_mem s) js n mx ts ts' m'"
  using assms
proof (induction "is" arbitrary: s n ts js)
  case Nil
  then show ?case using cloned_Nil by (intro exI [of _ ts] exI [of _ "tok_mem s"]) auto
next
  case (Cons i "is")
  obtain t where t: "tok_mem s (aseToken i) = Some t" "th_magic (tok_hdr t) = ASE_TOKEN_MAGIC" using Cons.prems(3) by auto
  define sel where "sel = enum_sel is_parent filters nf s"
  have js: "js = filter sel (i # is)" using Cons.prems(5) by (simp add: sel_def)
  have rest: "\<forall>i \<in> set is. \<exists>t. tok_mem s (aseToken i) = Some t \<and> th_magic (tok_hdr t) = ASE_TOKEN_MAGIC"
    using Cons.prems(3) by simp
  show ?case
  proof (cases "sel i")
    case False
    then have "enum_loop malloc is_parent filters nf mx (i # is) n ts s = enum_loop malloc is_parent filters nf mx is n ts s"
      by (auto simp: sel_def enum_sel_def tok_read_def t)
    then show ?thesis
      using Cons.IH [OF Cons.prems(1,2) rest Cons.prems(4) refl, of n] False by (simp add: js sel_def [symmetric])
  next
    case sel: True
    show ?thesis
    proof (cases "n < mx")
      case False
      then have "enum_loop malloc is_parent filters nf mx (i # is) n ts s = enum_loop malloc is_parent filters nf mx is (n + 1) ts s"
        using sel by (auto simp: sel_def enum_sel_def tok_read_def t)
      then show ?thesis
        using Cons.IH [OF Cons.prems(1,2) rest Cons.prems(4) refl, of "n + 1"] sel False cloned_skip
        by (fastforce simp: js sel_def [symmetric])
    next
      case True
      define p where "p = malloc (tok_mem s)"
      have p: "p \<noteq> 0" "tok_mem s p = None" using Cons.prems(1,2) by (auto simp: malloc_fresh_def p_def)
      define s1 where "s1 = s\<lparr>tok_mem := (tok_mem s)(p \<mapsto> t)\<rparr>"
      have same: "tok_mem s1 (aseToken k) = tok_mem s (aseToken k)" if "k \<in> set is" for k
        using rest that p(2) by (auto simp: s1_def)
      have step: "enum_loop malloc is_parent filters nf mx (i # is) n ts s =
          enum_loop malloc is_parent filters nf mx is (n + 1) (ts[n := p]) s1"
        using sel True t by (auto simp: sel_def enum_sel_def tok_read_def ase_fpgaCloneToken_def p_def s1_def Let_def aseToken_def)
      have r1: "\<forall>i \<in> set is. \<exists>t. tok_mem s1 (aseToken i) = Some t \<and> th_magic (tok_hdr t) = ASE_TOKEN_MAGIC"
        using rest same by simp
      have "filter (enum_sel is_parent filters nf s1) is = filter sel is"
        by (rule filter_cong [OF refl]) (simp add: sel_def enum_sel_def same, simp add: s1_def)
      moreover have "finite (dom (tok_mem s1))" using Cons.prems(2) by (simp add: s1_def)
      moreover have "mx \<le> length (ts[n := p])" using Cons.prems(4) by simp
      ultimately obtain ts' m' where r: "enum_loop malloc is_parent filters nf mx is (n + 1) (ts[n := p]) s1 =
            Inr (n + 1 + length (filter sel is), ts', s1\<lparr>tok_mem := m'\<rparr>)"
          "cloned (tok_mem s1) (filter sel is) (n + 1) mx (ts[n := p]) ts' m'"
        using Cons.IH [OF Cons.prems(1) _ r1 _ refl, of "ts[n := p]" "n + 1"] by metis
      have "cloned (tok_mem s) (i # filter sel is) n mx ts ts' m'"
        using r(2) p(2) t(1) rest True Cons.prems(4) by (intro cloned_Cons [of _ p t]) (auto simp: s1_def)
      then show ?thesis using r(1) step sel by (auto simp: js s1_def)
    qed
  qed
qed

section \<open>The probe\<close>

text \<open>
  What the simulator promises: while no other MMIO request is pending, a read of one of the id
  registers of AFU \<open>i\<close> returns, with the id of that AFU.
\<close>

definition mmio_idle :: "mmio_state \<Rightarrow> bool" where
  "mmio_idle m \<longleftrightarrow> (\<forall>i < MMIO_MAX_OUTSTANDING. \<not> tx_flag (mmio_table m i) \<and> \<not> rx_flag (mmio_table m i))"

definition afu_answers :: "(mmio_state \<Rightarrow> mmio_state res) \<Rightarrow> (nat \<Rightarrow> u64 \<times> u64) \<Rightarrow> bool" where
  "afu_answers env ids \<longleftrightarrow> (\<forall>m i. mmio_idle m \<longrightarrow>
     (\<exists>m'. mmio_read64 env m 0x8 (int i) = Inr (fst (ids i), m') \<and> mmio_idle m') \<and>
     (\<exists>m'. mmio_read64 env m 0x10 (int i) = Inr (snd (ids i), m') \<and> mmio_idle m'))"

text \<open>The simulation has \<open>n\<close> VFs: the read after the last one gives all ones.\<close>

definition vf_count :: "(nat \<Rightarrow> u64 \<times> u64) \<Rightarrow> nat \<Rightarrow> bool" where
  "vf_count ids n \<longleftrightarrow> n \<le> 30 \<and> (\<forall>i < n. ids i \<noteq> (- 1, - 1)) \<and> (n < 30 \<longrightarrow> ids n = (- 1, - 1))"

text \<open>The token of VF \<open>i\<close>, made from the token of VF 0.\<close>

definition vf_token :: "fpga_token \<Rightarrow> nat \<Rightarrow> u64 \<times> u64 \<Rightarrow> fpga_token" where
  "vf_token t0 i d = t0\<lparr>tok_idx := tok_idx t0 + int i,
     tok_hdr := (tok_hdr t0)\<lparr>th_function := th_function (tok_hdr t0) + of_nat i,
       th_guid := api_guid_to_fpga (snd d) (fst d)\<rparr>\<rparr>"

lemma vf_token_simps [simp]:
  "tok_idx (vf_token t i d) = tok_idx t + int i"
  "th_magic (tok_hdr (vf_token t i d)) = th_magic (tok_hdr t)"
  "th_function (tok_hdr (vf_token t i d)) = th_function (tok_hdr t) + of_nat i"
  "th_guid (tok_hdr (vf_token t i d)) = api_guid_to_fpga (snd d) (fst d)"
  "th_objtype (tok_hdr (vf_token t i d)) = th_objtype (tok_hdr t)"
  "th_interface (tok_hdr (vf_token t i d)) = th_interface (tok_hdr t)"
  by (simp_all add: vf_token_def)

lemma vf_token_next:
  "(let t = (vf_token t0 i d)\<lparr>tok_idx := tok_idx (vf_token t0 i d) + 1,
       tok_hdr := (tok_hdr (vf_token t0 i d))\<lparr>th_function := th_function (tok_hdr (vf_token t0 i d)) + 1\<rparr>\<rparr>
    in t\<lparr>tok_hdr := (tok_hdr t)\<lparr>th_guid := api_guid_to_fpga (snd e) (fst e)\<rparr>\<rparr>) = vf_token t0 (Suc i) e"
  by (simp add: vf_token_def Let_def algebra_simps)

lemma probe_vfs_spec:
  fixes s :: "'a dev_state"
  assumes "afu_answers env ids" and "vf_count ids n" and "mmio_idle (dev_mmio s)" and "2 \<le> j" and "j \<le> n + 2"
    and "\<forall>i < 32. tok_mem s (aseToken i) \<noteq> None"
    and "if j = 2 then ase_tok s 2 = t0 else ase_tok s (j - 1) = vf_token t0 (j - 3) (ids (j - 3))"
  shows "\<exists>m. probe_vfs env [j..<32] s = Inr (s\<lparr>
      tok_mem := (\<lambda>p. if j < p \<and> p \<le> n + 2 then Some (vf_token t0 (p - 3) (ids (p - 3))) else tok_mem s p),
      aseNumTokens := (if j < n + 2 then n + 2 else aseNumTokens s), dev_mmio := m\<rparr>) \<and> mmio_idle m"
  using assms
proof (induction "n + 2 - j" arbitrary: j s)
  case 0
  then have j: "j = n + 2" by simp
  show ?case
  proof (cases "n = 30")
    case True
    then show ?thesis using j 0(4) by (intro exI [of _ "dev_mmio s"]) (auto intro!: dev_state.equality simp: fun_eq_iff)
  next
    case False
    then have n: "n < 30" "ids n = (- 1, - 1)" using 0(3) by (auto simp: vf_count_def)
    obtain m1 where m1: "mmio_read64 env (dev_mmio s) 0x8 (int n) = Inr (- 1, m1)" "mmio_idle m1"
      using 0(2,4) n(2) unfolding afu_answers_def by (metis fst_conv)
    obtain m2 where m2: "mmio_read64 env m1 0x10 (int n) = Inr (- 1, m2)" "mmio_idle m2"
      using 0(2) m1(2) n(2) unfolding afu_answers_def by (metis snd_conv)
    have "[j..<32] = j # [Suc j..<32]" using j n(1) by (simp add: upt_conv_Cons)
    then show ?thesis
      using m1 m2 j by (intro exI [of _ m2]) (auto intro!: dev_state.equality simp: Let_def fun_eq_iff)
  qed
next
  case (Suc k)
  define i where "i = j - 2"
  have i: "j = i + 2" "int j - 2 = int i" "i < n" "j < 32" using Suc(2,4,6,7) by (auto simp: i_def vf_count_def)
  obtain d0 d1 where d: "ids i = (d0, d1)" "\<not> (d0 = - 1 \<and> d1 = - 1)"
    using Suc(4) i(3) unfolding vf_count_def by (metis surj_pair)
  obtain m1 where m1: "mmio_read64 env (dev_mmio s) 0x8 (int i) = Inr (d0, m1)" "mmio_idle m1"
    using Suc(3,5) d(1) unfolding afu_answers_def by (metis fst_conv)
  obtain m2 where m2: "mmio_read64 env m1 0x10 (int i) = Inr (d1, m2)" "mmio_idle m2"
    using Suc(3) m1(2) d(1) unfolding afu_answers_def by (metis snd_conv)
  define s1 where "s1 = s\<lparr>dev_mmio := m2, tok_mem := (tok_mem s)(aseToken j \<mapsto> vf_token t0 i (d0, d1)), aseNumTokens := j + 1\<rparr>"
  obtain own prv where rd: "tok_mem s (aseToken j) = Some own" "tok_mem s (aseToken (j - 1)) = Some prv"
    using Suc(8) i(4) by (metis less_imp_diff_less not_None_eq)
  have step: "probe_vfs env (j # is) s = probe_vfs env is s1" for "is"
  proof (cases "j = 2")
    case True
    then have "own = t0" "i = 0" using Suc(9) i(1) rd(1) by (auto simp del: One_nat_def simp: numeral_2_eq_2)
    then show ?thesis
      using m1(1) m2(1) d(2) rd True by (auto simp: tok_read_def Let_def s1_def vf_token_def)
  next
    case False
    then obtain i' where i': "i = Suc i'" using i(1) by (cases i) auto
    then have p: "prv = vf_token t0 i' (ids i')" using Suc(9) False i(1) rd(2) by simp
    have "\<not> (d0 = - 1 \<and> d1 = - 1)" "2 < j" using d(2) False Suc(6) by auto
    then show ?thesis
      using m1(1) m2(1) rd p i(2) i' vf_token_next [of t0 i' "ids i'" "(d0, d1)"]
      by (auto simp: tok_read_def Let_def s1_def)
  qed
  have up: "[j..<32] = j # [Suc j..<32]" using i(4) by (simp add: upt_conv_Cons)
  have "\<exists>m. probe_vfs env [Suc j..<32] s1 = Inr (s1\<lparr>
      tok_mem := (\<lambda>p. if Suc j < p \<and> p \<le> n + 2 then Some (vf_token t0 (p - 3) (ids (p - 3))) else tok_mem s1 p),
      aseNumTokens := (if Suc j < n + 2 then n + 2 else aseNumTokens s1), dev_mmio := m\<rparr>) \<and> mmio_idle m"
  proof (rule Suc(1) [OF _ Suc(3,4)])
    show "k = n + 2 - Suc j" using Suc(2) by simp
    show "mmio_idle (dev_mmio s1)" using m2(2) by (simp add: s1_def)
    show "2 \<le> Suc j" "Suc j \<le> n + 2" using i by auto
    show "\<forall>i < 32. tok_mem s1 (aseToken i) \<noteq> None" using Suc(8) by (auto simp: s1_def)
    show "if Suc j = 2 then ase_tok s1 2 = t0 else ase_tok s1 (Suc j - 1) = vf_token t0 (Suc j - 3) (ids (Suc j - 3))"
      using i(1) d(1) by (simp add: s1_def)
  qed
  then obtain m where m: "probe_vfs env [Suc j..<32] s1 = Inr (s1\<lparr>
      tok_mem := (\<lambda>p. if Suc j < p \<and> p \<le> n + 2 then Some (vf_token t0 (p - 3) (ids (p - 3))) else tok_mem s1 p),
      aseNumTokens := (if Suc j < n + 2 then n + 2 else aseNumTokens s1), dev_mmio := m\<rparr>)" "mmio_idle m" by blast
  have e: "(\<lambda>p. if Suc j < p \<and> p \<le> n + 2 then Some (vf_token t0 (p - 3) (ids (p - 3))) else tok_mem s1 p) =
      (\<lambda>p. if j < p \<and> p \<le> n + 2 then Some (vf_token t0 (p - 3) (ids (p - 3))) else tok_mem s p)"
    using i(1,3) d(1) by (auto simp: fun_eq_iff s1_def aseToken_def)
  have "(if Suc j < n + 2 then n + 2 else aseNumTokens s1) = n + 2" using i by (auto simp: s1_def)
  then show ?case
    using m(2) i unfolding up step m(1) e by (intro exI [of _ m]) (auto intro!: dev_state.equality simp: s1_def)
qed

lemma mmio_init_idle: "mmio_idle (mmio_scoreboard_init m)"
  by (simp add: mmio_idle_def mmio_scoreboard_init_def)

lemma idle_count: "mmio_idle m \<Longrightarrow> count_mmio_tid_used m = 0"
  by (simp add: mmio_idle_def count_mmio_tid_used_def filter_empty_conv)

text \<open>What the start of a session leaves of the state of the devices.\<close>

definition session_started :: "'al dev_state \<Rightarrow> 'al dev_state \<Rightarrow> bool" where
  "session_started s s' \<longleftrightarrow> tok_mem s' = tok_mem s \<and> aseNumTokens s' = aseNumTokens s \<and>
     ase_open_afus_by_tok_idx s' = ase_open_afus_by_tok_idx s \<and> handles s' = handles s \<and>
     session_exist_status s' = ESTABLISHED \<and> mmio_idle (dev_mmio s')"

lemma session_init_new:
  assumes "session_exist_status s \<noteq> ESTABLISHED" and "count_mmio_tid_used (dev_mmio s) = 0"
  obtains s' where "session_init mm ma pid vbase s = Inr s'" and "session_started s s'"
  using assms
  by (auto simp: session_init_def send_swreset_def ase_portctrl_def Let_def session_started_def mmio_init_idle)

lemma session_startedD:
  assumes "session_started s s'"
  shows "tok_mem s' = tok_mem s" and "aseNumTokens s' = aseNumTokens s"
    and "ase_open_afus_by_tok_idx s' = ase_open_afus_by_tok_idx s" and "handles s' = handles s"
    and "session_exist_status s' = ESTABLISHED" and "mmio_idle (dev_mmio s')"
  using assms by (simp_all add: session_started_def)

lemma established_distinct [simp]: "NOT_ESTABLISHED \<noteq> ESTABLISHED" "ESTABLISHED \<noteq> NOT_ESTABLISHED"
  by (simp_all add: NOT_ESTABLISHED_def ESTABLISHED_def)

lemma enum_session_probe:
  assumes s: "session_exist_status s = NOT_ESTABLISHED" "\<forall>i < 32. tok_mem s (aseToken i) \<noteq> None"
    and c: "count_mmio_tid_used (dev_mmio s) = 0"
    and e: "afu_answers env ids" and n: "vf_count ids n"
  shows "\<exists>s1. enum_session mm ma pid vbase env s = Inr s1 \<and> session_exist_status s1 = ESTABLISHED \<and> mmio_idle (dev_mmio s1) \<and>
    aseNumTokens s1 = (if n = 0 then aseNumTokens s else n + 2) \<and>
    ase_open_afus_by_tok_idx s1 = ase_open_afus_by_tok_idx s \<and>
    tok_mem s1 = (\<lambda>p. if p = aseToken 0 then Some ((ase_tok s 0)\<lparr>tok_hdr := (tok_hdr (ase_tok s 0))\<lparr>th_guid := FPGA_FME_GUID\<rparr>\<rparr>)
      else if aseToken 2 \<le> p \<and> p < aseToken (n + 2) then Some (vf_token (ase_tok s 2) (p - 3) (ids (p - 3))) else tok_mem s p)"
proof -
  obtain s0 where s0: "session_init mm ma pid vbase s = Inr s0" "session_started s s0"
    using session_init_new [of s] s(1) c by (metis established_distinct(1))
  note S = session_startedD [OF s0(2)]
  define t where "t = (ase_tok s 0)\<lparr>tok_hdr := (tok_hdr (ase_tok s 0))\<lparr>th_guid := FPGA_FME_GUID\<rparr>\<rparr>"
  define s2 where "s2 = s0\<lparr>tok_mem := (tok_mem s0)(aseToken 0 \<mapsto> t)\<rparr>"
  obtain t0 where t0: "tok_mem s (aseToken 0) = Some t0" using s(2) by (metis not_None_eq zero_less_numeral)
  have idle: "mmio_idle (dev_mmio s2)" using S(6) by (simp add: s2_def)
  have all: "\<forall>i < 32. tok_mem s2 (aseToken i) \<noteq> None" using s(2) by (simp add: s2_def S)
  have two: "ase_tok s2 2 = ase_tok s 2" by (simp add: s2_def S aseToken_def)
  obtain m where m: "probe_vfs env [2..<32] s2 = Inr (s2\<lparr>
      tok_mem := (\<lambda>p. if 2 < p \<and> p \<le> n + 2 then Some (vf_token (ase_tok s 2) (p - 3) (ids (p - 3))) else tok_mem s2 p),
      aseNumTokens := (if 2 < n + 2 then n + 2 else aseNumTokens s2), dev_mmio := m\<rparr>)" "mmio_idle m"
    using probe_vfs_spec [OF e n idle _ _ all, of 2 "ase_tok s 2"] two by auto
  have rd: "tok_read s0 (aseToken 0) = Inr t0" by (simp add: tok_read_def S t0)
  have s2: "s2 = s0\<lparr>tok_mem := (tok_mem s0)(aseToken 0 \<mapsto> t0\<lparr>tok_hdr := (tok_hdr t0)\<lparr>th_guid := FPGA_FME_GUID\<rparr>\<rparr>)\<rparr>"
    by (simp add: s2_def t_def t0)
  have r: "enum_session mm ma pid vbase env s = rbind (probe_vfs env [2..<32] s2) (\<lambda>s. Inr (s\<lparr>session_exist_status := ESTABLISHED\<rparr>))"
    by (simp only: enum_session_def s(1) s0(1) rd rbind_simps s2 simp_thms if_True)
  show ?thesis
    unfolding r m(1) rbind_simps
    using m(2) by (auto simp: s2_def S fun_eq_iff aseToken_def t_def)
qed

section \<open>A simulator that answers\<close>

text \<open>The simulator with the AFU ids \<open>ids\<close>: it answers the newest request at once.\<close>

definition afu_env :: "(nat \<Rightarrow> u64 \<times> u64) \<Rightarrow> mmio_state \<Rightarrow> mmio_state res" where
  "afu_env ids m = (if app2sim_mmioreq m = [] then Inr m
     else let r = last (app2sim_mmioreq m); d = ids (nat (pkt_afu_idx r)) in
       mmio_response m (r\<lparr>pkt_qword := [if pkt_addr r = 0x8 then fst d else snd d]\<rparr>))"

lemma idle_read:
  assumes m: "mmio_idle m" and a: "addr = 0x8 \<or> addr = 0x10"
  shows "\<exists>m'. mmio_read64 (afu_env ids) m addr (int i) = Inr (if addr = 0x8 then fst (ids i) else snd (ids i), m') \<and> mmio_idle m'"
proof -
  have busy: "mmio_busy m = {}" using m by (auto simp: mmio_busy_def mmio_idle_def)
  have up: "[0..<MMIO_MAX_OUTSTANDING] = 0 # [1..<MMIO_MAX_OUTSTANDING]" by (simp add: MMIO_MAX_OUTSTANDING_def upt_conv_Cons)
  have empty: "find_empty_mmio_scoreboard_slot s = Some 0"
    if "mmio_table s = mmio_table m" for s
    using m that by (simp add: find_empty_mmio_scoreboard_slot_def up mmio_idle_def) (simp add: MMIO_MAX_OUTSTANDING_def)
  have "count_mmio_tid_used m \<noteq> MMIO_MAX_OUTSTANDING" using busy by (simp add: count_card) (simp add: MMIO_MAX_OUTSTANDING_def)
  then show ?thesis
    using a m
    by (auto simp: mmio_read64_def mmio_read_request_def mmio_send_def generate_mmio_tid_def mmio_request_put_def empty
        afu_env_def mmio_response_def get_scoreboard_slot_by_tid_def up mmio_read_poll_def mmio_new_pkt_def Let_def mmio_idle_def)
qed

lemma afu_env_answers: "afu_answers (afu_env ids) ids"
  unfolding afu_answers_def using idle_read [of _ "0x8"] idle_read [of _ "0x10"] by simp

lemma probe_table:
  assumes "session_exist_status s = NOT_ESTABLISHED" and "\<forall>p \<le> 32. tok_mem s p = ase_tokens_init p"
    and "aseNumTokens s = 3" and "finite (dom (tok_mem s))" and "count_mmio_tid_used (dev_mmio s) = 0"
    and "afu_answers env ids" and "vf_count ids n"
  shows "\<exists>s1. enum_session mm ma pid vbase env s = Inr s1 \<and> session_exist_status s1 = ESTABLISHED \<and> tokens_ok s1 \<and>
    aseNumTokens s1 = max 3 (n + 2) \<and> th_guid (tok_hdr (ase_tok s1 0)) = FPGA_FME_GUID \<and> ase_tok s1 1 = ase_token_port \<and>
    (n = 0 \<longrightarrow> ase_tok s1 2 = ase_token_vf0) \<and>
    (\<forall>i < n. tok_idx (ase_tok s1 (i + 2)) = int i + 2 \<and> unat (th_function (tok_hdr (ase_tok s1 (i + 2)))) = i + 1 \<and>
       th_guid (tok_hdr (ase_tok s1 (i + 2))) = api_guid_to_fpga (snd (ids i)) (fst (ids i)) \<and>
       th_objtype (tok_hdr (ase_tok s1 (i + 2))) = FPGA_ACCELERATOR \<and>
       th_interface (tok_hdr (ase_tok s1 (i + 2))) = FPGA_IFC_SIM_VFIO)"
proof -
  have n30: "n \<le> 30" using assms(7) by (simp add: vf_count_def)
  have t: "tok_mem s (aseToken 0) = Some ase_token_pf0" "tok_mem s (aseToken 1) = Some ase_token_port"
    "tok_mem s (aseToken 2) = Some ase_token_vf0"
    using assms(2) by (simp_all add: ase_tokens_init_def aseToken_def)
  have all: "\<forall>i < 32. tok_mem s (aseToken i) \<noteq> None"
    using assms(2) by (auto simp: ase_tokens_init_def aseToken_def)
  obtain s1 where s1: "enum_session mm ma pid vbase env s = Inr s1" "session_exist_status s1 = ESTABLISHED"
    "aseNumTokens s1 = (if n = 0 then 3 else n + 2)"
    "tok_mem s1 = (\<lambda>p. if p = aseToken 0 then Some (ase_token_pf0\<lparr>tok_hdr := (tok_hdr ase_token_pf0)\<lparr>th_guid := FPGA_FME_GUID\<rparr>\<rparr>)
      else if aseToken 2 \<le> p \<and> p < aseToken (n + 2) then Some (vf_token ase_token_vf0 (p - 3) (ids (p - 3))) else tok_mem s p)"
    using enum_session_probe [OF assms(1) all assms(5-7), of mm ma pid vbase] unfolding assms(3) t option.sel by blast
  have "dom (tok_mem s1) \<subseteq> dom (tok_mem s) \<union> {..32}" using n30 by (auto simp: s1(4) aseToken_def split: if_splits)
  then have fin: "finite (dom (tok_mem s1))" using assms(4) by (meson finite_UnI finite_atMost finite_subset)
  have tok: "\<exists>t. tok_mem s1 (aseToken i) = Some t \<and>
      (i < aseNumTokens s1 \<longrightarrow> th_magic (tok_hdr t) = ASE_TOKEN_MAGIC \<and> tok_idx t = int i)" if "i < 32" for i
  proof -
    consider "i = 0" | "i = 1" | "2 \<le> i" "i < n + 2" | "i = 2" "n = 0" | "aseNumTokens s1 \<le> i" "2 < i" "n + 2 \<le> i"
      by (cases "i < n + 2"; cases "i < 2"; cases "n = 0") (auto simp: s1(3) linorder_not_less, linarith+)
    then show ?thesis
      using that all t
      by cases (auto simp: s1(4) aseToken_def ase_token_pf0_def ase_token_port_def ase_token_vf0_def)
  qed
  have ok: "tokens_ok s1" unfolding tokens_ok_def using fin tok n30 s1(3) by auto
  have fn: "unat (ASE_VF0_FUNCTION + of_nat i) = i + 1" if "i < n" for i
    using that n30 by (simp add: ASE_VF0_FUNCTION_def unat_word_ariths unat_of_nat)
  show ?thesis
    using s1(1,2) ok n30 fn t
    by (intro exI [of _ s1]) (auto simp: s1(3,4) aseToken_def ase_token_vf0_def)
qed

section \<open>Properties\<close>

text \<open>
  C11: \<open>ase_fpgaEnumerate\<close> returns exactly the devices asked for. A token counts as a match if it
  is not open and, for one of the filters, every valid property that applies agrees with it (or
  there is no filter). \<open>*num_matches\<close> is the number of matches in the table, also when it exceeds
  \<open>max_tokens\<close>; the first \<open>max_tokens\<close> of them are copied, in the order of the table, to fresh
  distinct addresses; the rest of the array and of the memory does not change.
\<close>

theorem enumerate_finds_matching:
  assumes "enum_session mm ma pid vbase env s = Inr s1" and "tokens_ok s1" and "malloc_fresh malloc"
    and "filters = (if fs = [] then None else Some fs)" and "max_tokens \<le> length tokens"
    and "js = filter (\<lambda>i. \<not> bit (ase_open_afus_by_tok_idx s1) i \<and>
           token_wanted is_parent (session_exist_status s1) fs (ase_tok s1 i)) [0..<aseNumTokens s1]"
  shows "\<exists>ts m. ase_fpgaEnumerate mm ma pid vbase env malloc is_parent filters (length fs) (Some tokens) max_tokens False s =
      Inr (FPGA_OK, Some (length js, ts), s1\<lparr>tok_mem := m\<rparr>) \<and> length ts = length tokens \<and>
    (\<forall>k < min (length js) max_tokens. tok_mem s1 (ts ! k) = None \<and> m (ts ! k) = Some (ase_tok s1 (js ! k))) \<and>
    distinct (take (min (length js) max_tokens) ts) \<and> (\<forall>k \<ge> min (length js) max_tokens. ts ! k = tokens ! k) \<and>
    (\<forall>p. tok_mem s1 p \<noteq> None \<longrightarrow> m p = tok_mem s1 p)"
proof -
  note D = tokens_okD [OF assms(2)]
  have js: "js = filter (enum_sel is_parent filters (length fs) s1) [0..<aseNumTokens s1]"
    unfolding assms(6) enum_sel_def matches_filters_spec [OF assms(4)] ..
  have tok: "\<forall>i \<in> set [0..<aseNumTokens s1]. \<exists>t. tok_mem s1 (aseToken i) = Some t \<and> th_magic (tok_hdr t) = ASE_TOKEN_MAGIC"
  proof
    fix i
    assume "i \<in> set [0..<aseNumTokens s1]"
    then have "i < aseNumTokens s1" by simp
    then show "\<exists>t. tok_mem s1 (aseToken i) = Some t \<and> th_magic (tok_hdr t) = ASE_TOKEN_MAGIC"
      using D(3) [THEN less_le_trans [rotated]] D(4,5) by blast
  qed
  obtain ts m where r: "enum_loop malloc is_parent filters (length fs) max_tokens [0..<aseNumTokens s1] 0 tokens s1 =
      Inr (0 + length js, ts, s1\<lparr>tok_mem := m\<rparr>)" and c: "cloned (tok_mem s1) js 0 max_tokens tokens ts m"
    using enum_loop_spec [OF assms(3) D(1) tok assms(5) js, of 0] by blast
  have in_table: "tok_mem s1 (aseToken (js ! k)) = Some (ase_tok s1 (js ! k))" if "k < length js" for k
    using nth_mem [OF that] D(3) by (intro D(4)) (auto simp: js)
  have copy: "tok_mem s1 (ts ! k) = None \<and> m (ts ! k) = Some (ase_tok s1 (js ! k))" if "k < min (length js) max_tokens" for k
    using c in_table [of k] that unfolding cloned_def by simp
  have dist: "distinct (take (min (length js) max_tokens) ts)"
    using c assms(5) unfolding cloned_def distinct_conv_nth by simp (metis linorder_neqE_nat)
  have "ase_fpgaEnumerate mm ma pid vbase env malloc is_parent filters (length fs) (Some tokens) max_tokens False s =
      Inr (FPGA_OK, Some (length js, ts), s1\<lparr>tok_mem := m\<rparr>)"
    using assms(1,4) r by (auto simp: ase_fpgaEnumerate_def)
  moreover have "\<forall>k \<ge> min (length js) max_tokens. ts ! k = tokens ! k"
    using c unfolding cloned_def min_le_iff_disj by simp
  ultimately show ?thesis using copy dist c unfolding cloned_def by blast
qed

definition demo_ids :: "nat \<Rightarrow> u64 \<times> u64" where
  "demo_ids i = (if i = 0 then (1, 2) else if i = 1 then (3, 4) else (- 1, - 1))"

lemma demo_ids_count: "vf_count demo_ids 2"
  by (auto simp: vf_count_def demo_ids_def)

definition demo_dev :: "unit dev_state" where
  "demo_dev = api_state.extend demo_api \<lparr>tok_mem = ase_tokens_init, aseNumTokens = 3,
     ase_open_afus_by_tok_idx = 0, session_exist_status = NOT_ESTABLISHED, mmio_is_mapped = (\<lambda>_. False),
     dev_mmio = demo_mmio, portctrl_sent = []\<rparr>"

lemma demo_dev_simps [simp]:
  "tok_mem demo_dev = ase_tokens_init" "aseNumTokens demo_dev = 3" "ase_open_afus_by_tok_idx demo_dev = 0"
  "session_exist_status demo_dev = NOT_ESTABLISHED" "dev_mmio demo_dev = demo_mmio" "api_hm demo_dev = demo_hm"
  by (simp_all add: demo_dev_def api_state.defs demo_api_def)

text \<open>
  C14: The first \<open>ase_fpgaEnumerate\<close> of a session finds the VFs of the simulation. If the
  simulation has \<open>n\<close> VFs with the ids \<open>ids\<close>, the probe ends, the table has \<open>n + 2\<close> tokens, and
  the token of VF \<open>i\<close> has index \<open>i + 2\<close>, function \<open>i + 1\<close> and the id of that VF; the first token
  gets the id of the FME. Without any VF the table keeps its third token, whose id is zero.
\<close>

theorem probe_builds_table:
  assumes "session_exist_status s = NOT_ESTABLISHED" and "\<forall>p \<le> 32. tok_mem s p = ase_tokens_init p"
    and "aseNumTokens s = 3" and "finite (dom (tok_mem s))" and "count_mmio_tid_used (dev_mmio s) = 0"
    and "afu_answers env ids" and "vf_count ids n"
  shows "\<exists>s1. enum_session mm ma pid vbase env s = Inr s1 \<and> session_exist_status s1 = ESTABLISHED \<and> tokens_ok s1 \<and>
    aseNumTokens s1 = max 3 (n + 2) \<and> th_guid (tok_hdr (ase_tok s1 0)) = FPGA_FME_GUID \<and> ase_tok s1 1 = ase_token_port \<and>
    (n = 0 \<longrightarrow> ase_tok s1 2 = ase_token_vf0) \<and>
    (\<forall>i < n. tok_idx (ase_tok s1 (i + 2)) = int i + 2 \<and> unat (th_function (tok_hdr (ase_tok s1 (i + 2)))) = i + 1 \<and>
       th_guid (tok_hdr (ase_tok s1 (i + 2))) = api_guid_to_fpga (snd (ids i)) (fst (ids i)) \<and>
       th_objtype (tok_hdr (ase_tok s1 (i + 2))) = FPGA_ACCELERATOR \<and>
       th_interface (tok_hdr (ase_tok s1 (i + 2))) = FPGA_IFC_SIM_VFIO)"
  using assms by (rule probe_table)

lemma demo_dev_start:
  "session_exist_status demo_dev = NOT_ESTABLISHED" "\<forall>p \<le> 32. tok_mem demo_dev p = ase_tokens_init p"
  "aseNumTokens demo_dev = 3" "finite (dom (tok_mem demo_dev))" "count_mmio_tid_used (dev_mmio demo_dev) = 0"
proof -
  have "dom ase_tokens_init \<subseteq> {..32}" by (auto simp: ase_tokens_init_def split: if_splits)
  then show "finite (dom (tok_mem demo_dev))" using finite_subset by simp blast
  show "count_mmio_tid_used (dev_mmio demo_dev) = 0" by (rule idle_count) (simp add: mmio_idle_def demo_mmio_def)
qed simp_all

theorem probe_builds_table_witness:
  "\<exists>s1. enum_session demo_mmap demo_ma 77 0x7f0000000000 (afu_env demo_ids) demo_dev = Inr s1 \<and> aseNumTokens s1 = 4 \<and>
     unat (th_function (tok_hdr (ase_tok s1 3))) = 2 \<and> th_guid (tok_hdr (ase_tok s1 3)) = api_guid_to_fpga 4 3"
  using probe_builds_table [OF demo_dev_start afu_env_answers demo_ids_count, of demo_mmap demo_ma 77 "0x7f0000000000"]
  by (auto simp: demo_ids_def less_2_cases_iff numeral_3_eq_3 numeral_2_eq_2)

definition demo_filter :: fpga_properties where
  "demo_filter = zero_properties\<lparr>pr_magic := FPGA_PROPERTY_MAGIC, pr_objtype := FPGA_ACCELERATOR,
     pr_interface := FPGA_IFC_SIM_VFIO, pr_valid := {FPGA_PROPERTY_OBJTYPE, FPGA_PROPERTY_INTERFACE}\<rparr>"

lemma demo_session:
  obtains s1 where "enum_session demo_mmap demo_ma 77 0x7f0000000000 (afu_env demo_ids) demo_dev = Inr s1" and "tokens_ok s1"
    and "session_exist_status s1 = ESTABLISHED" and "ase_open_afus_by_tok_idx s1 = 0" and "aseNumTokens s1 = 4"
    and "tok_mem s1 (aseToken 1) = Some ase_token_port" and "th_objtype (tok_hdr (ase_tok s1 0)) = FPGA_DEVICE"
    and "tok_mem s1 (aseToken 2) = Some (vf_token ase_token_vf0 0 (1, 2))"
    and "tok_mem s1 (aseToken 3) = Some (vf_token ase_token_vf0 1 (3, 4))"
proof -
  have t: "ase_tokens_init (aseToken 0) = Some ase_token_pf0" "ase_tokens_init (aseToken 1) = Some ase_token_port"
    "ase_tokens_init (aseToken 2) = Some ase_token_vf0" by (simp_all add: ase_tokens_init_def aseToken_def)
  have all: "\<forall>i < 32. tok_mem demo_dev (aseToken i) \<noteq> None" by (simp add: ase_tokens_init_def aseToken_def)
  show ?thesis
    using enum_session_probe [OF demo_dev_start(1) all demo_dev_start(5) afu_env_answers demo_ids_count, of demo_mmap demo_ma 77 "0x7f0000000000"]
      probe_table [OF demo_dev_start afu_env_answers demo_ids_count, of demo_mmap demo_ma 77 "0x7f0000000000"] that
    by (auto simp: t) (simp add: aseToken_def ase_token_pf0_def demo_ids_def ase_tokens_init_def)
qed

theorem enumerate_finds_matching_witness:
  "\<exists>s2 ts. ase_fpgaEnumerate demo_mmap demo_ma 77 0x7f0000000000 (afu_env demo_ids) lowest_free (\<lambda>_ _. True)
       (Some [demo_filter]) 1 (Some [0]) 1 False demo_dev = Inr (FPGA_OK, Some (2, ts), s2) \<and>
     tok_mem s2 (ts ! 0) = Some (vf_token ase_token_vf0 0 (1, 2))"
proof -
  obtain s1 where s1: "enum_session demo_mmap demo_ma 77 0x7f0000000000 (afu_env demo_ids) demo_dev = Inr s1" "tokens_ok s1"
    "session_exist_status s1 = ESTABLISHED" "ase_open_afus_by_tok_idx s1 = 0" "aseNumTokens s1 = 4"
    "tok_mem s1 (aseToken 1) = Some ase_token_port" "th_objtype (tok_hdr (ase_tok s1 0)) = FPGA_DEVICE"
    "tok_mem s1 (aseToken 2) = Some (vf_token ase_token_vf0 0 (1, 2))"
    "tok_mem s1 (aseToken 3) = Some (vf_token ase_token_vf0 1 (3, 4))"
    using demo_session by metis
  have w: "token_wanted (\<lambda>_ _. True) st [demo_filter] t \<longleftrightarrow>
      th_objtype (tok_hdr t) = FPGA_ACCELERATOR \<and> th_interface (tok_hdr t) = FPGA_IFC_SIM_VFIO" for st t
    by (auto simp: token_wanted_def demo_filter_def prop_applies_def)
  have "[0..<4] = [0, 1, 2, 3 :: nat]" by (simp add: upt_rec)
  then have js: "[2, 3] = filter (\<lambda>i. \<not> bit (ase_open_afus_by_tok_idx s1) i \<and>
      token_wanted (\<lambda>_ _. True) (session_exist_status s1) [demo_filter] (ase_tok s1 i)) [0..<aseNumTokens s1]"
    using s1(6-9) unfolding w s1(4,5)
    by (simp add: ase_token_port_def ase_token_pf0_def ase_token_vf0_def)
  have f: "Some [demo_filter] = (if [demo_filter] = [] then None else Some [demo_filter])" "1 \<le> length [0 :: nat]" by simp_all
  show ?thesis
    using enumerate_finds_matching [OF s1(1,2) lowest_free_fresh f js] s1(8) by auto
qed

text \<open>
  C15: The properties of a token, used as a filter, in general do not find this token again. For a
  token of the table, \<open>ase_fpgaGetProperties\<close> succeeds; a device matches its properties if it has
  the id of the FME; an accelerator matches them if its parent matches (or it has the id of the
  FME and thus no parent) and, for a VF, if its id is the id of VF 0: the id of \<open>aseToken[2]\<close> is
  stored in the properties of every VF.
\<close>

theorem properties_as_filter:
  assumes "p \<noteq> 0" and "tok_mem s p = Some t" and "th_magic (tok_hdr t) = ASE_TOKEN_MAGIC" and "tok_mem s (aseToken 2) = Some vf0"
  shows "\<exists>f. ase_fpgaGetProperties s p False = Inr (FPGA_OK, Some f) \<and>
    (matches_filter is_parent (session_exist_status s) f t \<longleftrightarrow>
      (if th_objtype (tok_hdr t) = FPGA_DEVICE then th_guid (tok_hdr t) = FPGA_FME_GUID
       else (th_guid (tok_hdr t) = FPGA_FME_GUID \<or> is_parent (aseToken 0) (tok_hdr t)) \<and>
         (th_interface (tok_hdr t) = FPGA_IFC_SIM_VFIO \<longrightarrow> th_guid (tok_hdr t) = th_guid (tok_hdr vf0))))"
  using assms
  by (cases "th_objtype (tok_hdr t)")
    (auto simp: ase_fpgaGetProperties_def ase_fpgaUpdateProperties_def tok_read_def Let_def zero_properties_def
      device_properties_def accelerator_properties_def set_valid_def token_get_parent_def matches_filter_def aseToken_def)

theorem properties_as_filter_witness:
  "\<exists>s1 f. enum_session demo_mmap demo_ma 77 0x7f0000000000 (afu_env demo_ids) demo_dev = Inr s1 \<and>
     ase_fpgaGetProperties s1 (aseToken 3) False = Inr (FPGA_OK, Some f) \<and>
     \<not> matches_filter (\<lambda>_ _. True) ESTABLISHED f (ase_tok s1 3)"
proof -
  obtain s1 where s1: "enum_session demo_mmap demo_ma 77 0x7f0000000000 (afu_env demo_ids) demo_dev = Inr s1" "tokens_ok s1"
    "session_exist_status s1 = ESTABLISHED"
    "tok_mem s1 (aseToken 2) = Some (vf_token ase_token_vf0 0 (1, 2))"
    "tok_mem s1 (aseToken 3) = Some (vf_token ase_token_vf0 1 (3, 4))"
    using demo_session by metis
  have g: "api_guid_to_fpga 4 3 \<noteq> api_guid_to_fpga 2 1" by (simp add: api_guid_to_fpga_def upt_rec)
  have "aseToken 3 \<noteq> 0" "th_magic (tok_hdr (vf_token ase_token_vf0 1 (3, 4))) = ASE_TOKEN_MAGIC"
    by (simp_all add: aseToken_def ase_token_vf0_def ase_token_pf0_def)
  from properties_as_filter [OF this(1) s1(5) this(2) s1(4), of "\<lambda>_ _. True"] show ?thesis
    using s1(1,3,5) g by (auto simp: ase_token_vf0_def ase_token_pf0_def)
qed

end
