(* ===== verification/Ats.thy ===== *)
theory Ats
  imports Tag_Pool
begin

text \<open>
  PCIe address translation services, \<open>src/ase/sw/ase_pcie_ats.c\<close>: the encoding of a
  translation completion and the tags of outstanding invalidation requests. \<open>itag_busy_vec\<close>
  has a bit per busy tag; \<open>itag_busy_state\<close> counts the responses a tag has received. The
  functions run under \<open>ase_itag_lock\<close>, which each of them releases on every path.
\<close>

section \<open>Definitions\<close>

text \<open>\<open>bswap_64\<close> of the C library.\<close>

definition bswap_64 :: "u64 \<Rightarrow> u64" where
  "bswap_64 x = fold (\<lambda>i w. w OR push_bit (8 * (7 - i)) (drop_bit (8 * i) x AND 0xff)) [0..<8] 0"

definition ase_pcie_ats_pa_enc :: "u64 \<Rightarrow> u64 \<Rightarrow> u32 \<Rightarrow> u64" where
  "ase_pcie_ats_pa_enc pa page_len flags =
     (if pa = 0 then 0
      else let pa = pa AND NOT 0xfff;
               pa = pa OR ucast flags;
               page_mask = drop_bit 12 page_len - 1;
               pa = pa OR push_bit 11 page_mask
           in bswap_64 pa)"

record itag_busy =
  set_cycle :: u64
  cc_expected :: u8
  cc_received :: u8

record itag_state =
  itag_busy_vec :: u32
  itag_busy_state :: "nat \<Rightarrow> itag_busy"
  err_check_cycle :: u64

text \<open>\<open>__builtin_ffs\<close>: one plus the index of the lowest set bit, 0 if there is none.\<close>

definition ffs :: "u32 \<Rightarrow> nat" where
  "ffs w = (case find (\<lambda>i. bit w i) [0..<32] of Some i \<Rightarrow> i + 1 | None \<Rightarrow> 0)"

text \<open>
  \<open>ase_pcie_ats_itag_alloc\<close> polls until a tag is free. A call that finds all tags busy can
  only go on after another thread has freed one, so it is \<open>Blocked\<close> in this state.
\<close>

definition ase_pcie_ats_itag_alloc :: "itag_state \<Rightarrow> (nat \<times> itag_state) res" where
  "ase_pcie_ats_itag_alloc s =
     (if itag_busy_vec s = - 1 then Inl Blocked
      else let free_itag = ffs (NOT (itag_busy_vec s)) in
        if free_itag = 0 then Inl Blocked
        else let t = free_itag - 1 in
          Inr (t, s\<lparr>itag_busy_state := (itag_busy_state s)(t :=
                      \<lparr>set_cycle = err_check_cycle s, cc_expected = - 1, cc_received = - 1\<rparr>),
                    itag_busy_vec := itag_busy_vec s OR push_bit t 1\<rparr>))"

text \<open>
  The body of the loop of \<open>ase_pcie_ats_itag_free\<close> for one tag of the vector. The counters
  are \<open>int8_t\<close>: they are sign extended where C promotes them.
\<close>

definition itag_response :: "nat \<Rightarrow> u32 \<Rightarrow> itag_state \<Rightarrow> int \<times> itag_state" where
  "itag_response t cc s =
     (if itag_busy_vec s AND push_bit t 1 = 0 then (-1, s)
      else let b = itag_busy_state s t;
               first = (cc_expected b = - 1);
               b' = (if first then b\<lparr>cc_expected := ucast cc, cc_received := 1\<rparr>
                     else b\<lparr>cc_received := cc_received b + 1\<rparr>);
               s = s\<lparr>itag_busy_state := (itag_busy_state s)(t := b')\<rparr>
           in if \<not> first \<and> scast (cc_expected b) \<noteq> cc then (-1, s)
              else if scast (cc_received b') = cc
                   then (0, s\<lparr>itag_busy_vec := itag_busy_vec s XOR push_bit t 1\<rparr>)
                   else (0, s))"

fun itag_free_loop :: "nat \<Rightarrow> nat \<Rightarrow> u32 \<Rightarrow> u32 \<Rightarrow> itag_state \<Rightarrow> int \<times> itag_state" where
  "itag_free_loop 0 t tag_vec cc s = (0, s)"
| "itag_free_loop (Suc n) t tag_vec cc s =
     (let (status, s) = (if tag_vec AND 1 \<noteq> 0 then itag_response t cc s else (0, s)) in
      if status \<noteq> 0 then (status, s)
      else let tag_vec = drop_bit 1 tag_vec in
        if tag_vec = 0 then (0, s) else itag_free_loop n (t + 1) tag_vec cc s)"

definition ase_pcie_ats_itag_free :: "itag_state \<Rightarrow> u32 \<Rightarrow> u32 \<Rightarrow> int \<times> itag_state" where
  "ase_pcie_ats_itag_free s tag_vec cc =
     itag_free_loop 32 0 tag_vec (if cc = 0 then 8 else cc) s"

fun itag_check_loop :: "nat \<Rightarrow> nat \<Rightarrow> u32 \<Rightarrow> itag_state \<Rightarrow> int" where
  "itag_check_loop 0 t busy_vec s = 0"
| "itag_check_loop (Suc n) t busy_vec s =
     (if busy_vec = 0 then 0
      else if busy_vec AND 1 \<noteq> 0 \<and>
              err_check_cycle s - set_cycle (itag_busy_state s t) > 10000 then -1
      else itag_check_loop n (t + 1) (drop_bit 1 busy_vec) s)"

text \<open>A 32 bit vector is empty after 32 shifts, so 32 iterations are the whole loop.\<close>

definition ase_pcie_ats_itag_cycle :: "itag_state \<Rightarrow> int \<times> itag_state" where
  "ase_pcie_ats_itag_cycle s =
     (let s = s\<lparr>err_check_cycle := err_check_cycle s + 1\<rparr>
      in (itag_check_loop 32 0 (itag_busy_vec s) s, s))"

subsection \<open>Specification\<close>

definition itag_tags :: "itag_state \<Rightarrow> nat set" where
  "itag_tags s = {t. bit (itag_busy_vec s) t}"

text \<open>
  The page size that a translation completion announces (PCIe 10.2.3.2), read after the
  byte swap: 4 KB, doubled for each one in the run of ones that starts at bit 11.
\<close>

fun ones_from :: "u64 \<Rightarrow> nat \<Rightarrow> nat \<Rightarrow> nat" where
  "ones_from w i 0 = 0"
| "ones_from w i (Suc n) = (if bit w i then Suc (ones_from w (Suc i) n) else 0)"

definition ats_page_bits :: "u64 \<Rightarrow> nat" where
  "ats_page_bits w = 12 + ones_from w 11 53"

definition ats_addr :: "u64 \<Rightarrow> nat \<Rightarrow> u64" where
  "ats_addr w n = w AND NOT (mask n)"

section \<open>Encoding\<close>

lemma bit_fold_or:
  fixes f :: "nat \<Rightarrow> u64"
  shows "bit (fold (\<lambda>i w. w OR f i) xs w0) n \<longleftrightarrow> bit w0 n \<or> (\<exists>i \<in> set xs. bit (f i) n)"
  by (induction xs arbitrary: w0) (auto simp: bit_or_iff)

lemma bit_bswap_byte:
  fixes x :: u64
  assumes "q < 8" and "r < 8" and "j < 8"
  shows "bit (push_bit (8 * (7 - j)) (drop_bit (8 * j) x AND 0xff)) (8 * q + r) \<longleftrightarrow>
    j = 7 - q \<and> bit x (8 * (7 - q) + r)"
proof (cases "j = 7 - q")
  case True
  then have "7 - j = q" using assms by simp
  then show ?thesis
    using assms True by (simp add: bit_push_bit_iff bit_and_iff bit_drop_bit_eq ase_bits)
next
  case False
  then have "8 * q + r < 8 * (7 - j) \<or> 8 \<le> 8 * q + r - 8 * (7 - j)" using assms by linarith
  then show ?thesis
    using False by (auto simp: bit_push_bit_iff bit_and_iff ase_bits)
qed

lemma bit_bswap_64:
  assumes "q < 8" and "r < 8"
  shows "bit (bswap_64 x) (8 * q + r) = bit x (8 * (7 - q) + r)"
proof -
  have "bit (bswap_64 x) (8 * q + r) \<longleftrightarrow> (\<exists>j \<in> {0..<8}. j = 7 - q \<and> bit x (8 * (7 - q) + r))"
    unfolding bswap_64_def bit_fold_or using bit_bswap_byte [OF assms]
    by (simp add: atLeast0LessThan)
  then show ?thesis by auto
qed

lemma bswap_64_bswap_64 [simp]: "bswap_64 (bswap_64 x) = x"
proof (rule bit_word_eqI)
  fix i assume "i < LENGTH(64)"
  then obtain q r where i: "i = 8 * q + r" "q < 8" "r < 8"
    using that [of "i div 8" "i mod 8"] by simp
  then show "bit (bswap_64 (bswap_64 x)) i = bit x i"
    using bit_bswap_64 [of "7 - q" r x] by (simp add: bit_bswap_64)
qed

lemma ones_from_le:
  "\<lbrakk>\<And>j. i \<le> j \<Longrightarrow> j < i + k \<Longrightarrow> bit w j; k \<le> n\<rbrakk> \<Longrightarrow> k \<le> ones_from w i n"
proof (induction n arbitrary: i k)
  case (Suc n)
  then show ?case by (cases k) auto
qed simp

lemma ones_from_eq:
  "\<lbrakk>\<And>j. i \<le> j \<Longrightarrow> j < i + k \<Longrightarrow> bit w j; \<not> bit w (i + k); k < n\<rbrakk> \<Longrightarrow> ones_from w i n = k"
proof (induction n arbitrary: i k)
  case (Suc n)
  then show ?case by (cases k) auto
qed simp

text \<open>The encoded word before the byte swap.\<close>

lemma pa_enc_bits:
  fixes pa :: u64
  assumes "pa \<noteq> 0" and "12 \<le> n" and "n < 64" and "flags < 2 ^ 11"
  shows "bit (bswap_64 (ase_pcie_ats_pa_enc pa (2 ^ n) flags)) i \<longleftrightarrow>
    (if i < 11 then bit flags i else if i < n - 1 then True else i \<noteq> 11 \<and> bit pa i)"
proof -
  have len: "drop_bit 12 (2 ^ n :: u64) - 1 = mask (n - 12)"
  proof -
    have "drop_bit 12 (push_bit n 1 :: u64) = push_bit (n - 12) 1"
      using assms by (intro bit_word_eqI) (auto simp: bit_simps)
    then show ?thesis by (simp add: mask_eq_exp_minus_1)
  qed
  have f: "bit flags j \<Longrightarrow> j < 11" for j
    using word_less_exp_bit [OF assms(4), of j] by (cases "j < 11") auto
  have "bit pa j \<Longrightarrow> j < 64" for j using bit_imp_le_length [of pa j] by simp
  then show ?thesis
    using assms f unfolding ase_pcie_ats_pa_enc_def len
    by (auto simp: Let_def bit_simps ase_bits)
qed

section \<open>Tags\<close>

lemma and_push_bit_eq_0: "w AND push_bit t 1 = 0 \<longleftrightarrow> \<not> bit (w :: u32) t"
proof
  assume *: "w AND push_bit t 1 = 0"
  show "\<not> bit w t"
  proof
    assume b: "bit w t"
    then have "bit (w AND push_bit t 1) t"
      using bit_imp_le_length [OF b] by (simp add: bit_simps)
    then show False using * by simp
  qed
next
  assume "\<not> bit w t"
  then show "w AND push_bit t 1 = 0" by (intro bit_word_eqI) (auto simp: bit_simps)
qed

lemma ffs_not:
  shows "ffs (NOT w) = 0 \<longleftrightarrow> w = - 1"
    and "ffs (NOT w) = Suc t \<Longrightarrow> t < 32 \<and> \<not> bit w t \<and> (\<forall>i < t. bit w i)"
proof -
  have "w = - 1 \<longleftrightarrow> (\<forall>i < 32. bit w i)" by (auto simp: bit_eq_iff)
  then show "ffs (NOT w) = 0 \<longleftrightarrow> w = - 1"
    by (auto simp: ffs_def find_None_iff find_Some_iff bit_simps split: option.splits)
  show "ffs (NOT w) = Suc t \<Longrightarrow> t < 32 \<and> \<not> bit w t \<and> (\<forall>i < t. bit w i)"
    by (auto simp: ffs_def find_Some_iff bit_simps split: option.splits)
qed

lemma itag_alloc_cases:
  shows "itag_busy_vec s = - 1 \<Longrightarrow> ase_pcie_ats_itag_alloc s = Inl Blocked"
    and "itag_busy_vec s \<noteq> - 1 \<Longrightarrow> \<exists>t < 32. \<not> bit (itag_busy_vec s) t \<and>
      ase_pcie_ats_itag_alloc s = Inr (t, s\<lparr>itag_busy_state := (itag_busy_state s)(t :=
          \<lparr>set_cycle = err_check_cycle s, cc_expected = - 1, cc_received = - 1\<rparr>),
        itag_busy_vec := itag_busy_vec s OR push_bit t 1\<rparr>)"
proof -
  show "itag_busy_vec s = - 1 \<Longrightarrow> ase_pcie_ats_itag_alloc s = Inl Blocked"
    by (simp add: ase_pcie_ats_itag_alloc_def)
  assume n: "itag_busy_vec s \<noteq> - 1"
  then obtain t where t: "ffs (NOT (itag_busy_vec s)) = Suc t"
    using ffs_not(1) not0_implies_Suc by blast
  show "\<exists>t < 32. \<not> bit (itag_busy_vec s) t \<and>
      ase_pcie_ats_itag_alloc s = Inr (t, s\<lparr>itag_busy_state := (itag_busy_state s)(t :=
          \<lparr>set_cycle = err_check_cycle s, cc_expected = - 1, cc_received = - 1\<rparr>),
        itag_busy_vec := itag_busy_vec s OR push_bit t 1\<rparr>)"
    using n t ffs_not(2) [OF t] by (intro exI [of _ t]) (simp add: ase_pcie_ats_itag_alloc_def)
qed

text \<open>A response vector with one tag reaches the loop body for that tag only.\<close>

lemma itag_free_loop_single:
  "t < n \<Longrightarrow> n \<le> 32 \<Longrightarrow> itag_free_loop n k (push_bit t 1) cc s = itag_response (k + t) cc s"
proof (induction t arbitrary: n k)
  case 0
  then obtain n' where "n = Suc n'" by (cases n) auto
  then show ?case by (cases "itag_response k cc s") simp
next
  case (Suc t)
  then obtain n' where n: "n = Suc n'" by (cases n) auto
  have "drop_bit 1 (push_bit (Suc t) 1 :: u32) = push_bit t 1"
    using Suc.prems by (intro bit_word_eqI) (auto simp: bit_simps)
  moreover have "bit (push_bit t 1 :: u32) t" using Suc.prems by (simp add: bit_simps)
  then have "push_bit t 1 \<noteq> (0 :: u32)" by (metis bit_0_eq bot_apply bot_bool_def)
  moreover have "push_bit (Suc t) 1 AND 1 = (0 :: u32)"
    by (intro bit_word_eqI) (auto simp: bit_simps)
  ultimately show ?case using Suc n by (simp del: push_bit_of_1 push_bit_Suc)
qed

lemma itag_free_single:
  "t < 32 \<Longrightarrow> ase_pcie_ats_itag_free s (push_bit t 1) cc =
     itag_response t (if cc = 0 then 8 else cc) s"
  by (simp add: ase_pcie_ats_itag_free_def itag_free_loop_single del: push_bit_of_1)

lemma bit_or_push: "t < 32 \<Longrightarrow> bit (w OR push_bit t 1) i \<longleftrightarrow> bit w i \<or> i = t" for w :: u32
  using bit_imp_le_length [of w i] by (auto simp: bit_simps)

lemma bit_xor_push: "t < 32 \<Longrightarrow> bit (w XOR push_bit t 1) i \<longleftrightarrow> (bit w i \<noteq> (i = t))" for w :: u32
  using bit_imp_le_length [of w i] by (auto simp: bit_simps)

lemma itag_tags_le: "itag_tags s \<subseteq> {..<32}"
  using bit_imp_le_length by (fastforce simp: itag_tags_def)

lemma small_of_nat:
  assumes "c \<le> 8"
  shows "scast (of_nat c :: u8) = (of_nat c :: u32)" and "ucast (of_nat c :: u32) = (of_nat c :: u8)"
    and "of_nat c \<noteq> (- 1 :: u8)"
proof -
  have "c \<in> {0, 1, 2, 3, 4, 5, 6, 7, 8}" using assms by auto
  then show "scast (of_nat c :: u8) = (of_nat c :: u32)" "ucast (of_nat c :: u32) = (of_nat c :: u8)"
    "of_nat c \<noteq> (- 1 :: u8)" by auto
qed

lemma of_nat_u32_eq_iff: "\<lbrakk>i \<le> 8; j \<le> 8\<rbrakk> \<Longrightarrow> of_nat i = (of_nat j :: u32) \<longleftrightarrow> i = j"
  by (simp add: word_of_nat_eq_iff take_bit_nat_eq_self)

text \<open>
  One response to a busy tag, when the number of expected responses is \<open>cc\<close>: the first sets
  the counters, a further one counts, and the last frees the tag.
\<close>

lemma itag_response_ok:
  assumes "t \<in> itag_tags s" and "0 < c" and "c \<le> 8"
    and "itag_busy_state s t = b"
    and "cc_expected b = - 1 \<and> j = 0 \<or>
         cc_expected b = of_nat c \<and> cc_received b = of_nat j \<and> 0 < j \<and> j < c"
  shows "\<exists>s'. itag_response t (of_nat c) s = (0, s') \<and>
    itag_tags s' = (if Suc j = c then itag_tags s - {t} else itag_tags s) \<and>
    itag_busy_state s' = (itag_busy_state s)(t :=
      \<lparr>set_cycle = set_cycle b, cc_expected = of_nat c, cc_received = of_nat (Suc j)\<rparr>)"
proof -
  have t: "t < 32" "bit (itag_busy_vec s) t" "\<not> itag_busy_vec s AND push_bit t 1 = 0"
    using assms(1) itag_tags_le by (auto simp: itag_tags_def and_push_bit_eq_0 simp del: push_bit_of_1)
  have j: "Suc j \<le> 8" using assms(2,3,5) by auto
  note w = small_of_nat [OF assms(3)] small_of_nat [OF j] of_nat_u32_eq_iff [OF j assms(3)]
  define b' where "b' = \<lparr>set_cycle = set_cycle b, cc_expected = of_nat c,
    cc_received = (of_nat (Suc j) :: u8)\<rparr>"
  have upd: "(if cc_expected b = - 1 then b\<lparr>cc_expected := ucast (of_nat c :: u32), cc_received := 1\<rparr>
      else b\<lparr>cc_received := cc_received b + 1\<rparr>) = b'"
    using assms(5) w(2,3) by (cases b) (auto simp: b'_def)
  have "\<not> (cc_expected b \<noteq> - 1 \<and> scast (cc_expected b) \<noteq> (of_nat c :: u32))"
    using assms(5) w(1) by auto
  moreover have "scast (cc_received b') = (of_nat c :: u32) \<longleftrightarrow> Suc j = c"
    unfolding b'_def using w(4,7) by simp
  ultimately have "itag_response t (of_nat c) s = (0, if Suc j = c
      then s\<lparr>itag_busy_state := (itag_busy_state s)(t := b'),
             itag_busy_vec := itag_busy_vec s XOR push_bit t 1\<rparr>
      else s\<lparr>itag_busy_state := (itag_busy_state s)(t := b')\<rparr>)"
    unfolding itag_response_def Let_def assms(4) upd using t(3)
    by (simp del: push_bit_of_1 of_nat_Suc)
  then show ?thesis
    using t(1,2) unfolding b'_def [symmetric]
    by (auto simp: itag_tags_def bit_xor_push simp del: push_bit_of_1 of_nat_Suc)
qed

text \<open>
  The life of a tag: after its allocation the request is answered \<open>c\<close> times, and the tag
  becomes idle with the last answer and not before.
\<close>

fun itag_responses :: "nat \<Rightarrow> nat \<Rightarrow> u32 \<Rightarrow> itag_state \<Rightarrow> int \<times> itag_state" where
  "itag_responses 0 t cc s = (0, s)"
| "itag_responses (Suc n) t cc s =
     (case itag_responses n t cc s of (st, s') \<Rightarrow>
        if st \<noteq> 0 then (st, s') else ase_pcie_ats_itag_free s' (push_bit t 1) cc)"

lemma itag_responses_count:
  assumes "t \<in> itag_tags s" and "cc_expected (itag_busy_state s t) = - 1"
    and "0 < c" and "c \<le> 8" and "j \<le> c"
  shows "\<exists>s'. itag_responses j t (of_nat c) s = (0, s') \<and>
    itag_tags s' = (if j = c then itag_tags s - {t} else itag_tags s) \<and>
    (\<forall>u. u \<noteq> t \<longrightarrow> itag_busy_state s' u = itag_busy_state s u) \<and>
    (j = 0 \<and> s' = s \<or> cc_expected (itag_busy_state s' t) = of_nat c \<and>
       cc_received (itag_busy_state s' t) = of_nat j)"
  using assms(5)
proof (induction j)
  case 0
  then show ?case using assms(3) by auto
next
  case (Suc j)
  then obtain s1 where s1: "itag_responses j t (of_nat c) s = (0, s1)" "itag_tags s1 = itag_tags s"
    "\<forall>u. u \<noteq> t \<longrightarrow> itag_busy_state s1 u = itag_busy_state s u"
    "j = 0 \<and> s1 = s \<or> cc_expected (itag_busy_state s1 t) = of_nat c \<and>
       cc_received (itag_busy_state s1 t) = of_nat j" by auto
  have "t < 32" using assms(1) itag_tags_le by auto
  moreover have "of_nat c \<noteq> (0 :: u32)" using of_nat_u32_eq_iff [OF assms(4), of 0] assms(3) by auto
  ultimately have free: "ase_pcie_ats_itag_free s1 (push_bit t 1) (of_nat c) = itag_response t (of_nat c) s1"
    by (simp add: itag_free_single del: push_bit_of_1)
  obtain s2 where "itag_response t (of_nat c) s1 = (0, s2)"
    "itag_tags s2 = (if Suc j = c then itag_tags s1 - {t} else itag_tags s1)"
    "itag_busy_state s2 = (itag_busy_state s1)(t := \<lparr>set_cycle = set_cycle (itag_busy_state s1 t),
       cc_expected = of_nat c, cc_received = of_nat (Suc j)\<rparr>)"
    using itag_response_ok [of t s1 c _ j, OF _ assms(3,4) refl] s1 assms(1,2) Suc.prems
    by (cases "j = 0") auto
  then show ?case using s1 free by (simp del: push_bit_of_1 of_nat_Suc)
qed

section \<open>The tag pool\<close>

text \<open>
  The requests that are answered once: every busy tag still waits for its first answer.
\<close>

definition itag_fresh :: "itag_state \<Rightarrow> bool" where
  "itag_fresh s \<longleftrightarrow> (\<forall>t \<in> itag_tags s. cc_expected (itag_busy_state s t) = - 1)"

definition itag_take :: "itag_state \<Rightarrow> (nat \<times> itag_state) option" where
  "itag_take s = (case ase_pcie_ats_itag_alloc s of Inl _ \<Rightarrow> None | Inr p \<Rightarrow> Some p)"

definition itag_release :: "itag_state \<Rightarrow> nat \<Rightarrow> itag_state" where
  "itag_release s t = snd (ase_pcie_ats_itag_free s (push_bit t 1) 1)"

lemma itag_take_cases:
  "itag_take s = None \<and> itag_tags s = {..<32} \<or>
   (\<exists>t s'. itag_take s = Some (t, s') \<and> ase_pcie_ats_itag_alloc s = Inr (t, s') \<and> t < 32 \<and>
      t \<notin> itag_tags s \<and> itag_tags s' = insert t (itag_tags s) \<and>
      itag_busy_state s' = (itag_busy_state s)(t :=
          \<lparr>set_cycle = err_check_cycle s, cc_expected = - 1, cc_received = - 1\<rparr>))"
proof (cases "itag_busy_vec s = - 1")
  case True
  then show ?thesis
    using itag_tags_le [of s] by (auto simp: itag_take_def itag_alloc_cases itag_tags_def)
next
  case False
  obtain t where t: "t < 32" "\<not> bit (itag_busy_vec s) t"
    "ase_pcie_ats_itag_alloc s = Inr (t, s\<lparr>itag_busy_state := (itag_busy_state s)(t :=
          \<lparr>set_cycle = err_check_cycle s, cc_expected = - 1, cc_received = - 1\<rparr>),
        itag_busy_vec := itag_busy_vec s OR push_bit t 1\<rparr>)"
    using itag_alloc_cases(2) [OF False] by blast
  then show ?thesis
    by (auto simp: itag_take_def itag_tags_def bit_or_push simp del: push_bit_of_1)
qed

lemma itag_release:
  assumes "itag_fresh s" and "t \<in> itag_tags s"
  shows "itag_tags (itag_release s t) = itag_tags s - {t}" and "itag_fresh (itag_release s t)"
proof -
  obtain s' where "itag_responses 1 t (of_nat 1) s = (0, s')" "itag_tags s' = itag_tags s - {t}"
    "\<forall>u. u \<noteq> t \<longrightarrow> itag_busy_state s' u = itag_busy_state s u"
    using itag_responses_count [OF assms(2), of 1 1] assms by (auto simp: itag_fresh_def)
  then show "itag_tags (itag_release s t) = itag_tags s - {t}" "itag_fresh (itag_release s t)"
    using assms(1) by (auto simp: itag_release_def itag_fresh_def simp del: push_bit_of_1)
qed

interpretation itag: tag_pool "{..<32}" itag_fresh itag_tags itag_take itag_release
proof (unfold_locales, goal_cases)
  case (2 s) show ?case by (rule itag_tags_le)
next
  case (3 s t s') then show ?case using itag_take_cases [of s] by (auto simp: itag_fresh_def)
next
  case (4 s) then show ?case using itag_take_cases [of s] by auto
next
  case (5 s t) then show ?case using itag_release by blast
qed simp

text \<open>The timeout check looks at each busy tag.\<close>

lemma itag_check_loop_iff:
  "itag_check_loop n t v s = (if \<exists>i < n. bit v i \<and>
     err_check_cycle s - set_cycle (itag_busy_state s (t + i)) > 10000 then -1 else 0)"
proof (induction n arbitrary: t v)
  case (Suc n)
  have ex: "(\<exists>i < Suc n. P i) \<longleftrightarrow> P 0 \<or> (\<exists>i < n. P (Suc i))" for P :: "nat \<Rightarrow> bool"
    by (metis Suc_less_eq not0_implies_Suc zero_less_Suc)
  have "v AND 1 \<noteq> 0 \<longleftrightarrow> bit v 0" by (simp add: and_one_eq odd_iff_mod_2_eq_one bit_0)
  moreover have "bit (drop_bit 1 v) i = bit v (Suc i)" for i by (simp add: bit_simps)
  ultimately show ?case
    using Suc.IH [of "t + 1" "drop_bit 1 v"] unfolding ex by auto
qed simp

section \<open>Properties\<close>

text \<open>
  C30: invalidation tags in use are distinct, and all 32 of them can be used. A state in
  which no tag is busy serves \<open>n\<close> calls of \<open>ase_pcie_ats_itag_alloc\<close> exactly when \<open>n\<close> is at
  most 32, with \<open>n\<close> different tags.
\<close>

theorem itag_alloc_distinct:
  assumes "itag_busy_vec s = 0"
  shows "(n \<le> 32 \<longrightarrow> (\<exists>ts s'. alloc_many itag_take n s = Some (ts, s') \<and> distinct ts \<and>
            length ts = n \<and> itag_tags s' = set ts)) \<and>
    (32 < n \<longrightarrow> alloc_many itag_take n s = None)"
proof -
  have e: "itag_tags s = {}" "itag_fresh s" using assms by (simp_all add: itag_tags_def itag_fresh_def)
  note cap = itag.alloc_many_capacity [OF e(2), of n, unfolded e(1)]
  show ?thesis
  proof (cases "alloc_many itag_take n s")
    case None
    then show ?thesis using cap by simp
  next
    case (Some p)
    then obtain ts s' where p: "alloc_many itag_take n s = Some (ts, s')" by (cases p) auto
    then show ?thesis using cap itag.alloc_many_distinct [OF e(2) p] e(1) by simp
  qed
qed

theorem itag_alloc_distinct_witness:
  "\<exists>ts s'. alloc_many itag_take 32 \<lparr>itag_busy_vec = 0, itag_busy_state = (\<lambda>_.
       \<lparr>set_cycle = 0, cc_expected = 0, cc_received = 0\<rparr>), err_check_cycle = 0\<rparr> = Some (ts, s') \<and>
     distinct ts \<and> length ts = 32"
  using itag_alloc_distinct [of "\<lparr>itag_busy_vec = 0, itag_busy_state = (\<lambda>_.
       \<lparr>set_cycle = 0, cc_expected = 0, cc_received = 0\<rparr>), err_check_cycle = 0\<rparr>" 32] by auto

text \<open>
  C29: a tag is released by the last of its responses. When \<open>ase_pcie_ats_itag_alloc\<close> hands
  out the tag \<open>t\<close> and responses with the count \<open>c\<close> (1 to 8) arrive for it, none of them is
  an error, the tag stays busy for fewer than \<open>c\<close> responses, and with the one of number
  \<open>c\<close> exactly the tags that were busy before the request are busy again.
\<close>

theorem itag_life:
  assumes "ase_pcie_ats_itag_alloc s = Inr (t, s1)" and "0 < c" and "c \<le> 8" and "j \<le> c"
  shows "\<exists>s'. itag_responses j t (of_nat c) s1 = (0, s') \<and> t \<notin> itag_tags s \<and>
    itag_tags s' = (if j = c then itag_tags s else insert t (itag_tags s))"
proof -
  have *: "t \<notin> itag_tags s" "itag_tags s1 = insert t (itag_tags s)"
    "cc_expected (itag_busy_state s1 t) = - 1"
    using itag_take_cases [of s] assms(1) by (auto simp: itag_take_def)
  show ?thesis using itag_responses_count [of t s1 c j, OF _ *(3) assms(2-4)] * by auto
qed

definition demo_itags :: itag_state where
  "demo_itags = \<lparr>itag_busy_vec = 0xb, itag_busy_state = (\<lambda>_.
     \<lparr>set_cycle = 0, cc_expected = - 1, cc_received = - 1\<rparr>), err_check_cycle = 5\<rparr>"

theorem itag_life_witness:
  "\<exists>s1 s'. ase_pcie_ats_itag_alloc demo_itags = Inr (2, s1) \<and>
    itag_responses 3 2 3 s1 = (0, s') \<and> itag_tags s' = itag_tags demo_itags"
proof -
  have "ffs (NOT 0xb) = 3" by code_simp
  then have "\<exists>s1. ase_pcie_ats_itag_alloc demo_itags = Inr (2, s1)"
    by (simp add: ase_pcie_ats_itag_alloc_def demo_itags_def)
  then obtain s1 where "ase_pcie_ats_itag_alloc demo_itags = Inr (2, s1)" by blast
  then show ?thesis using itag_life [of demo_itags 2 s1 3 3] by auto
qed

text \<open>
  C31: \<open>ase_pcie_ats_itag_cycle\<close> advances the clock by one and reports an error exactly
  when some invalidation request has been outstanding for more than 10000 cycles.
\<close>

theorem itag_cycle_timeout:
  "ase_pcie_ats_itag_cycle s =
    (if \<exists>t \<in> itag_tags s. err_check_cycle s + 1 - set_cycle (itag_busy_state s t) > 10000 then -1 else 0,
     s\<lparr>err_check_cycle := err_check_cycle s + 1\<rparr>)"
proof -
  have "(\<exists>i < 32. bit (itag_busy_vec s) i \<and> P i) \<longleftrightarrow> (\<exists>t \<in> itag_tags s. P t)" for P
    using itag_tags_le [of s] by (auto simp: itag_tags_def)
  then show ?thesis by (simp add: ase_pcie_ats_itag_cycle_def itag_check_loop_iff)
qed

text \<open>
  C32: the encoded translation of an address whose page is \<open>2 ^ n\<close> bytes long announces a
  page of that size with the flags and the page address of the request, when bit \<open>n - 1\<close> of
  the address is clear or the page has 4 KB. If that bit is set in a larger page, the run of
  ones that encodes the size goes on and a page that is too large is announced: the
  address is not aligned to the page before it is encoded.
\<close>

theorem pa_enc_page_size:
  assumes "pa \<noteq> 0" and "12 \<le> n" and "n < 64" and "flags < 2 ^ 11"
    and "w = bswap_64 (ase_pcie_ats_pa_enc pa (2 ^ n) flags)"
  shows "w AND mask 11 = ucast flags \<and> ats_addr w n = ats_addr pa n \<and>
    (if n = 12 \<or> \<not> bit pa (n - 1) then ats_page_bits w = n else n < ats_page_bits w)"
proof -
  note b = pa_enc_bits [OF assms(1-4), folded assms(5)]
  have f: "bit flags i \<Longrightarrow> i < 11" for i
    using word_less_exp_bit [OF assms(4), of i] by (cases "i < 11") auto
  have "w AND mask 11 = ucast flags" using f
    by (intro bit_word_eqI) (auto simp: bit_and_iff bit_mask_iff b bit_ucast_iff)
  moreover have "ats_addr w n = ats_addr pa n"
    using assms(2) by (intro bit_word_eqI) (auto simp: ats_addr_def bit_and_iff bit_not_iff bit_mask_iff b)
  moreover have "ats_page_bits w = n" if "n = 12 \<or> \<not> bit pa (n - 1)"
  proof -
    have "\<not> bit w (11 + (n - 12))" using assms(2) that by (auto simp: b)
    then show ?thesis
      using ones_from_eq [of 11 "n - 12" w 53] assms(2,3) by (auto simp: ats_page_bits_def b)
  qed
  moreover have "n < ats_page_bits w" if "n \<noteq> 12" "bit pa (n - 1)"
  proof -
    have "bit w i" if "11 \<le> i" "i < 11 + (n - 11)" for i
      using that \<open>bit pa (n - 1)\<close> \<open>n \<noteq> 12\<close> assms(2) by (cases "i = n - 1") (auto simp: b)
    then have "n - 11 \<le> ones_from w 11 53" using assms(3) by (intro ones_from_le) auto
    then show ?thesis unfolding ats_page_bits_def using assms(2) by linarith
  qed
  ultimately show ?thesis by auto
qed

theorem pa_enc_page_size_witness:
  "ats_page_bits (bswap_64 (ase_pcie_ats_pa_enc 0xffffc01000 (2 ^ 21) 3)) = 21 \<and>
   21 < ats_page_bits (bswap_64 (ase_pcie_ats_pa_enc 0xffffd01000 (2 ^ 21) 3))"
proof -
  have "\<not> bit (0xffffc01000 :: u64) 20" "bit (0xffffd01000 :: u64) 20"
    by (simp_all add: bit_numeral_rec)
  then show ?thesis
    using pa_enc_page_size [of "0xffffc01000" 21 3 _, OF _ _ _ _ refl]
      pa_enc_page_size [of "0xffffd01000" 21 3 _, OF _ _ _ _ refl] by simp
qed

end
