(* ===== verification/Membus.thy ===== *)
theory Membus
  imports Host_Memory Ats Byte_Memory
begin

text \<open>
  The memory bus of the application, \<open>src/ase/sw/app_backend.c\<close>: the threads that serve the
  reads, atomic updates and writes that the simulated hardware sends, the PCIe messages, and
  the hook that invalidates translations when the application unmaps memory. Each
  definition handles one message. Messages to the simulator are appended to lists; a header
  and the payload that follows it are separate messages, as in the code.

  Arguments stand for the operating system: \<open>mm\<close> and \<open>smaps\<close> as in the host memory,
  \<open>page_size\<close> for \<open>sysconf(_SC_PAGESIZE)\<close>, and \<open>mapped\<close> for the success of \<open>mincore\<close>. The
  memory of the application is total: a fault on an unmapped page is not modelled.
\<close>

section \<open>Definitions\<close>

subsection \<open>Messages and state\<close>

datatype req_type = HOST_MEM_REQ_READ | HOST_MEM_REQ_WRITE | HOST_MEM_REQ_ATOMIC

datatype addr_type = HOST_MEM_AT_UNTRANS | HOST_MEM_AT_REQ_TRANS | HOST_MEM_AT_TRANS

datatype mem_status = HOST_MEM_STATUS_VALID | HOST_MEM_STATUS_ILLEGAL | HOST_MEM_STATUS_NOT_PINNED
  | HOST_MEM_STATUS_NOT_MAPPED | HOST_MEM_STATUS_ILLEGAL_4KB

definition HOST_MEM_MAX_DATA_SIZE :: nat where "HOST_MEM_MAX_DATA_SIZE = 4096"

record read_req =
  rd_addr :: u64
  rd_req :: req_type
  rd_addr_type :: addr_type
  rd_data_bytes :: u32
  rd_tag :: u32
  rd_afu_idx :: int
  atomic_wr_data0 :: u64
  atomic_wr_data1 :: u64
  atomic_func :: u8

record read_rsp =
  rsp_pa :: u64
  rsp_va :: u64
  rsp_data_bytes :: u32
  rsp_tag :: u32
  rsp_afu_idx :: int
  rsp_status :: mem_status

record write_req =
  wr_addr :: u64
  wr_addr_type :: addr_type
  byte_en :: bool
  first_be :: u8
  last_be :: u8
  wr_data_bytes :: u32
  wr_afu_idx :: int

record write_rsp =
  wrsp_pa :: u64
  wrsp_va :: u64
  wrsp_afu_idx :: int
  wrsp_status :: mem_status

record pcie_msg_hdr =
  pm_fmt_type :: u8
  pm_msg_code :: u8
  pm_len_bytes :: u16
  pm_msg0 :: u32
  pm_msg1 :: u32
  pm_msg2 :: u32
  msg_afu_idx :: int
  pm_req_id :: u16
  msg_tag :: u16

datatype rd_msg = RdRsp read_rsp | RdPayload "u8 list"

datatype pcie_msg = PcieHdr pcie_msg_hdr | PciePayload u64

record 'al membus =
  mb_hm :: "'al hm_state"
  mb_mem :: byte_mem
  mb_itag :: itag_state
  pcie_atc_active :: bool
  app2sim_membus_rd_rsp :: "rd_msg list"
  app2sim_membus_wr_rsp :: "write_rsp list"
  app2sim_pcie_msg :: "pcie_msg list"

subsection \<open>Reads and atomic updates\<close>

definition membus_op_status :: "u64 \<Rightarrow> (u64 \<Rightarrow> bool) \<Rightarrow> u64 \<Rightarrow> u64 \<Rightarrow> u64 \<Rightarrow> mem_status" where
  "membus_op_status page_size mapped va pa bytes =
     (let page_mask = NOT (page_size - 1) in
      if (pa AND 4095) + bytes > 4096 then HOST_MEM_STATUS_ILLEGAL_4KB
      else if va = 0 then HOST_MEM_STATUS_NOT_PINNED
      else if \<not> mapped (va AND page_mask) then HOST_MEM_STATUS_NOT_MAPPED
      else HOST_MEM_STATUS_VALID)"

text \<open>
  \<open>membus_atomic_upd\<close>: the update of a word of \<open>n\<close> bytes and its old value. The compare and
  swap returns the value it found, which is the expected one when it succeeds.
\<close>

definition atomic_upd :: "byte_mem \<Rightarrow> u64 \<Rightarrow> nat \<Rightarrow> u8 \<Rightarrow> u64 \<Rightarrow> u64 \<Rightarrow> (u64 \<times> byte_mem) res" where
  "atomic_upd m va n func d0 d1 =
     (let old = le_word (mem_read m va n); store = (\<lambda>w. mem_write m va (le_bytes n w)) in
      if func = 1 then Inr (old, store (old + d0))
      else if func = 2 then Inr (old, store d0)
      else if func = 3 then Inr (old, if old = take_bit (8 * n) d0 then store d1 else m)
      else Inl Sigabrt)"

definition membus_atomic_upd ::
  "byte_mem \<Rightarrow> u64 \<Rightarrow> u32 \<Rightarrow> u8 \<Rightarrow> u64 \<Rightarrow> u64 \<Rightarrow> (u64 \<times> byte_mem) res" where
  "membus_atomic_upd m va data_bytes func d0 d1 =
     (if data_bytes = 4 then atomic_upd m va 4 func d0 d1 else atomic_upd m va 8 func d0 d1)"

definition membus_cycle :: "'al membus \<Rightarrow> 'al membus res" where
  "membus_cycle s = (let (st, it) = ase_pcie_ats_itag_cycle (mb_itag s) in
     if st = -1 then Inl Sigabrt else Inr (s\<lparr>mb_itag := it\<rparr>))"

definition membus_translate ::
  "'al hm_state \<Rightarrow> addr_type \<Rightarrow> int \<Rightarrow> u64 \<Rightarrow> (u64 \<times> 'al hm_state) res" where
  "membus_translate hm at afu_idx addr =
     (if at = HOST_MEM_AT_UNTRANS then ase_host_memory_iova_to_va hm afu_idx addr True
      else ase_host_memory_pa_to_va hm addr True)"

text \<open>
  The answer to a translation request. Its payload is sent from an array of 128 bytes, so a
  longer request reads past the array.
\<close>

definition membus_ats :: 
  "(pt_mem \<Rightarrow> u64 option) \<Rightarrow> smaps_line list option \<Rightarrow> 'al membus \<Rightarrow> read_req \<Rightarrow> 'al membus res" where
  "membus_ats mm smaps s req =
     rbind (ase_host_memory_va_to_pa mm smaps (mb_hm s) (rd_addr req)) (\<lambda>(pa, len, hm).
       if pa = - 1 then Inl Sigabrt
       else let n = unat (rd_data_bytes req);
                payload = le_bytes 8 (ase_pcie_ats_pa_enc pa (the len) 3) @ replicate 120 0;
                rsp = \<lparr>rsp_pa = rd_addr req, rsp_va = rd_addr req,
                  rsp_data_bytes = rd_data_bytes req, rsp_tag = rd_tag req,
                  rsp_afu_idx = rd_afu_idx req, rsp_status = HOST_MEM_STATUS_VALID\<rparr>
            in if n > 128 then Inl Segv
               else Inr (s\<lparr>mb_hm := hm, pcie_atc_active := True, app2sim_membus_rd_rsp :=
                 app2sim_membus_rd_rsp s @ RdRsp rsp # (if n = 0 then [] else [RdPayload (take n payload)])\<rparr>))"

definition membus_read :: "'al membus \<Rightarrow> read_req \<Rightarrow> 'al membus res" where
  "membus_read s req =
     rbind (membus_translate (mb_hm s) (rd_addr_type req) (rd_afu_idx req) (rd_addr req)) (\<lambda>(va, hm).
       if va = 0 then Inl Sigabrt
       else let n = unat (rd_data_bytes req);
                rsp = \<lparr>rsp_pa = rd_addr req, rsp_va = va,
                  rsp_data_bytes = rd_data_bytes req, rsp_tag = rd_tag req,
                  rsp_afu_idx = rd_afu_idx req, rsp_status = HOST_MEM_STATUS_VALID\<rparr>;
                s = s\<lparr>mb_hm := hm, app2sim_membus_rd_rsp := app2sim_membus_rd_rsp s @ [RdRsp rsp]\<rparr>
            in rbind
              (if n = 0 then Inr s
               else if rd_req req \<noteq> HOST_MEM_REQ_ATOMIC
               then Inr (s\<lparr>app2sim_membus_rd_rsp :=
                      app2sim_membus_rd_rsp s @ [RdPayload (mem_read (mb_mem s) va n)]\<rparr>)
               else rbind (membus_atomic_upd (mb_mem s) va (rd_data_bytes req) (atomic_func req)
                             (atomic_wr_data0 req) (atomic_wr_data1 req)) (\<lambda>(old, m).
                      let s = s\<lparr>mb_mem := m\<rparr> in
                      if rd_data_bytes req = 4
                      then Inr (s\<lparr>app2sim_membus_rd_rsp :=
                             app2sim_membus_rd_rsp s @ [RdPayload (le_bytes 4 old)]\<rparr>)
                      else if rd_data_bytes req = 8
                      then Inr (s\<lparr>app2sim_membus_rd_rsp :=
                             app2sim_membus_rd_rsp s @ [RdPayload (le_bytes 8 old)]\<rparr>)
                      else Inl Sigabrt))
              (\<lambda>s. Inr (s\<lparr>mb_hm := ase_host_memory_unlock (mb_hm s)\<rparr>)))"

text \<open>One message of \<open>membus_rd_watcher\<close>.\<close>

definition membus_rd_watcher ::
  "(pt_mem \<Rightarrow> u64 option) \<Rightarrow> smaps_line list option \<Rightarrow> 'al membus \<Rightarrow> read_req \<Rightarrow> 'al membus res" where
  "membus_rd_watcher mm smaps s req =
     rbind (if rd_addr_type req = HOST_MEM_AT_REQ_TRANS then membus_ats mm smaps s req
            else membus_read s req) membus_cycle"

subsection \<open>Writes\<close>

text \<open>\<open>be_memcpy\<close> with the pointer and mask updates of its callers.\<close>

fun be_memcpy :: "byte_mem \<Rightarrow> u64 \<Rightarrow> u8 list \<Rightarrow> u8 \<Rightarrow> byte_mem" where
  "be_memcpy m dst [] mk = m"
| "be_memcpy m dst (b # bs) mk =
     be_memcpy (if mk AND 1 \<noteq> 0 then m(dst := b) else m) (dst + 1) bs (drop_bit 1 mk)"

definition membus_store :: "byte_mem \<Rightarrow> u64 \<Rightarrow> write_req \<Rightarrow> u8 list \<Rightarrow> byte_mem" where
  "membus_store m va req data =
     (let n = unat (wr_data_bytes req);
          masked_fb = byte_en req \<and> first_be req \<noteq> 0xf;
          masked_lb = byte_en req \<and> n > 4 \<and> last_be req \<noteq> 0xf;
          m = (if masked_fb then be_memcpy m va (take 4 data) (first_be req) else m);
          dst = (if masked_fb then va + 4 else va);
          src = (if masked_fb then drop 4 data else data);
          len = n - (if masked_fb then 4 else 0) - (if masked_lb then 4 else 0);
          m = (if len \<noteq> 0 then mem_write m dst (take len src) else m)
      in if masked_lb then be_memcpy m (dst + of_nat len) (take 4 (drop len src)) (last_be req)
         else m)"

text \<open>One message of \<open>membus_wr_watcher\<close>; \<open>data\<close> is the payload that was received with it.\<close>

definition membus_wr_watcher ::
  "u64 \<Rightarrow> (u64 \<Rightarrow> bool) \<Rightarrow> 'al membus \<Rightarrow> write_req \<Rightarrow> u8 list \<Rightarrow> 'al membus res" where
  "membus_wr_watcher page_size mapped s req data =
     (if unat (wr_data_bytes req) > HOST_MEM_MAX_DATA_SIZE then Inl Sigabrt
      else rbind (membus_translate (mb_hm s) (wr_addr_type req) (wr_afu_idx req) (wr_addr req))
        (\<lambda>(va, hm).
          let st = membus_op_status page_size mapped va (wr_addr req) (ucast (wr_data_bytes req)) in
          if va = 0 then Inl Sigabrt
          else let st = (if byte_en req \<and> (wr_data_bytes req AND 3 \<noteq> 0 \<or> wr_data_bytes req = 0)
                         then HOST_MEM_STATUS_ILLEGAL else st);
                   rsp = \<lparr>wrsp_pa = wr_addr req, wrsp_va = va, wrsp_afu_idx = wr_afu_idx req,
                          wrsp_status = st\<rparr>;
                   m = (if st = HOST_MEM_STATUS_VALID then membus_store (mb_mem s) va req data
                        else mb_mem s)
               in membus_cycle (s\<lparr>mb_mem := m, mb_hm := ase_host_memory_unlock hm,
                    app2sim_membus_wr_rsp := app2sim_membus_wr_rsp s @ [rsp]\<rparr>)))"

subsection \<open>PCIe messages\<close>

text \<open>
  One message of \<open>pcie_msg_watcher\<close>. The page length is looked up without the lock of the
  host memory, so the lookup may fill the page size cache.
\<close>

definition pcie_msg_watcher ::
  "smaps_line list option \<Rightarrow> 'al membus \<Rightarrow> pcie_msg_hdr \<Rightarrow> 'al membus res" where
  "pcie_msg_watcher smaps s h =
     (if pm_fmt_type h = 0x30 \<and> pm_msg_code h = 4
      then (let va = (push_bit 32 (ucast (pm_msg1 h)) OR ucast (pm_msg2 h)) AND NOT 0xfff;
                (page_len, hm) = ase_host_memory_va_page_len smaps (mb_hm s) va;
                resp_code = (if page_len = 0 then 1 else 0);
                rsp = \<lparr>pm_fmt_type = 0x32, pm_msg_code = 5, pm_len_bytes = 0, pm_msg0 = pm_msg0 h,
                  pm_msg1 = push_bit 16 (ucast (pm_req_id h)) OR (drop_bit 3 (pm_msg2 h) AND 0x1ff)
                         OR push_bit 12 resp_code,
                  pm_msg2 = 0, msg_afu_idx = msg_afu_idx h, pm_req_id = 0, msg_tag = msg_tag h\<rparr>
            in Inr (s\<lparr>mb_hm := hm, app2sim_pcie_msg := app2sim_pcie_msg s @ [PcieHdr rsp]\<rparr>))
      else if pm_fmt_type h = 0x32 \<and> pm_msg_code h = 2
      then (let (st, it) = ase_pcie_ats_itag_free (mb_itag s) (pm_msg2 h) (pm_msg1 h AND 7) in
            if st < 0 then Inl ExitCall else Inr (s\<lparr>mb_itag := it\<rparr>))
      else Inr s)"

definition pcie_send_ats_inval :: "'al membus \<Rightarrow> u64 \<Rightarrow> u64 \<Rightarrow> 'al membus res" where
  "pcie_send_ats_inval s va len =
     rbind (ase_pcie_ats_itag_alloc (mb_itag s)) (\<lambda>(itag, it).
       let h = \<lparr>pm_fmt_type = 0x72, pm_msg_code = 1, pm_len_bytes = 8, pm_msg0 = 0, pm_msg1 = 0, pm_msg2 = 0,
                msg_afu_idx = 0, pm_req_id = 0, msg_tag = of_nat itag\<rparr>
       in Inr (s\<lparr>mb_itag := it, app2sim_pcie_msg := app2sim_pcie_msg s @
                 [PcieHdr h, PciePayload (ase_pcie_ats_pa_enc va len 0)]\<rparr>))"

lemma unat_drop_bit_1: "unat (drop_bit 1 (b :: u64)) = unat b div 2"
  by (subst unat_drop_bit_eq) (simp add: drop_bit_eq_div)

function ilog2_loop :: "u64 \<Rightarrow> u64 \<Rightarrow> u64" where
  "ilog2_loop b shift = (let b = drop_bit 1 b in if b = 0 then shift else ilog2_loop b (shift + 1))"
  by auto
termination
proof (relation "measure (unat \<circ> fst)", goal_cases)
  case (2 b shift x)
  then have "unat x \<noteq> 0" by (simp add: unat_eq_zero)
  moreover have "unat x = unat b div 2" using 2(1) unat_drop_bit_1 by metis
  ultimately show ?case by simp
qed simp

definition ilog2_ceil :: "u64 \<Rightarrow> u64" where
  "ilog2_ceil n = (if n \<le> 1 then 0 else ilog2_loop (n - 1) 1)"

fun ats_inval_loop :: "nat \<Rightarrow> 'al membus \<Rightarrow> u64 \<Rightarrow> u64 \<Rightarrow> u64 \<Rightarrow> 'al membus res" where
  "ats_inval_loop 0 s start limit bytes = (if start < limit then Inl Blocked else Inr s)"
| "ats_inval_loop (Suc n) s start limit bytes =
     (if start < limit
      then rbind (pcie_send_ats_inval s start bytes) (\<lambda>s. ats_inval_loop n s (start + bytes) limit bytes)
      else Inr s)"

definition inval_bytes :: "u64 \<Rightarrow> u64" where
  "inval_bytes len = push_bit (12 + unat (ilog2_ceil ((len + 4095) div 4096))) 1"

definition inval_start :: "u64 \<Rightarrow> u64 \<Rightarrow> u64" where
  "inval_start va len = va AND NOT (inval_bytes len - 1)"

definition inval_end :: "u64 \<Rightarrow> u64 \<Rightarrow> u64" where
  "inval_end va len =
     (va + (len + 4095) div 4096 * 4096 + (inval_bytes len - 1)) AND NOT (inval_bytes len - 1)"

text \<open>
  \<open>ase_mem_unmap_hook\<close>; \<open>session\<close> says whether the memory bus is established. The two bounds
  are for the loop that sends the invalidations and the loop over the pages.
\<close>

definition ase_mem_unmap_hook ::
  "nat \<Rightarrow> nat \<Rightarrow> bool \<Rightarrow> smaps_line list option \<Rightarrow> 'al membus \<Rightarrow> u64 \<Rightarrow> u64 \<Rightarrow> 'al membus res" where
  "ase_mem_unmap_hook n1 n2 session smaps s va len =
     (if \<not> session \<or> \<not> pcie_atc_active s then Inr s
      else rbind (ats_inval_loop n1 s (inval_start va len) (inval_end va len) (inval_bytes len)) (\<lambda>s.
        rbind (ase_host_memory_inval_va_range n2 smaps (mb_hm s) va len) (\<lambda>hm.
          Inr (s\<lparr>mb_hm := hm\<rparr>))))"

section \<open>Byte enables\<close>

text \<open>The bytes that a write with byte enables stores.\<close>

definition byte_enabled :: "write_req \<Rightarrow> nat \<Rightarrow> bool" where
  "byte_enabled req i =
     (let n = unat (wr_data_bytes req) in
      i < n \<and> (byte_en req \<longrightarrow>
        (if i < 4 then bit (first_be req) i
         else if i + 4 \<ge> n then bit (last_be req) (i + 4 - n) else True)))"

lemma be_memcpy_apply:
  assumes "length bs \<le> 8"
  shows "be_memcpy m a bs mk x =
    (if unat (x - a) < length bs \<and> bit mk (unat (x - a)) then bs ! unat (x - a) else m x)"
  using assms
proof (induction bs arbitrary: m a mk)
  case (Cons b bs)
  have odd: "mk AND 1 \<noteq> 0 \<longleftrightarrow> bit mk 0" by (simp add: and_one_eq odd_iff_mod_2_eq_one bit_0)
  have IH: "be_memcpy m' (a + 1) bs (drop_bit 1 mk) x =
    (if unat (x - (a + 1)) < length bs \<and> bit mk (Suc (unat (x - (a + 1))))
     then bs ! unat (x - (a + 1)) else m' x)" for m'
    using Cons by (simp add: bit_drop_bit_eq)
  note IH = this [simplified One_nat_def]
  show ?case
  proof (cases "x = a")
    case True
    have "unat (- 1 :: u64) = 2 ^ 64 - 1" by (simp add: unsigned_minus_1_eq_mask mask_eq_exp_minus_1)
    then show ?thesis using True Cons.prems odd by (simp add: IH [unfolded True])
  next
    case False
    then have nz: "x - a \<noteq> 0" by simp
    then have "unat (x - (a + 1)) = unat (x - a) - 1"
      using unat_minus_one [OF nz] by (simp add: diff_diff_eq)
    moreover have "unat (x - a) \<noteq> 0" using nz by (simp add: unat_eq_zero)
    ultimately show ?thesis using False odd by (cases "unat (x - a)") (auto simp: IH)
  qed
qed simp

text \<open>Offsets in a range that starts \<open>k\<close> bytes after \<open>va\<close>.\<close>

lemma unat_sub_offset:
  fixes x va :: u64
  assumes "k + n \<le> 2 ^ 63"
  shows "unat (x - (va + of_nat k)) < n \<longleftrightarrow> k \<le> unat (x - va) \<and> unat (x - va) < k + n"
    and "k \<le> unat (x - va) \<Longrightarrow> unat (x - (va + of_nat k)) = unat (x - va) - k"
proof -
  define y where "y = x - va"
  have k: "unat (of_nat k :: u64) = k" using assms by (simp add: unat_of_nat)
  have y: "x - (va + of_nat k) = y - of_nat k" by (simp add: y_def algebra_simps)
  have le: "(of_nat k :: u64) \<le> y \<longleftrightarrow> k \<le> unat y" by (simp add: word_le_nat_alt k)
  have d: "unat (y - of_nat k) = (if k \<le> unat y then unat y - k else unat y + 2 ^ 64 - k)"
    using unat_sub_if' [of y "of_nat k"] by (simp add: le k)
  show "unat (x - (va + of_nat k)) < n \<longleftrightarrow> k \<le> unat (x - va) \<and> unat (x - va) < k + n"
    unfolding y y_def [symmetric] d using assms by auto
  show "k \<le> unat (x - va) \<Longrightarrow> unat (x - (va + of_nat k)) = unat (x - va) - k"
    unfolding y y_def [symmetric] d by simp
qed

lemma bit_0xf: "i < 4 \<Longrightarrow> bit (0xf :: u8) i"
  by (simp add: ase_bits)

lemma if_or3:
  "(if A then d else if B then d else if C then d else e) = (if A \<or> B \<or> C then d else e)"
  by simp

text \<open>The three parts of a masked write: the first word, the middle, the last word.\<close>

lemma byte_enabled_parts:
  assumes n: "n = unat (wr_data_bytes req)"
    and fb: "fb \<longleftrightarrow> byte_en req \<and> first_be req \<noteq> 0xf"
    and lb: "lb \<longleftrightarrow> byte_en req \<and> n > 4 \<and> last_be req \<noteq> 0xf"
    and kl: "(if fb then 4 else 0) + l + (if lb then 4 else 0) = n"
    and be: "byte_en req \<Longrightarrow> n mod 4 = 0 \<and> n \<noteq> 0"
  shows "(lb \<and> (if fb then 4 else 0) + l \<le> i \<and> i < n \<and> bit (last_be req) (i + 4 - n) \<or>
     (if fb then 4 else 0) \<le> i \<and> i < (if fb then 4 else 0) + l \<or> fb \<and> i < 4 \<and> bit (first_be req) i)
    \<longleftrightarrow> byte_enabled req i"
proof (cases "byte_en req")
  case False
  then show ?thesis using kl by (simp add: byte_enabled_def n fb lb)
next
  case True
  have b: "byte_enabled req i \<longleftrightarrow> i < n \<and> (if i < 4 then bit (first_be req) i
       else if i + 4 \<ge> n then bit (last_be req) (i + 4 - n) else True)"
    using True by (simp add: byte_enabled_def n Let_def)
  have n4: "4 \<le> n" "n \<noteq> 4 \<Longrightarrow> 8 \<le> n" using be [OF True] by presburger+
  have nofb: "\<not> fb \<Longrightarrow> i < 4 \<Longrightarrow> bit (first_be req) i"
    and nolb: "\<not> lb \<Longrightarrow> n \<noteq> 4 \<Longrightarrow> i < n \<Longrightarrow> bit (last_be req) (i + 4 - n)"
    using True bit_0xf [of i] bit_0xf [of "i + 4 - n"] n4 by (auto simp: fb lb)
  have lb4: "lb \<Longrightarrow> n \<noteq> 4" by (simp add: lb)
  consider "i < 4" | "4 \<le> i" "i + 4 < n" | "4 \<le> i" "n \<le> i + 4" "i < n" | "n \<le> i" "4 \<le> i"
    using n4(1) by linarith
  then show ?thesis
  proof cases
    case 1
    then show ?thesis using nofb n4 kl lb4 unfolding b by (cases fb; cases lb) simp_all
  next
    case 2
    then show ?thesis using kl unfolding b by (cases fb; cases lb) simp_all
  next
    case 3
    then show ?thesis using nolb n4 kl unfolding b by (cases fb; cases lb) simp_all
  next
    case 4
    then show ?thesis using kl unfolding b by (cases fb; cases lb) simp_all
  qed
qed

lemma membus_store_apply:
  assumes n: "n = unat (wr_data_bytes req)" and len: "length data = n" "n \<le> 4096"
    and be: "byte_en req \<Longrightarrow> n mod 4 = 0 \<and> n \<noteq> 0"
  shows "membus_store m va req data x =
    (if byte_enabled req (unat (x - va)) then data ! unat (x - va) else m x)"
proof -
  define i where "i = unat (x - va)"
  define fb where "fb \<longleftrightarrow> byte_en req \<and> first_be req \<noteq> 0xf"
  define lb where "lb \<longleftrightarrow> byte_en req \<and> n > 4 \<and> last_be req \<noteq> 0xf"
  define k where "k = (if fb then 4 else 0 :: nat)"
  define l where "l = n - k - (if lb then 4 else 0)"
  have four: "n mod 4 = 0 \<Longrightarrow> 4 < n \<Longrightarrow> 8 \<le> n" "n mod 4 = 0 \<Longrightarrow> n \<noteq> 0 \<Longrightarrow> 4 \<le> n" by presburger+
  have ge: "fb \<Longrightarrow> n \<ge> 4" "lb \<Longrightarrow> n \<ge> 8"
    using be four by (auto simp: fb_def lb_def)
  have dst: "(if fb then va + 4 else va) = va + of_nat k"
    and src: "(if fb then drop 4 data else data) = drop k data" by (simp_all add: k_def)
  have kl: "k + l + (if lb then 4 else 0) = n" using ge by (auto simp: k_def l_def)
  have 1: "(if fb then be_memcpy m va (take 4 data) (first_be req) else m) x =
      (if fb \<and> i < 4 \<and> bit (first_be req) i then data ! i else m x)"
    using be_memcpy_apply [of "take 4 data" m va "first_be req" x] ge len by (auto simp: i_def)
  have 2: "(if l \<noteq> 0 then mem_write m' (va + of_nat k) (take l (drop k data)) else m') x =
      (if k \<le> i \<and> i < k + l then data ! i else m' x)" for m'
    using mem_write_apply [of "take l (drop k data)" m' "va + of_nat k" x] kl len
      unat_sub_offset [of k l x va] by (auto simp: i_def)
  have 3: "(if lb then be_memcpy m' (va + of_nat k + of_nat l) (take 4 (drop l (drop k data))) (last_be req) else m') x =
      (if lb \<and> k + l \<le> i \<and> i < n \<and> bit (last_be req) (i + 4 - n) then data ! i else m' x)" for m'
    using be_memcpy_apply [of "take 4 (drop l (drop k data))" m' "va + of_nat (k + l)" "last_be req" x] kl len
      unat_sub_offset [of "k + l" 4 x va] by (auto simp: i_def add.assoc)
  have parts: "(lb \<and> k + l \<le> i \<and> i < n \<and> bit (last_be req) (i + 4 - n) \<or>
      k \<le> i \<and> i < k + l \<or> fb \<and> i < 4 \<and> bit (first_be req) i) \<longleftrightarrow> byte_enabled req i"
    using byte_enabled_parts [OF n fb_def lb_def _ be, of l i] kl unfolding k_def by blast
  have "membus_store m va req data x =
      (if lb \<and> k + l \<le> i \<and> i < n \<and> bit (last_be req) (i + 4 - n) then data ! i
       else if k \<le> i \<and> i < k + l then data ! i
       else if fb \<and> i < 4 \<and> bit (first_be req) i then data ! i else m x)"
    unfolding membus_store_def Let_def n [symmetric] fb_def [symmetric] lb_def [symmetric]
      dst src k_def [symmetric] l_def [symmetric] 3 2 1 ..
  also have "\<dots> = (if byte_enabled req i then data ! i else m x)"
    unfolding if_or3 parts ..
  finally show ?thesis by (simp add: i_def)
qed

section \<open>Requests\<close>

definition membus_space :: "addr_type \<Rightarrow> int \<Rightarrow> nat option" where
  "membus_space at afu_idx = (if at = HOST_MEM_AT_UNTRANS then Some (nat afu_idx) else None)"

text \<open>A request is served when the page tables are consistent and the lock is free.\<close>

definition membus_ready :: "'al membus \<Rightarrow> bool" where
  "membus_ready s \<longleftrightarrow> hm_ok (mb_hm s) \<and> \<not> ase_pt_lock (mb_hm s)"

definition membus_va :: "'al membus \<Rightarrow> addr_type \<Rightarrow> int \<Rightarrow> u64 \<Rightarrow> u64" where
  "membus_va s at afu_idx x = hm_va (hm_entry (mb_hm s) (membus_space at afu_idx) x) x"

lemma membus_translate_eq:
  assumes "membus_ready s" and "at = HOST_MEM_AT_UNTRANS \<Longrightarrow> afu_idx_ok afu_idx"
  shows "\<exists>hm. membus_translate (mb_hm s) at afu_idx x = Inr (membus_va s at afu_idx x, hm) \<and>
    hm_ok hm \<and> hm_entry hm = hm_entry (mb_hm s)"
  using assms iova_to_va_eq [of "mb_hm s" afu_idx x True] pa_to_va_eq [of "mb_hm s" x True]
  by (auto simp: membus_translate_def membus_ready_def membus_va_def membus_space_def)

lemma membus_cycle_Inr:
  "membus_cycle s = Inr s' \<Longrightarrow> s' = s\<lparr>mb_itag := snd (ase_pcie_ats_itag_cycle (mb_itag s))\<rparr>"
  by (auto simp: membus_cycle_def split: prod.splits if_splits)

lemma membus_ready_upd:
  "membus_ready s \<Longrightarrow> hm_ok hm \<Longrightarrow> membus_ready (s\<lparr>mb_hm := ase_host_memory_unlock hm\<rparr>)"
  by (simp add: membus_ready_def)

text \<open>What a write does to the state, and the status it reports.\<close>

definition write_status :: "u64 \<Rightarrow> (u64 \<Rightarrow> bool) \<Rightarrow> u64 \<Rightarrow> write_req \<Rightarrow> mem_status" where
  "write_status page_size mapped va req =
     (if byte_en req \<and> (wr_data_bytes req AND 3 \<noteq> 0 \<or> wr_data_bytes req = 0) then HOST_MEM_STATUS_ILLEGAL
      else membus_op_status page_size mapped va (wr_addr req) (ucast (wr_data_bytes req)))"

lemma and_3_mod: "(w :: u32) AND 3 \<noteq> 0 \<longleftrightarrow> unat w mod 4 \<noteq> 0"
proof -
  have "w AND 3 = take_bit 2 w" by (simp add: take_bit_eq_mask mask_eq_exp_minus_1)
  then have "unat (w AND 3) = take_bit 2 (unat w)" by (simp only: unsigned_take_bit_eq)
  then have "unat (w AND 3) = unat w mod 4" by (simp add: take_bit_eq_mod)
  then show ?thesis by (metis unat_eq_zero)
qed

lemma membus_write_Inr:
  assumes ready: "membus_ready s" and afu: "wr_addr_type req = HOST_MEM_AT_UNTRANS \<Longrightarrow> afu_idx_ok (wr_afu_idx req)"
    and wr: "membus_wr_watcher page_size mapped s req data = Inr s'"
    and len: "length data = unat (wr_data_bytes req)"
  defines "va \<equiv> membus_va s (wr_addr_type req) (wr_afu_idx req) (wr_addr req)"
  defines "st \<equiv> write_status page_size mapped va req"
  shows "membus_ready s'" and "hm_entry (mb_hm s') = hm_entry (mb_hm s)" and "va \<noteq> 0"
    and "app2sim_membus_wr_rsp s' = app2sim_membus_wr_rsp s @
      [\<lparr>wrsp_pa = wr_addr req, wrsp_va = va, wrsp_afu_idx = wr_afu_idx req, wrsp_status = st\<rparr>]"
    and "mb_mem s' x = (if st = HOST_MEM_STATUS_VALID \<and> byte_enabled req (unat (x - va))
       then data ! unat (x - va) else mb_mem s x)"
    and "itag_busy_vec (mb_itag s') = itag_busy_vec (mb_itag s)"
proof -
  obtain hm where hm: "membus_translate (mb_hm s) (wr_addr_type req) (wr_afu_idx req) (wr_addr req) =
      Inr (va, hm)" "hm_ok hm" "hm_entry hm = hm_entry (mb_hm s)"
    using membus_translate_eq [OF ready afu] by (auto simp: va_def)
  from wr have n: "unat (wr_data_bytes req) \<le> 4096"
    by (auto simp: membus_wr_watcher_def HOST_MEM_MAX_DATA_SIZE_def split: if_splits)
  show va0: "va \<noteq> 0" using wr hm(1) by (auto simp: membus_wr_watcher_def Let_def split: if_splits)
  define s1 where "s1 = s\<lparr>mb_mem := if st = HOST_MEM_STATUS_VALID
        then membus_store (mb_mem s) va req data else mb_mem s,
      mb_hm := ase_host_memory_unlock hm, app2sim_membus_wr_rsp := app2sim_membus_wr_rsp s @
      [\<lparr>wrsp_pa = wr_addr req, wrsp_va = va, wrsp_afu_idx = wr_afu_idx req, wrsp_status = st\<rparr>]\<rparr>"
  have "membus_cycle s1 = Inr s'"
    using wr hm(1) n va0 unfolding membus_wr_watcher_def s1_def st_def write_status_def
    by (simp add: Let_def HOST_MEM_MAX_DATA_SIZE_def)
  then have s': "s' = s1\<lparr>mb_itag := snd (ase_pcie_ats_itag_cycle (mb_itag s1))\<rparr>"
    by (rule membus_cycle_Inr)
  then show "membus_ready s'" "hm_entry (mb_hm s') = hm_entry (mb_hm s)"
    "itag_busy_vec (mb_itag s') = itag_busy_vec (mb_itag s)"
    "app2sim_membus_wr_rsp s' = app2sim_membus_wr_rsp s @
      [\<lparr>wrsp_pa = wr_addr req, wrsp_va = va, wrsp_afu_idx = wr_afu_idx req, wrsp_status = st\<rparr>]"
    using hm(2,3) by (simp_all add: s1_def membus_ready_def ase_pcie_ats_itag_cycle_def Let_def)
  have "byte_en req \<Longrightarrow> st = HOST_MEM_STATUS_VALID \<Longrightarrow>
      unat (wr_data_bytes req) mod 4 = 0 \<and> unat (wr_data_bytes req) \<noteq> 0"
    using and_3_mod [of "wr_data_bytes req"]
    by (auto simp: st_def write_status_def unat_eq_zero split: if_splits)
  then show "mb_mem s' x = (if st = HOST_MEM_STATUS_VALID \<and> byte_enabled req (unat (x - va))
       then data ! unat (x - va) else mb_mem s x)"
    using membus_store_apply [OF refl len n, of "mb_mem s" va x] s' by (auto simp: s1_def)
qed

text \<open>A plain read returns the bytes at the translated address.\<close>

lemma membus_read_Inr:
  assumes ready: "membus_ready s" and afu: "rd_addr_type req = HOST_MEM_AT_UNTRANS \<Longrightarrow> afu_idx_ok (rd_afu_idx req)"
    and at: "rd_addr_type req \<noteq> HOST_MEM_AT_REQ_TRANS" and plain: "rd_req req \<noteq> HOST_MEM_REQ_ATOMIC"
    and rd: "membus_rd_watcher mm smaps s req = Inr s'"
  defines "va \<equiv> membus_va s (rd_addr_type req) (rd_afu_idx req) (rd_addr req)"
  shows "membus_ready s'" and "mb_mem s' = mb_mem s" and "hm_entry (mb_hm s') = hm_entry (mb_hm s)"
    and "app2sim_membus_rd_rsp s' = app2sim_membus_rd_rsp s @
      RdRsp \<lparr>rsp_pa = rd_addr req, rsp_va = va, rsp_data_bytes = rd_data_bytes req,
        rsp_tag = rd_tag req, rsp_afu_idx = rd_afu_idx req, rsp_status = HOST_MEM_STATUS_VALID\<rparr> #
      (if rd_data_bytes req = 0 then [] else [RdPayload (mem_read (mb_mem s) va (unat (rd_data_bytes req)))])"
proof -
  obtain hm where hm: "membus_translate (mb_hm s) (rd_addr_type req) (rd_afu_idx req) (rd_addr req) =
      Inr (va, hm)" "hm_ok hm" "hm_entry hm = hm_entry (mb_hm s)"
    using membus_translate_eq [OF ready afu] by (auto simp: va_def)
  from rd obtain s1 where s1: "membus_read s req = Inr s1" "membus_cycle s1 = Inr s'"
    using at by (auto simp: membus_rd_watcher_def)
  have s': "s' = s1\<lparr>mb_itag := snd (ase_pcie_ats_itag_cycle (mb_itag s1))\<rparr>"
    by (rule membus_cycle_Inr [OF s1(2)])
  have va0: "va \<noteq> 0" using s1(1) hm(1) by (auto simp: membus_read_def)
  have "s1 = s\<lparr>mb_hm := ase_host_memory_unlock hm, app2sim_membus_rd_rsp := app2sim_membus_rd_rsp s @
      RdRsp \<lparr>rsp_pa = rd_addr req, rsp_va = va, rsp_data_bytes = rd_data_bytes req,
        rsp_tag = rd_tag req, rsp_afu_idx = rd_afu_idx req, rsp_status = HOST_MEM_STATUS_VALID\<rparr> #
      (if rd_data_bytes req = 0 then [] else [RdPayload (mem_read (mb_mem s) va (unat (rd_data_bytes req)))])\<rparr>"
    using s1(1) hm(1) va0 plain by (auto simp: membus_read_def Let_def unat_eq_zero split: if_splits)
  then show "membus_ready s'" "mb_mem s' = mb_mem s" "hm_entry (mb_hm s') = hm_entry (mb_hm s)"
    "app2sim_membus_rd_rsp s' = app2sim_membus_rd_rsp s @
      RdRsp \<lparr>rsp_pa = rd_addr req, rsp_va = va, rsp_data_bytes = rd_data_bytes req,
        rsp_tag = rd_tag req, rsp_afu_idx = rd_afu_idx req, rsp_status = HOST_MEM_STATUS_VALID\<rparr> #
      (if rd_data_bytes req = 0 then [] else [RdPayload (mem_read (mb_mem s) va (unat (rd_data_bytes req)))])"
    using s' hm(2,3) by (simp_all add: membus_ready_def)
qed

text \<open>Requests to translated addresses are served unless an invalidation has timed out.\<close>

definition itag_alive :: "'al membus \<Rightarrow> bool" where
  "itag_alive s \<longleftrightarrow> fst (ase_pcie_ats_itag_cycle (mb_itag s)) \<noteq> -1"

lemma membus_cycle_total: "itag_alive s \<Longrightarrow> mb_itag s1 = mb_itag s \<Longrightarrow> \<exists>s'. membus_cycle s1 = Inr s'"
  by (simp add: membus_cycle_def itag_alive_def case_prod_beta)

lemma membus_write_total:
  assumes ready: "membus_ready s" and afu: "wr_addr_type req = HOST_MEM_AT_UNTRANS \<Longrightarrow> afu_idx_ok (wr_afu_idx req)"
    and "membus_va s (wr_addr_type req) (wr_afu_idx req) (wr_addr req) \<noteq> 0"
    and "unat (wr_data_bytes req) \<le> 4096" and "itag_alive s"
  shows "\<exists>s'. membus_wr_watcher page_size mapped s req data = Inr s'"
proof -
  obtain hm where "membus_translate (mb_hm s) (wr_addr_type req) (wr_afu_idx req) (wr_addr req) =
      Inr (membus_va s (wr_addr_type req) (wr_afu_idx req) (wr_addr req), hm)"
    using membus_translate_eq [OF ready afu] by blast
  then show ?thesis
    using assms(3,4) by (auto simp: membus_wr_watcher_def Let_def HOST_MEM_MAX_DATA_SIZE_def
        intro!: membus_cycle_total [OF assms(5)])
qed

lemma membus_read_total:
  assumes ready: "membus_ready s" and afu: "rd_addr_type req = HOST_MEM_AT_UNTRANS \<Longrightarrow> afu_idx_ok (rd_afu_idx req)"
    and "rd_addr_type req \<noteq> HOST_MEM_AT_REQ_TRANS" and "rd_req req \<noteq> HOST_MEM_REQ_ATOMIC"
    and "membus_va s (rd_addr_type req) (rd_afu_idx req) (rd_addr req) \<noteq> 0" and "itag_alive s"
  shows "\<exists>s'. membus_rd_watcher mm smaps s req = Inr s'"
proof -
  obtain hm where "membus_translate (mb_hm s) (rd_addr_type req) (rd_afu_idx req) (rd_addr req) =
      Inr (membus_va s (rd_addr_type req) (rd_afu_idx req) (rd_addr req), hm)"
    using membus_translate_eq [OF ready afu] by blast
  then have "\<exists>s1. membus_read s req = Inr s1 \<and> mb_itag s1 = mb_itag s"
    using assms(4,5) by (simp add: membus_read_def Let_def)
  then show ?thesis using membus_cycle_total [OF assms(6)] assms(3) by (auto simp: membus_rd_watcher_def)
qed

section \<open>Atomic updates\<close>

lemma le_word_take_bit: "take_bit (8 * length bs) (le_word bs :: u64) = le_word bs"
proof (induction bs)
  case (Cons b bs)
  have "take_bit (8 + 8 * length bs) (ucast b OR push_bit 8 (take_bit (8 * length bs) (le_word bs)) :: u64) =
      ucast b OR push_bit 8 (take_bit (8 * length bs) (le_word bs))"
    by (rule bit_word_eqI) (auto simp: bit_simps dest: bit_imp_le_length)
  then show ?case by (simp add: Cons)
qed simp

lemma word_stored:
  assumes "n \<le> 8"
  shows "le_word (mem_read (mem_write m va (le_bytes n w)) va n) = take_bit (8 * n) (w :: u64)"
    and "n \<le> unat (x - va) \<Longrightarrow> mem_write m va (le_bytes n w) x = m x"
  using mem_read_write [of "le_bytes n w" m va] mem_write_apply [of "le_bytes n w" m va x] assms
  by (simp_all add: le_word_le_bytes)

section \<open>Invalidation ranges\<close>

lemma ilog2_loop_spec:
  "\<exists>j < 64. ilog2_loop b shift = shift + of_nat j \<and> unat b < 2 ^ Suc j \<and> (b \<noteq> 0 \<longrightarrow> 2 ^ j \<le> unat b)"
proof (induction b shift rule: ilog2_loop.induct)
  case (1 b shift)
  show ?case
  proof (cases "drop_bit 1 b = 0")
    case True
    then have "unat b div 2 = 0" using unat_drop_bit_1 [of b] by simp
    then have "unat b < 2" by simp
    moreover have "b \<noteq> 0 \<longrightarrow> 1 \<le> unat b" by (metis Suc_leI neq0_conv unat_eq_zero One_nat_def)
    ultimately show ?thesis using True by (intro exI [of _ 0]) simp
  next
    case False
    then obtain j where j: "ilog2_loop (drop_bit 1 b) (shift + 1) = shift + 1 + of_nat j"
      "unat (drop_bit 1 b) < 2 ^ Suc j" "2 ^ j \<le> unat (drop_bit 1 b)"
      using 1 [OF refl False] by blast
    then have b: "unat b < 2 ^ Suc (Suc j)" "2 ^ Suc j \<le> unat b" unfolding unat_drop_bit_1 by auto
    have "(2 :: nat) ^ Suc j < 2 ^ 64" using b(2) unat_bound [of b] by (simp del: power_Suc)
    then have "Suc j < 64" by (rule power_less_imp_less_exp [rotated]) simp
    then show ?thesis using b j(1) False by (intro exI [of _ "Suc j"]) (simp add: add.assoc del: power_Suc)
  qed
qed

lemma ilog2_ceil_spec:
  assumes "n \<noteq> 0"
  shows "\<exists>k \<le> 64. ilog2_ceil n = of_nat k \<and> unat n \<le> 2 ^ k \<and> (k \<noteq> 0 \<longrightarrow> 2 ^ (k - 1) < unat n)"
proof (cases "n \<le> 1")
  case True
  then have "unat n \<le> 1" by (simp add: word_le_nat_alt)
  then show ?thesis using True by (intro exI [of _ 0]) (simp add: ilog2_ceil_def)
next
  case False
  then have n: "unat (n - 1) = unat n - 1" "1 < unat n" "n - 1 \<noteq> 0"
    using assms unat_minus_one [of n] by (auto simp: word_le_nat_alt)
  obtain j where j: "j < 64" "ilog2_loop (n - 1) 1 = 1 + of_nat j" "unat (n - 1) < 2 ^ Suc j"
    "2 ^ j \<le> unat (n - 1)" using ilog2_loop_spec [of "n - 1" 1] n(3) by blast
  then show ?thesis using False n by (intro exI [of _ "Suc j"]) (auto simp: ilog2_ceil_def)
qed

lemma unat_and_not_mask: "unat ((w :: u64) AND NOT (mask n)) = unat w - unat w mod 2 ^ n"
proof -
  have "w = (w AND NOT (mask n)) + (w AND mask n)"
    by (subst disjunctive_add_eq_or) (auto intro!: bit_word_eqI simp: bit_simps)
  then have "w AND NOT (mask n) = w - (w AND mask n)" by (metis add_diff_cancel_right')
  moreover have "w AND mask n \<le> w" by (rule word_and_le2)
  ultimately have "unat (w AND NOT (mask n)) = unat w - unat (w AND mask n)" by (simp add: unat_sub)
  moreover have "unat (take_bit n w) = take_bit n (unat w)" by (simp only: unsigned_take_bit_eq)
  ultimately show ?thesis by (simp add: take_bit_eq_mask [symmetric] take_bit_eq_mod)
qed

text \<open>Rounding a range outwards to multiples of \<open>B\<close>.\<close>

lemma round_range:
  fixes V L P B :: nat
  assumes P: "P = (L + 4095) div 4096" and B: "4096 * P \<le> B" "0 < B"
  defines "S \<equiv> V - V mod B" and "X \<equiv> V + P * 4096 + (B - 1)"
  defines "E \<equiv> X - X mod B"
  shows "S \<le> V" and "V + L \<le> E" and "B dvd S" and "B dvd E" and "E \<le> S + 2 * B"
proof -
  show "S \<le> V" by (simp add: S_def)
  show dS: "B dvd S" by (simp add: S_def minus_mod_eq_mult_div)
  show dE: "B dvd E" by (simp add: E_def minus_mod_eq_mult_div)
  have m: "X mod B < B" "V mod B < B" using B by simp_all
  have "4096 * P + (L + 4095) mod 4096 = L + 4095" unfolding P by (rule mult_div_mod_eq)
  moreover have "(L + 4095) mod 4096 < 4096" by simp
  ultimately have "L \<le> P * 4096" by linarith
  moreover have "X < E + B" using m(1) by (simp add: E_def)
  ultimately show "V + L \<le> E" using B(2) unfolding X_def by linarith
  have "E \<le> X" "V < S + B" using m(2) by (auto simp: E_def S_def)
  moreover have "X < V + 2 * B" using B unfolding X_def by linarith
  ultimately have "E < S + 3 * B" by linarith
  moreover obtain a c where "E = B * a" "S = B * c" using dS dE by (auto simp: dvd_def)
  ultimately have "B * a < B * (c + 3)" by (simp add: algebra_simps)
  then have "a \<le> c + 2" using B(2) by simp
  then have "B * a \<le> B * (c + 2)" by (rule mult_le_mono2)
  then show "E \<le> S + 2 * B" using \<open>E = B * a\<close> \<open>S = B * c\<close> by (simp add: algebra_simps)
qed

lemma inval_range:
  assumes "len \<noteq> 0" and sum: "unat va + unat len < 2 ^ 61"
  shows "\<exists>K. 12 \<le> K \<and> K \<le> 62 \<and> inval_bytes len = 2 ^ K \<and>
    unat (inval_start va len) = unat va - unat va mod 2 ^ K \<and>
    unat (inval_end va len) = (unat va + (unat len + 4095) div 4096 * 4096 + (2 ^ K - 1)) -
      (unat va + (unat len + 4095) div 4096 * 4096 + (2 ^ K - 1)) mod 2 ^ K \<and>
    4096 * ((unat len + 4095) div 4096) \<le> 2 ^ K"
proof -
  define pages where "pages = (len + 4095) div 4096"
  define P where "P = (unat len + 4095) div 4096"
  have l: "unat (len + 4095) = unat len + 4095" using sum by (subst unat_plus_if') auto
  have P: "unat pages = P" by (simp add: pages_def P_def unat_div l)
  have pos: "0 < P" "P < 2 ^ 50" using assms(1) sum unat_eq_zero [of len] by (auto simp: P_def div_greater_zero_iff less_mult_imp_div_less)
  obtain k where k: "k \<le> 64" "ilog2_ceil pages = of_nat k" "P \<le> 2 ^ k" "k \<noteq> 0 \<longrightarrow> 2 ^ (k - 1) < P"
    using ilog2_ceil_spec [of pages, unfolded P] pos(1) P by (metis less_irrefl unat_0)
  have "k \<le> 50"
  proof (rule ccontr)
    assume "\<not> k \<le> 50"
    then have "(2 :: nat) ^ 50 \<le> 2 ^ (k - 1)" by (intro power_increasing) auto
    then show False using k(4) pos(2) \<open>\<not> k \<le> 50\<close> by simp
  qed
  then have uk: "unat (ilog2_ceil pages) = k" using k(2) by (simp add: unat_of_nat)
  define K where "K = 12 + k"
  have K: "12 \<le> K" "K \<le> 62" using \<open>k \<le> 50\<close> by (simp_all add: K_def)
  have bytes: "inval_bytes len = 2 ^ K" "inval_bytes len - 1 = mask K"
    by (simp_all add: inval_bytes_def pages_def [symmetric] uk K_def mask_eq_exp_minus_1)
  have big: "(2 :: nat) ^ K \<le> 2 ^ 62" using K(2) by (intro power_increasing) auto
  have "unat (mask K :: u64) = take_bit K (unat (- 1 :: u64))"
    by (simp only: unsigned_take_bit_eq [symmetric] take_bit_minus_one_eq_mask)
  also have "\<dots> = mask K" using K(2) by (simp add: unsigned_minus_1_eq_mask min_absorb1)
  finally have mk: "unat (mask K :: u64) = 2 ^ K - 1" by (simp add: mask_eq_exp_minus_1)
  have pg: "unat (pages * 4096) = P * 4096" using P pos(2) by (subst unat_mult_lem [THEN iffD1]) auto
  have x1: "unat (va + pages * 4096) = unat va + P * 4096"
    using sum pos(2) pg by (subst unat_plus_if') (auto simp: P_def)
  have x: "unat (va + pages * 4096 + mask K) = unat va + P * 4096 + (2 ^ K - 1)"
    using x1 mk big sum by (subst unat_plus_if') (auto simp: P_def)
  have "4096 * P \<le> 2 ^ K" using k(3) by (simp add: K_def power_add)
  then show ?thesis
    using K bytes x unfolding P_def [symmetric] inval_start_def inval_end_def pages_def [symmetric]
    by (intro exI [of _ K]) (simp add: unat_and_not_mask)
qed

section \<open>Properties\<close>

text \<open>A loop that ends after two chunks needs no more than two iterations.\<close>

lemma ats_inval_done: "\<not> start < limit \<Longrightarrow> ats_inval_loop n s start limit bytes = Inr s"
  by (cases n) simp_all

lemma ats_inval_two:
  assumes "\<not> start + bytes + bytes < limit"
  shows "ats_inval_loop (Suc (Suc n)) s start limit bytes = ats_inval_loop 2 s start limit bytes"
proof -
  have *: "ats_inval_loop n s' (start + bytes + bytes) limit bytes =
      ats_inval_loop 0 s' (start + bytes + bytes) limit bytes" for s'
    using ats_inval_done [OF assms] by metis
  show ?thesis unfolding numeral_2_eq_2 ats_inval_loop.simps(2) * ..
qed

lemma unat_exp: "K < 64 \<Longrightarrow> unat (2 ^ K :: u64) = 2 ^ K"
  using unat_of_nat [where 'a = 64 and x = "2 ^ K"] power_strict_increasing [of K 64 "2 :: nat"] by simp

text \<open>
  C23: a DMA write stores exactly the enabled bytes. A write to a translated address is
  served when no invalidation has timed out. The byte at distance \<open>i\<close> from the translated
  address is replaced by byte \<open>i\<close> of the payload if \<open>i\<close> is within the payload and not masked
  by the byte enables of the first and last 32 bit word, and no other byte of the memory
  changes; if the status is not valid the memory is unchanged. The translations are kept,
  the lock is free afterwards, and one response with the status is sent.
\<close>

theorem dma_write_bytes:
  assumes "membus_ready s" and "wr_addr_type req = HOST_MEM_AT_UNTRANS \<longrightarrow> afu_idx_ok (wr_afu_idx req)"
    and "length data = unat (wr_data_bytes req)" and "unat (wr_data_bytes req) \<le> 4096"
    and "va = membus_va s (wr_addr_type req) (wr_afu_idx req) (wr_addr req)" and "va \<noteq> 0"
    and "itag_alive s"
  shows "\<exists>s' rsp. membus_wr_watcher page_size mapped s req data = Inr s' \<and>
    membus_ready s' \<and> hm_entry (mb_hm s') = hm_entry (mb_hm s) \<and>
    app2sim_membus_wr_rsp s' = app2sim_membus_wr_rsp s @ [rsp] \<and>
    wrsp_status rsp = write_status page_size mapped va req \<and>
    (\<forall>x. mb_mem s' x = (if wrsp_status rsp = HOST_MEM_STATUS_VALID \<and> byte_enabled req (unat (x - va))
        then data ! unat (x - va) else mb_mem s x))"
proof -
  have afu: "wr_addr_type req = HOST_MEM_AT_UNTRANS \<Longrightarrow> afu_idx_ok (wr_afu_idx req)" using assms(2) by blast
  obtain s' where s': "membus_wr_watcher page_size mapped s req data = Inr s'"
    using membus_write_total [OF assms(1) afu _ assms(4,7)] assms(5,6) by blast
  note w = membus_write_Inr [OF assms(1) afu s' assms(3), folded assms(5)]
  then show ?thesis using s' by (intro exI [of _ s']) simp
qed

text \<open>An application that has pinned a page of 2 MB at the IOVA 0x40000000.\<close>

lemma demo_pinned:
  "\<exists>hm. ase_host_memory_pin demo_mmap demo_hm 0 0x7f0000200000 0x40000000 (2 * MB) = Inr (0, hm) \<and>
     hm_ok hm \<and> \<not> ase_pt_lock hm \<and>
     hm_va (hm_entry hm (Some 0) 0x40012344) 0x40012344 = 0x7f0000212344"
proof -
  obtain hm where hm: "ase_host_memory_pin demo_mmap demo_hm 0 0x7f0000200000 0x40000000 (2 * MB) = Inr (0, hm)"
    using demo_host_pin by blast
  have k: "nat (ase_pt_length_to_level (2 * MB)) = 1" "ase_pt_level_to_bit_idx 1 = 21"
    by (simp_all add: ase_pt_length_to_level_def MB_def KB_def ase_pt_level_to_bit_idx_def)
  note d = host_pin_done [OF demo_hm_ok(1) demo_mmap_fresh hm, unfolded k(1)]
  have "same_page 3 1 0x40000000 0x40012344" by (rule same_page_drop_bit) (simp add: k [simplified])
  then obtain e' where e': "pinned_entry 1 (hm_entry demo_hm (Some (nat 0)) 0x40000000) 0x7f0000200000 = Inr e'"
    "hm_entry hm (Some 0) 0x40012344 = Some (1, e')" using d(5) by auto
  have "hm_va (Some (1, e')) 0x40012344 = 0x7f0000200000 + take_bit 21 0x40012344"
    using hm_va_pinned [OF e'(1)] k(2) by simp
  then show ?thesis using hm d(1,2) e'(2) by auto
qed

definition demo_membus :: "unit hm_state \<Rightarrow> unit membus" where
  "demo_membus hm = \<lparr>mb_hm = hm, mb_mem = (\<lambda>_. 0), mb_itag = \<lparr>itag_busy_vec = 0, itag_busy_state =
     (\<lambda>_. \<lparr>set_cycle = 0, cc_expected = 0, cc_received = 0\<rparr>), err_check_cycle = 0\<rparr>,
     pcie_atc_active = False, app2sim_membus_rd_rsp = [], app2sim_membus_wr_rsp = [],
     app2sim_pcie_msg = []\<rparr>"

definition demo_write :: write_req where
  "demo_write = \<lparr>wr_addr = 0x40012344, wr_addr_type = HOST_MEM_AT_UNTRANS, byte_en = False,
     first_be = 0, last_be = 0, wr_data_bytes = 4, wr_afu_idx = 0\<rparr>"

definition demo_read :: read_req where
  "demo_read = \<lparr>rd_addr = 0x40012344, rd_req = HOST_MEM_REQ_READ, rd_addr_type = HOST_MEM_AT_UNTRANS,
     rd_data_bytes = 4, rd_tag = 7, rd_afu_idx = 0, atomic_wr_data0 = 0, atomic_wr_data1 = 0,
     atomic_func = 0\<rparr>"

lemma idle_alive: "itag_busy_vec (mb_itag s) = 0 \<Longrightarrow> itag_alive s"
  by (simp add: itag_alive_def ase_pcie_ats_itag_cycle_def itag_check_loop_iff)

lemma demo_membus_alive: "itag_alive (demo_membus hm)"
  by (rule idle_alive) (simp add: demo_membus_def)

lemma demo_write_status: "write_status 4096 (\<lambda>_. True) 0x7f0000212344 demo_write = HOST_MEM_STATUS_VALID"
  by (simp add: write_status_def demo_write_def membus_op_status_def)

lemma demo_write_afu: "wr_addr_type demo_write = HOST_MEM_AT_UNTRANS \<longrightarrow> afu_idx_ok (wr_afu_idx demo_write)"
  by (simp add: demo_write_def afu_idx_ok_def ASE_MAX_TOKENS_def)

theorem dma_write_bytes_witness:
  "\<exists>hm s'. membus_wr_watcher 4096 (\<lambda>_. True) (demo_membus hm) demo_write [1, 2, 3, 4] = Inr s' \<and>
     mb_mem s' 0x7f0000212346 = 3 \<and> mb_mem s' 0x7f0000212348 = 0"
proof -
  obtain hm :: "unit hm_state" where hm: "hm_ok hm" "\<not> ase_pt_lock hm"
    "hm_va (hm_entry hm (Some 0) 0x40012344) 0x40012344 = 0x7f0000212344" using demo_pinned by blast
  have r: "membus_ready (demo_membus hm)" using hm by (simp add: membus_ready_def demo_membus_def)
  have va: "membus_va (demo_membus hm) (wr_addr_type demo_write) (wr_afu_idx demo_write) (wr_addr demo_write)
      = 0x7f0000212344" using hm(3)
    by (simp add: membus_va_def demo_membus_def demo_write_def membus_space_def)
  have len: "length [1, 2, 3, 4 :: u8] = unat (wr_data_bytes demo_write)"
    and n: "unat (wr_data_bytes demo_write) \<le> 4096" by (simp_all add: demo_write_def)
  have nz: "(0x7f0000212344 :: u64) \<noteq> 0" by simp
  obtain s' and rsp :: write_rsp where "membus_wr_watcher 4096 (\<lambda>_. True) (demo_membus hm) demo_write [1, 2, 3, 4] = Inr s'"
    "wrsp_status rsp = HOST_MEM_STATUS_VALID"
    "\<forall>x. mb_mem s' x = (if wrsp_status rsp = HOST_MEM_STATUS_VALID \<and>
        byte_enabled demo_write (unat (x - 0x7f0000212344))
        then [1, 2, 3, 4] ! unat (x - 0x7f0000212344) else mb_mem (demo_membus hm) x)"
    using dma_write_bytes [OF r demo_write_afu len n va [symmetric] nz demo_membus_alive,
        of 4096 "\<lambda>_. True", unfolded demo_write_status] by blast
  then show ?thesis
    by (intro exI [of _ hm] exI [of _ s']) (simp add: byte_enabled_def demo_write_def demo_membus_def)
qed

text \<open>
  C24: the hardware reads back what it wrote. After a write without byte enables that was
  reported valid, a read of the same length at the same address, in the same address space,
  that is served returns the payload of the write.
\<close>

theorem dma_write_then_read:
  assumes "membus_ready s" and "wr_addr_type req = HOST_MEM_AT_UNTRANS \<longrightarrow> afu_idx_ok (wr_afu_idx req)"
    and "membus_wr_watcher page_size mapped s req data = Inr s1" and "\<not> byte_en req"
    and "length data = unat (wr_data_bytes req)" and "wr_data_bytes req \<noteq> 0"
    and "wrsp_status (last (app2sim_membus_wr_rsp s1)) = HOST_MEM_STATUS_VALID"
    and "rd_addr rd = wr_addr req" and "rd_addr_type rd = wr_addr_type req"
    and "rd_afu_idx rd = wr_afu_idx req" and "rd_data_bytes rd = wr_data_bytes req"
    and "rd_req rd = HOST_MEM_REQ_READ" and "rd_addr_type rd \<noteq> HOST_MEM_AT_REQ_TRANS"
    and "membus_rd_watcher mm smaps s1 rd = Inr s2"
  shows "last (app2sim_membus_rd_rsp s2) = RdPayload data"
proof -
  define va where "va = membus_va s (wr_addr_type req) (wr_afu_idx req) (wr_addr req)"
  have afu: "wr_addr_type req = HOST_MEM_AT_UNTRANS \<Longrightarrow> afu_idx_ok (wr_afu_idx req)" using assms(2) by blast
  note w = membus_write_Inr [OF assms(1) afu assms(3,5), folded va_def]
  have st: "write_status page_size mapped va req = HOST_MEM_STATUS_VALID" using w(4) assms(7) by simp
  have va': "membus_va s1 (rd_addr_type rd) (rd_afu_idx rd) (rd_addr rd) = va"
    using w(2) assms(8-10) by (simp add: membus_va_def va_def)
  have lt: "length data < 2 ^ 64" using unat_bound [of "wr_data_bytes req"] assms(5) by simp
  have "mem_read (mb_mem s1) va (length data) = data"
  proof (rule nth_equalityI)
    fix i assume i: "i < length (mem_read (mb_mem s1) va (length data))"
    then have "unat (of_nat i :: u64) = i" using lt by (simp add: unat_of_nat)
    then show "mem_read (mb_mem s1) va (length data) ! i = data ! i"
      using i assms(4,5) st w(5) by (simp add: mem_read_nth byte_enabled_def)
  qed simp
  moreover have "rd_req rd \<noteq> HOST_MEM_REQ_ATOMIC" using assms(12) by simp
  moreover have "rd_addr_type rd = HOST_MEM_AT_UNTRANS \<Longrightarrow> afu_idx_ok (rd_afu_idx rd)"
    using afu assms(9,10) by simp
  ultimately show ?thesis
    using membus_read_Inr(4) [OF w(1) _ assms(13) _ assms(14)] assms(5,6,11) va' by simp
qed

theorem dma_write_then_read_witness:
  "\<exists>hm s1 s2. membus_wr_watcher 4096 (\<lambda>_. True) (demo_membus hm) demo_write [1, 2, 3, 4] = Inr s1 \<and>
     membus_rd_watcher demo_mmap None s1 demo_read = Inr s2 \<and>
     last (app2sim_membus_rd_rsp s2) = RdPayload [1, 2, 3, 4]"
proof -
  obtain hm :: "unit hm_state" where hm: "hm_ok hm" "\<not> ase_pt_lock hm"
    "hm_va (hm_entry hm (Some 0) 0x40012344) 0x40012344 = 0x7f0000212344" using demo_pinned by blast
  have r: "membus_ready (demo_membus hm)" using hm by (simp add: membus_ready_def demo_membus_def)
  have va: "membus_va (demo_membus hm) (wr_addr_type demo_write) (wr_afu_idx demo_write) (wr_addr demo_write)
      = 0x7f0000212344" using hm(3)
    by (simp add: membus_va_def demo_membus_def demo_write_def membus_space_def)
  have len: "length [1, 2, 3, 4 :: u8] = unat (wr_data_bytes demo_write)"
    and n: "unat (wr_data_bytes demo_write) \<le> 4096" by (simp_all add: demo_write_def)
  have afu: "wr_addr_type demo_write = HOST_MEM_AT_UNTRANS \<Longrightarrow> afu_idx_ok (wr_afu_idx demo_write)"
    using demo_write_afu by blast
  obtain s1 where s1: "membus_wr_watcher 4096 (\<lambda>_. True) (demo_membus hm) demo_write [1, 2, 3, 4] = Inr s1"
    using membus_write_total [OF r afu _ n demo_membus_alive, of 4096 "\<lambda>_. True" "[1, 2, 3, 4]"] va
    by auto
  note w = membus_write_Inr [OF r afu s1 len, unfolded va]
  have it: "itag_alive s1" by (rule idle_alive) (simp add: w(6), simp add: demo_membus_def)
  have "membus_va s1 (rd_addr_type demo_read) (rd_afu_idx demo_read) (rd_addr demo_read) \<noteq> 0"
    using w(2) va by (simp add: membus_va_def demo_read_def demo_write_def)
  then obtain s2 where s2: "membus_rd_watcher demo_mmap None s1 demo_read = Inr s2"
    using membus_read_total [OF w(1) _ _ _ _ it, of demo_read demo_mmap None]
    by (auto simp: demo_read_def afu_idx_ok_def ASE_MAX_TOKENS_def)
  have "last (app2sim_membus_rd_rsp s2) = RdPayload [1, 2, 3, 4]"
    using dma_write_then_read [OF r demo_write_afu s1 _ len _ _ _ _ _ _ _ _ s2] w(4) demo_write_status
    by (simp add: demo_write_def demo_read_def)
  then show ?thesis using s1 s2 by blast
qed

text \<open>
  C25: atomic updates of 4 and 8 bytes. The fetch-and-add, the swap and the compare-and-swap
  return the old value of the word, leave the sum, the new value, or the new value if the old
  one was the expected one, in the word, and change no other byte; any other function
  aborts.
\<close>

theorem atomic_update:
  assumes "n = 4 \<or> n = 8" and old_def: "old = (le_word (mem_read m va n) :: u64)"
  shows "if func = 1 \<or> func = 2 \<or> func = 3
    then \<exists>m'. membus_atomic_upd m va (of_nat n) func d0 d1 = Inr (old, m') \<and>
      le_word (mem_read m' va n) = take_bit (8 * n)
        (if func = 1 then old + d0 else if func = 2 then d0
         else if old = take_bit (8 * n) d0 then d1 else old :: u64) \<and>
      (\<forall>x. n \<le> unat (x - va) \<longrightarrow> m' x = m x)
    else membus_atomic_upd m va (of_nat n) func d0 d1 = Inl Sigabrt"
proof -
  have upd: "membus_atomic_upd m va (of_nat n) func d0 d1 = atomic_upd m va n func d0 d1"
    using assms(1) by (auto simp: membus_atomic_upd_def)
  have n: "n \<le> 8" using assms(1) by auto
  have old: "take_bit (8 * n) old = old"
    using le_word_take_bit [of "mem_read m va n"] by (simp add: old_def)
  show ?thesis
    using word_stored [OF n] old unfolding upd atomic_upd_def Let_def old_def by auto
qed

theorem atomic_update_witness:
  "\<exists>m'. membus_atomic_upd (\<lambda>_. 0xff) 0x1000 4 1 2 0 = Inr (0xffffffff, m') \<and>
     le_word (mem_read m' 0x1000 4) = (1 :: u64)"
proof -
  have "le_word (mem_read (\<lambda>_. 0xff) 0x1000 4) = (0xffffffff :: u64)" by code_simp
  then show ?thesis
    using atomic_update [of 4 "0xffffffff" "\<lambda>_. 0xff" "0x1000" 1 2 0] by (auto simp: take_bit_eq_mask mask_eq_exp_minus_1)
qed



end
