(* ===== verification/Device_Handles.thy ===== *)
theory Device_Handles
  imports Device_Tokens Membus
begin

text \<open>
  Handles of devices, \<open>src/ase/api/src/open.c\<close>, \<open>close.c\<close> and \<open>mmio.c\<close>: opening a token, closing a
  handle with everything that belongs to it, and the MMIO calls of the API in front of the
  scoreboard. The flags of \<open>ase_fpgaOpen\<close> that the OPAE headers define are an argument. A
  handle keeps the token pointer of the caller.
\<close>

section \<open>Definitions\<close>

subsection \<open>Open and close\<close>

definition ase_fpgaOpen ::
  "(pt_mem \<Rightarrow> u64 option) \<Rightarrow> 'al mem_alloc \<Rightarrow> int \<Rightarrow> u64 \<Rightarrow> u32 \<Rightarrow> ((nat \<Rightarrow> fpga_handle option) \<Rightarrow> nat) \<Rightarrow>
   nat \<Rightarrow> bool \<Rightarrow> u32 \<Rightarrow> 'al dev_state \<Rightarrow> (fpga_result \<times> nat option \<times> 'al dev_state) res" where
  "ase_fpgaOpen mm ma pid vbase known_flags malloc token handle_null flags s =
     (if token = 0 then Inr (FPGA_INVALID_PARAM, None, s)
      else if handle_null then Inr (FPGA_INVALID_PARAM, None, s)
      else if flags AND NOT known_flags \<noteq> 0 then Inr (FPGA_INVALID_PARAM, None, s)
      else rbind (tok_read s token) (\<lambda>t.
        if th_magic (tok_hdr t) \<noteq> ASE_TOKEN_MAGIC then Inr (FPGA_INVALID_PARAM, None, s)
        else rbind (session_init mm ma pid vbase s) (\<lambda>s.
          let h = malloc (handles s);
              hdl = \<lparr>h_lock = False, h_magic = FPGA_HANDLE_MAGIC, h_token = token,
                     wsid_root = the (wsid_tracker_init 16384), h_pasid = 0,
                     h_afu_idx = (if th_subsystem_device_id (tok_hdr t) = ASE_VF0_SUBSYSTEM_DEVICE
                                  then uint (th_function (tok_hdr t)) - uint ASE_VF0_FUNCTION else 0)\<rparr>
          in Inr (FPGA_OK, Some h,
               s\<lparr>handles := (handles s)(h \<mapsto> hdl), mmio_is_mapped := (mmio_is_mapped s)(h := False),
                 ase_open_afus_by_tok_idx := ase_open_afus_by_tok_idx s OR push_bit (nat (tok_idx t)) 1\<rparr>))))"

text \<open>
  \<open>session_deinit\<close> waits for the pending MMIO requests and stops the simulation; the threads,
  queues and files it closes are not part of this model.
\<close>

definition session_deinit :: "'al dev_state \<Rightarrow> 'al dev_state res" where
  "session_deinit s =
     (if session_exist_status s = ESTABLISHED
      then let s = s\<lparr>session_exist_status := NOT_ESTABLISHED\<rparr> in
        if count_mmio_tid_used (dev_mmio s) \<noteq> 0 then Inl Blocked
        else Inr (ase_portctrl ASE_SIMKILL 0 s)
      else Inr s)"

definition ase_fpgaClose :: "nat \<Rightarrow> 'al dev_state \<Rightarrow> (fpga_result \<times> 'al dev_state) res" where
  "ase_fpgaClose h s =
     (if h = 0 then Inr (FPGA_INVALID_PARAM, s)
      else case handles s h of
             None \<Rightarrow> Inl Segv
           | Some hdl \<Rightarrow>
               rbind (tok_read s (h_token hdl)) (\<lambda>t.
                 let s = s\<lparr>ase_open_afus_by_tok_idx :=
                            ase_open_afus_by_tok_idx s AND NOT (push_bit (nat (tok_idx t)) 1)\<rparr> in
                 rbind (if ase_open_afus_by_tok_idx s = 0 then session_deinit s else Inr s) (\<lambda>s.
                 rbind (ase_host_memory_terminate_afu (api_hm s) (h_afu_idx hdl)) (\<lambda>hm.
                 rbind (ws_ret (wsid_tracker_cleanup (wsid_root hdl))) (\<lambda>_.
                   Inr (FPGA_OK, s\<lparr>api_hm := hm, handles := (handles s)(h := None)\<rparr>))))))"

subsection \<open>MMIO calls\<close>

definition MMIO_AFU_LENGTH :: u64 where "MMIO_AFU_LENGTH = 1024 * 1024 * 1024 - 256 * 1024"

text \<open>The common frame of the five calls: the checks, then the access at the offset as an \<open>int\<close>.\<close>

definition mmio_api ::
  "nat \<Rightarrow> u64 \<Rightarrow> u64 \<Rightarrow> 'al dev_state \<Rightarrow> (mmio_state \<Rightarrow> int \<Rightarrow> int \<Rightarrow> ('b \<times> mmio_state) res) \<Rightarrow>
   (fpga_result \<times> 'b option \<times> 'al dev_state) res" where
  "mmio_api h width offset s access =
     (if h = 0 then Inr (FPGA_INVALID_PARAM, None, s)
      else case handles s h of
             None \<Rightarrow> Inl Segv
           | Some hdl \<Rightarrow>
               let s = s\<lparr>mmio_is_mapped := (mmio_is_mapped s)(h := True)\<rparr> in
               if mmio_afu_vbase (dev_mmio s) = 0 then Inr (FPGA_NOT_FOUND, None, s)
               else if offset mod width \<noteq> 0 then Inr (FPGA_INVALID_PARAM, None, s)
               else if offset > MMIO_AFU_LENGTH then Inr (FPGA_INVALID_PARAM, None, s)
               else rbind (access (dev_mmio s) (sint (ucast offset :: u32)) (h_afu_idx hdl)) (\<lambda>(v, m).
                      Inr (FPGA_OK, Some v, s\<lparr>dev_mmio := m\<rparr>)))"

definition ase_fpgaWriteMMIO32 ::
  "nat \<Rightarrow> u64 \<Rightarrow> u32 \<Rightarrow> 'al dev_state \<Rightarrow> (fpga_result \<times> unit option \<times> 'al dev_state) res" where
  "ase_fpgaWriteMMIO32 h offset v s =
     mmio_api h 4 offset s (\<lambda>m off idx. rbind (mmio_write32 m off idx v) (\<lambda>m. Inr ((), m)))"

definition ase_fpgaReadMMIO32 ::
  "(mmio_state \<Rightarrow> mmio_state res) \<Rightarrow> nat \<Rightarrow> u64 \<Rightarrow> 'al dev_state \<Rightarrow> (fpga_result \<times> u32 option \<times> 'al dev_state) res" where
  "ase_fpgaReadMMIO32 env h offset s = mmio_api h 4 offset s (mmio_read32 env)"

definition ase_fpgaWriteMMIO64 ::
  "nat \<Rightarrow> u64 \<Rightarrow> u64 \<Rightarrow> 'al dev_state \<Rightarrow> (fpga_result \<times> unit option \<times> 'al dev_state) res" where
  "ase_fpgaWriteMMIO64 h offset v s =
     mmio_api h 8 offset s (\<lambda>m off idx. rbind (mmio_write64 m off idx v) (\<lambda>m. Inr ((), m)))"

definition ase_fpgaReadMMIO64 ::
  "(mmio_state \<Rightarrow> mmio_state res) \<Rightarrow> nat \<Rightarrow> u64 \<Rightarrow> 'al dev_state \<Rightarrow> (fpga_result \<times> u64 option \<times> 'al dev_state) res" where
  "ase_fpgaReadMMIO64 env h offset s = mmio_api h 8 offset s (mmio_read64 env)"

definition ase_fpgaWriteMMIO512 ::
  "nat \<Rightarrow> u64 \<Rightarrow> u64 list \<Rightarrow> 'al dev_state \<Rightarrow> (fpga_result \<times> unit option \<times> 'al dev_state) res" where
  "ase_fpgaWriteMMIO512 h offset v s =
     mmio_api h 64 offset s (\<lambda>m off idx. rbind (mmio_write512 m off idx v) (\<lambda>m. Inr ((), m)))"

text \<open>Mapping for direct access is not supported; only the flag of the handle changes.\<close>

definition ase_fpgaMapMMIO :: "nat \<Rightarrow> bool \<Rightarrow> 'al dev_state \<Rightarrow> (fpga_result \<times> 'al dev_state) res" where
  "ase_fpgaMapMMIO h mmio_ptr_null s =
     (if h = 0 then Inr (FPGA_INVALID_PARAM, s)
      else case handles s h of
             None \<Rightarrow> Inl Segv
           | Some hdl \<Rightarrow> Inr (if mmio_ptr_null then FPGA_OK else FPGA_NOT_SUPPORTED,
                              s\<lparr>mmio_is_mapped := (mmio_is_mapped s)(h := True)\<rparr>))"

definition ase_fpgaUnmapMMIO :: "nat \<Rightarrow> 'al dev_state \<Rightarrow> (fpga_result \<times> 'al dev_state) res" where
  "ase_fpgaUnmapMMIO h s =
     (if h = 0 then Inr (FPGA_INVALID_PARAM, s)
      else case handles s h of
             None \<Rightarrow> Inl Segv
           | Some hdl \<Rightarrow>
               if h_magic hdl \<noteq> FPGA_HANDLE_MAGIC then Inr (FPGA_INVALID_PARAM, s)
               else if mmio_is_mapped s h then Inr (FPGA_OK, s\<lparr>mmio_is_mapped := (mmio_is_mapped s)(h := False)\<rparr>)
               else Inr (FPGA_INVALID_PARAM, s))"

definition ase_fpgaReset :: "nat \<Rightarrow> 'al dev_state \<Rightarrow> (fpga_result \<times> 'al dev_state) res" where
  "ase_fpgaReset h s =
     (if h = 0 then Inr (FPGA_INVALID_PARAM, s)
      else case handles s h of
             None \<Rightarrow> Inl Segv
           | Some hdl \<Rightarrow>
               if h_magic hdl \<noteq> FPGA_HANDLE_MAGIC then Inr (FPGA_INVALID_PARAM, s)
               else rbind (send_swreset s) (\<lambda>s. Inr (FPGA_OK, s)))"

section \<open>The end of an IOVA space\<close>

lemma terminate_afu_done:
  assumes ok: "hm_ok s" and a: "afu_idx_ok afu_idx"
  shows "\<exists>s'. ase_host_memory_terminate_afu s afu_idx = Inr s' \<and> hm_ok s' \<and> ase_pt_lock s' = ase_pt_lock s \<and>
    (\<forall>sp x. hm_entry s' sp x = (if sp = Some (nat afu_idx) then None else hm_entry s sp x))"
proof -
  let ?sp = "Some (nat afu_idx)"
  have range: "\<not> (afu_idx < 0 \<or> afu_idx \<ge> ASE_MAX_TOKENS)" using a by (auto simp: afu_idx_ok_def)
  show ?thesis
  proof (cases "hm_root s ?sp = 0")
    case True
    then have "ase_host_memory_terminate_afu s afu_idx = Inr s" using range by (simp add: ase_host_memory_terminate_afu_def)
    then show ?thesis using ok True by (auto simp: hm_entry_def)
  next
    case False
    define T where "T = pt_tables 3 (hm_mem s) (hm_root s ?sp)"
    define m where "m = (\<lambda>x. if x \<in> T then None else hm_mem s x)"
    define s' where "s' = s\<lparr>hm_mem := m, ase_iova_pt_root := (ase_iova_pt_root s)(nat afu_idx := 0)\<rparr>"
    have "pt_wf 3 (hm_mem s) (hm_root s ?sp)" using hm_okD(2) [OF ok False] .
    then have del: "ase_pt_delete_tree 3 (hm_mem s) (hm_root s ?sp) = Inr m"
      using delete_tree_spec False by (simp add: m_def T_def)
    then have r: "ase_host_memory_terminate_afu s afu_idx = Inr s'"
      using False range by (simp add: ase_host_memory_terminate_afu_def s'_def)
    have root: "hm_root s' sp = (if sp = ?sp then 0 else hm_root s sp)" for sp
      by (cases sp) (auto simp: s'_def hm_root_def)
    have same: "m x = hm_mem s x" if "sp \<noteq> ?sp" "hm_root s sp \<noteq> 0" "x \<in> pt_tables 3 (hm_mem s) (hm_root s sp)" for sp x
      using hm_okD(3) [OF ok that(1,2) False] that(3) by (auto simp: m_def T_def)
    have frame: "pt_tables 3 m (hm_root s sp) = pt_tables 3 (hm_mem s) (hm_root s sp)" "pt_root_ok m (hm_root s sp)"
      "pt_find 3 m (hm_root s sp) x = pt_find 3 (hm_mem s) (hm_root s sp) x" if "sp \<noteq> ?sp" "hm_root s sp \<noteq> 0" for sp x
      using pt_tables_frame [OF same [OF that]] pt_wf_frame [OF hm_okD(2) [OF ok that(2)] same [OF that]]
        pt_find_frame [OF same [OF that]] by simp_all
    have mem: "hm_mem s' = m" by (simp add: s'_def)
    have "hm_ok s'"
      unfolding hm_ok_def mem root using hm_okD(1,3) [OF ok] frame by (auto simp: pt_mem_ok_def m_def)
    moreover have "hm_entry s' sp x = (if sp = ?sp then None else hm_entry s sp x)" for sp x
      using frame(3) by (auto simp: hm_entry_def mem root)
    ultimately show ?thesis using r by (auto simp: s'_def)
  qed
qed

section \<open>Open and close\<close>

lemma cleanup_returns: "ws_ok t \<Longrightarrow> \<exists>r. wsid_tracker_cleanup t = Some (Inr r)"
  using wsid_cleanup_buckets_ok [of t "[0..<unat (n_hash_buckets t)]" "ws_heap t" "[]"]
  by (simp add: wsid_tracker_cleanup_def lessThan_atLeast0)

text \<open>The last bit of \<open>ase_open_afus_by_tok_idx\<close> ends an established session.\<close>

definition ends_session :: "u64 \<Rightarrow> 'al dev_state \<Rightarrow> bool" where
  "ends_session left s \<longleftrightarrow> left = 0 \<and> session_exist_status s = ESTABLISHED"

lemma close_handle:
  assumes h: "h \<noteq> 0" "handles s h = Some hdl" "tok_mem s (h_token hdl) = Some t"
    and ok: "hm_ok (api_hm s)" "afu_idx_ok (h_afu_idx hdl)" "ws_ok (wsid_root hdl)" "count_mmio_tid_used (dev_mmio s) = 0"
    and left: "left = ase_open_afus_by_tok_idx s AND NOT (push_bit (nat (tok_idx t)) 1)"
  shows "\<exists>s'. ase_fpgaClose h s = Inr (FPGA_OK, s') \<and> handles s' = (handles s)(h := None) \<and>
    ase_open_afus_by_tok_idx s' = left \<and> tok_mem s' = tok_mem s \<and>
    session_exist_status s' = (if ends_session left s then NOT_ESTABLISHED else session_exist_status s) \<and>
    portctrl_sent s' = portctrl_sent s @ (if ends_session left s then [(ASE_SIMKILL, 0)] else []) \<and>
    hm_ok (api_hm s') \<and> ase_pt_lock (api_hm s') = ase_pt_lock (api_hm s) \<and>
    (\<forall>sp x. hm_entry (api_hm s') sp x = (if sp = Some (nat (h_afu_idx hdl)) then None else hm_entry (api_hm s) sp x))"
proof -
  obtain hm where hm: "ase_host_memory_terminate_afu (api_hm s) (h_afu_idx hdl) = Inr hm" "hm_ok hm"
    "ase_pt_lock hm = ase_pt_lock (api_hm s)"
    "\<forall>sp x. hm_entry hm sp x = (if sp = Some (nat (h_afu_idx hdl)) then None else hm_entry (api_hm s) sp x)"
    using terminate_afu_done [OF ok(1,2)] by blast
  obtain r where r: "wsid_tracker_cleanup (wsid_root hdl) = Some (Inr r)" using cleanup_returns [OF ok(3)] by blast
  show ?thesis
    using h hm r ok(4)
    by (auto simp: ase_fpgaClose_def tok_read_def Let_def ws_ret_def session_deinit_def ase_portctrl_def ends_session_def left)
qed

lemma open_handle:
  assumes "token \<noteq> 0" and "tok_mem s token = Some t" and "th_magic (tok_hdr t) = ASE_TOKEN_MAGIC"
    and "flags AND NOT known = 0" and "session_exist_status s = ESTABLISHED" and "h = malloc (handles s)"
  shows "ase_fpgaOpen mm ma pid vbase known malloc token False flags s = Inr (FPGA_OK, Some h, s\<lparr>handles := (handles s)(h \<mapsto>
      \<lparr>h_lock = False, h_magic = FPGA_HANDLE_MAGIC, h_token = token, wsid_root = the (wsid_tracker_init 16384), h_pasid = 0,
       h_afu_idx = (if th_subsystem_device_id (tok_hdr t) = ASE_VF0_SUBSYSTEM_DEVICE
                    then uint (th_function (tok_hdr t)) - uint ASE_VF0_FUNCTION else 0)\<rparr>),
      mmio_is_mapped := (mmio_is_mapped s)(h := False),
      ase_open_afus_by_tok_idx := ase_open_afus_by_tok_idx s OR push_bit (nat (tok_idx t)) 1\<rparr>)"
  using assms by (simp add: ase_fpgaOpen_def tok_read_def session_init_def Let_def)

text \<open>A token that is destroyed while its handle is open: closing the handle reads freed memory.\<close>

lemma close_after_destroy:
  assumes "h \<noteq> 0" and "handles s h = Some hdl" and "ase_fpgaDestroyToken s (Some (h_token hdl)) = Inr (FPGA_OK, s')"
  shows "ase_fpgaClose h s' = Inl Segv"
proof -
  have "s' = s\<lparr>tok_mem := (tok_mem s)(h_token hdl := None)\<rparr>"
    using assms(3) by (auto simp: ase_fpgaDestroyToken_def split: if_splits)
  then show ?thesis using assms(1,2) by (simp add: ase_fpgaClose_def tok_read_def)
qed

text \<open>
  The largest offset that the MMIO calls accept is the first one behind the map of 1 GB, which
  begins 256 KB before \<open>mmio_afu_vbase\<close>.
\<close>

lemma mmio_offset_at_limit:
  assumes "h \<noteq> 0" and "handles s h = Some hdl" and "mmio_idle (dev_mmio s)" and "mmio_afu_vbase (dev_mmio s) = map_start + 0x40000"
    and "map_start + 0x40000 \<noteq> 0"
  shows "\<exists>s'. ase_fpgaWriteMMIO32 h MMIO_AFU_LENGTH v s = Inr (FPGA_OK, Some (), s') \<and>
    mmio_map (dev_mmio s') = mem_write (mmio_map (dev_mmio s)) (map_start + 0x40000000) (le_bytes 4 v)"
proof -
  let ?m = "dev_mmio s"
  have o: "sint (ucast MMIO_AFU_LENGTH :: u32) = 0x3ffc0000" "MMIO_AFU_LENGTH mod 4 = 0" by (simp_all add: MMIO_AFU_LENGTH_def)
  have up: "[0..<MMIO_MAX_OUTSTANDING] = 0 # [1..<MMIO_MAX_OUTSTANDING]" by (simp add: MMIO_MAX_OUTSTANDING_def upt_conv_Cons)
  have e: "find_empty_mmio_scoreboard_slot (?m\<lparr>glbl_mmio_tid := g\<rparr>) = Some 0" for g
    using assms(3) by (simp add: find_empty_mmio_scoreboard_slot_def up mmio_idle_def) (simp add: MMIO_MAX_OUTSTANDING_def)
  show ?thesis
    using assms o idle_count [OF assms(3)]
    by (auto simp: ase_fpgaWriteMMIO32_def mmio_api_def Let_def mmio_write32_def mmio_send_def generate_mmio_tid_def
        MMIO_MAX_OUTSTANDING_def mmio_request_put_def e mmio_map_store_def add.assoc)
qed

section \<open>Runs of the device calls\<close>

text \<open>
  The calls of a well behaved application: it opens only a token whose index is not open, as
  the enumeration offers it, and does not destroy the token of an open handle. The copies that
  an enumeration makes are the steps \<open>clone\<close>.
\<close>

inductive dev_step for mm ma pid vbase known hmalloc tmalloc where
  open_step: "ase_fpgaOpen mm ma pid vbase known hmalloc p False flags s = Inr (FPGA_OK, Some h, s') \<Longrightarrow>
    tok_mem s p = Some t \<Longrightarrow> \<not> bit (ase_open_afus_by_tok_idx s) (nat (tok_idx t)) \<Longrightarrow>
    dev_step mm ma pid vbase known hmalloc tmalloc s s'"
| close_step: "ase_fpgaClose h s = Inr (FPGA_OK, s') \<Longrightarrow> dev_step mm ma pid vbase known hmalloc tmalloc s s'"
| clone_step: "ase_fpgaCloneToken tmalloc s p False = Inr (FPGA_OK, Some q, s') \<Longrightarrow>
    dev_step mm ma pid vbase known hmalloc tmalloc s s'"
| destroy_step: "ase_fpgaDestroyToken s (Some p) = Inr (FPGA_OK, s') \<Longrightarrow>
    (\<And>h hdl. handles s h = Some hdl \<Longrightarrow> h_token hdl \<noteq> p) \<Longrightarrow>
    dev_step mm ma pid vbase known hmalloc tmalloc s s'"

text \<open>The handle \<open>h\<close> is open on the device with the index \<open>i\<close>.\<close>

definition open_on :: "'al dev_state \<Rightarrow> nat \<Rightarrow> nat \<Rightarrow> bool" where
  "open_on s h i \<longleftrightarrow> (\<exists>hdl t. handles s h = Some hdl \<and> tok_mem s (h_token hdl) = Some t \<and> nat (tok_idx t) = i)"

definition dev_inv :: "'al dev_state \<Rightarrow> bool" where
  "dev_inv s \<longleftrightarrow> finite (dom (handles s)) \<and> finite (dom (tok_mem s)) \<and> handles s 0 = None \<and>
     (\<forall>p t. tok_mem s p = Some t \<longrightarrow> nat (tok_idx t) < 64) \<and>
     (\<forall>h hdl. handles s h = Some hdl \<longrightarrow> tok_mem s (h_token hdl) \<noteq> None) \<and>
     (\<forall>h h' i. open_on s h i \<longrightarrow> open_on s h' i \<longrightarrow> h = h') \<and>
     (\<forall>i. bit (ase_open_afus_by_tok_idx s) i \<longleftrightarrow> (\<exists>h. open_on s h i))"

lemma dev_invD:
  assumes "dev_inv s"
  shows "finite (dom (handles s))" and "finite (dom (tok_mem s))" and "handles s 0 = None"
    and "tok_mem s p = Some t \<Longrightarrow> nat (tok_idx t) < 64"
    and "handles s h = Some hdl \<Longrightarrow> tok_mem s (h_token hdl) \<noteq> None"
    and "open_on s h i \<Longrightarrow> open_on s h' i \<Longrightarrow> h = h'"
    and "bit (ase_open_afus_by_tok_idx s) i \<longleftrightarrow> (\<exists>h. open_on s h i)"
  using assms unfolding dev_inv_def by blast+

lemma session_init_keeps:
  assumes "session_init mm ma pid vbase s = Inr s'"
  shows "tok_mem s' = tok_mem s \<and> handles s' = handles s \<and> ase_open_afus_by_tok_idx s' = ase_open_afus_by_tok_idx s"
  using assms by (auto simp: session_init_def send_swreset_def ase_portctrl_def Let_def split: if_splits)

lemma open_effect:
  assumes "ase_fpgaOpen mm ma pid vbase known hmalloc p False flags s = Inr (FPGA_OK, Some h, s')" and "tok_mem s p = Some t"
  shows "h = hmalloc (handles s)" and "\<exists>hdl. handles s' = (handles s)(h \<mapsto> hdl) \<and> h_token hdl = p" and "tok_mem s' = tok_mem s"
    and "ase_open_afus_by_tok_idx s' = ase_open_afus_by_tok_idx s OR push_bit (nat (tok_idx t)) 1"
  using assms by (auto simp: ase_fpgaOpen_def tok_read_def Let_def dest!: session_init_keeps split: if_splits)

lemma close_effect:
  assumes "ase_fpgaClose h s = Inr (FPGA_OK, s')"
  obtains hdl t where "handles s h = Some hdl" and "tok_mem s (h_token hdl) = Some t" and "handles s' = (handles s)(h := None)"
    and "tok_mem s' = tok_mem s" and "ase_open_afus_by_tok_idx s' = ase_open_afus_by_tok_idx s AND NOT (push_bit (nat (tok_idx t)) 1)"
  using assms
  by (auto simp: ase_fpgaClose_def tok_read_def Let_def session_deinit_def ase_portctrl_def split: if_splits option.splits)

lemma clone_effect:
  assumes "ase_fpgaCloneToken malloc s p False = Inr (FPGA_OK, Some q, s')"
  shows "\<exists>t. tok_mem s p = Some t \<and> s' = s\<lparr>tok_mem := (tok_mem s)(q \<mapsto> t)\<rparr> \<and> q = malloc (tok_mem s)"
proof (cases "tok_mem s p")
  case None
  then show ?thesis using assms by (simp add: ase_fpgaCloneToken_def tok_read_def split: if_splits)
next
  case (Some t)
  then show ?thesis using assms by (auto simp: ase_fpgaCloneToken_def tok_read_def Let_def split: if_splits)
qed

lemma destroy_effect:
  assumes "ase_fpgaDestroyToken s (Some p) = Inr (FPGA_OK, s')"
  shows "s' = s\<lparr>tok_mem := (tok_mem s)(p := None)\<rparr>"
proof (cases "tok_mem s p")
  case None
  then show ?thesis using assms by (simp add: ase_fpgaDestroyToken_def tok_read_def split: if_splits)
next
  case (Some t)
  then show ?thesis using assms by (simp add: ase_fpgaDestroyToken_def tok_read_def split: if_splits)
qed

text \<open>A change of the token memory that keeps the tokens of the open handles keeps the invariant.\<close>

lemma dev_inv_tokens:
  assumes inv: "dev_inv s" and h: "handles s' = handles s" "ase_open_afus_by_tok_idx s' = ase_open_afus_by_tok_idx s"
    and fin: "finite (dom (tok_mem s'))" and idx: "\<And>p t. tok_mem s' p = Some t \<Longrightarrow> nat (tok_idx t) < 64"
    and same: "\<And>k hdl. handles s k = Some hdl \<Longrightarrow> tok_mem s' (h_token hdl) = tok_mem s (h_token hdl)"
  shows "dev_inv s'"
proof -
  note D = dev_invD [OF inv]
  have on: "open_on s' k i \<longleftrightarrow> open_on s k i" for k i
    unfolding open_on_def h(1) using same [of k] by (cases "handles s k") simp_all
  show ?thesis
    unfolding dev_inv_def on h using D(1,3,5-7) fin idx same by simp
qed

lemma bit_push_1: "bit (push_bit n 1 :: u64) i \<longleftrightarrow> i = n \<and> n < 64" "bit (2 ^ n :: u64) i \<longleftrightarrow> i = n \<and> n < 64"
  by (auto simp: bit_exp_iff)

lemma dev_step_inv:
  assumes step: "dev_step mm ma pid vbase known hmalloc tmalloc s s'" and inv: "dev_inv s"
    and fresh: "malloc_fresh hmalloc" "malloc_fresh tmalloc"
  shows "dev_inv s'"
  using step
proof cases
  case (open_step p flags h t)
  note e = open_effect [OF open_step(1,2)] and D = dev_invD [OF inv]
  obtain hdl where hdl: "handles s' = (handles s)(h \<mapsto> hdl)" "h_token hdl = p" using e(2) by blast
  have h: "h \<noteq> 0" "handles s h = None" using fresh(1) D(1) e(1) by (auto simp: malloc_fresh_def)
  have on: "open_on s' k i \<longleftrightarrow> (if k = h then i = nat (tok_idx t) else open_on s k i)" for k i
    using open_step(2) hdl by (auto simp: open_on_def e(3))
  have new: "\<not> open_on s k (nat (tok_idx t))" for k using open_step(3) D(7) by blast
  have "\<not> open_on s h i" for i using h(2) by (simp add: open_on_def)
  then have "(\<exists>k. open_on s' k i) \<longleftrightarrow> i = nat (tok_idx t) \<or> (\<exists>k. open_on s k i)" for i unfolding on by metis
  then have "bit (ase_open_afus_by_tok_idx s') i \<longleftrightarrow> (\<exists>k. open_on s' k i)" for i
    using D(4) [OF open_step(2)] D(7) [of i] unfolding e(4) by (auto simp: bit_or_iff bit_push_1)
  moreover have "k = k'" if "open_on s' k i" "open_on s' k' i" for k k' i
    using that D(6) new unfolding on by (auto split: if_splits)
  ultimately show ?thesis
    using D(1-5) h(1) hdl open_step(2) unfolding dev_inv_def e(3) by (auto split: if_splits)
next
  case (close_step h)
  note D = dev_invD [OF inv]
  obtain hdl t where e: "handles s h = Some hdl" "tok_mem s (h_token hdl) = Some t" "handles s' = (handles s)(h := None)"
    "tok_mem s' = tok_mem s" "ase_open_afus_by_tok_idx s' = ase_open_afus_by_tok_idx s AND NOT (push_bit (nat (tok_idx t)) 1)"
    using close_effect [OF close_step] by blast
  have on: "open_on s' k i \<longleftrightarrow> k \<noteq> h \<and> open_on s k i" for k i by (auto simp: open_on_def e(3,4))
  have h: "open_on s h (nat (tok_idx t))" using e(1,2) by (auto simp: open_on_def)
  have only: "i = nat (tok_idx t)" if "open_on s h i" for i using that e(1,2) by (auto simp: open_on_def)
  have lt: "bit (ase_open_afus_by_tok_idx s) i \<Longrightarrow> i < 64" for i
    using bit_imp_le_length [of "ase_open_afus_by_tok_idx s" i] by simp
  have "(\<exists>k. open_on s' k i) \<longleftrightarrow> (\<exists>k. open_on s k i) \<and> i \<noteq> nat (tok_idx t)" for i
    unfolding on using D(6) [OF h] only by metis
  then have "bit (ase_open_afus_by_tok_idx s') i \<longleftrightarrow> (\<exists>k. open_on s' k i)" for i
    using D(4) [OF e(2)] D(7) [of i] lt [of i] unfolding e(5) by (auto simp: bit_and_iff bit_not_iff bit_push_1)
  then show ?thesis
    using D(1-6) on unfolding dev_inv_def by (auto simp: e(3,4) split: if_splits)
next
  case (clone_step p q)
  note D = dev_invD [OF inv]
  obtain t where t: "tok_mem s p = Some t" "s' = s\<lparr>tok_mem := (tok_mem s)(q \<mapsto> t)\<rparr>" "q = tmalloc (tok_mem s)"
    using clone_effect [OF clone_step] by blast
  have q: "tok_mem s q = None" using fresh(2) D(2) t(3) by (simp add: malloc_fresh_def)
  have same: "tok_mem s' (h_token hdl) = tok_mem s (h_token hdl)" if "handles s h = Some hdl" for h hdl
    using D(5) [OF that] q by (auto simp: t(2))
  have "tok_mem s' r = Some u \<Longrightarrow> nat (tok_idx u) < 64" for r u using D(4) t(1) by (auto simp: t(2) split: if_splits)
  then show ?thesis using same D(2) by (intro dev_inv_tokens [OF inv]) (auto simp: t(2))
next
  case (destroy_step p)
  note D = dev_invD [OF inv]
  have s': "s' = s\<lparr>tok_mem := (tok_mem s)(p := None)\<rparr>"
    by (rule destroy_effect [OF destroy_step(1)])
  have same: "tok_mem s' (h_token hdl) = tok_mem s (h_token hdl)" if "handles s h = Some hdl" for h hdl
    using destroy_step(2) [OF that] by (simp add: s')
  have "tok_mem s' r = Some u \<Longrightarrow> nat (tok_idx u) < 64" for r u using D(4) by (auto simp: s' split: if_splits)
  then show ?thesis using same D(2) by (intro dev_inv_tokens [OF inv]) (auto simp: s')
qed

lemma dev_run_inv:
  assumes "(dev_step mm ma pid vbase known hmalloc tmalloc)\<^sup>*\<^sup>* s s'" and "dev_inv s"
    and "malloc_fresh hmalloc" and "malloc_fresh tmalloc"
  shows "dev_inv s'"
  using assms(1,2) by induction (auto intro: dev_step_inv assms(3,4))

section \<open>Properties\<close>

text \<open>
  C17: Closing a handle ends the IOVA space of its AFU index for every handle that shares the
  index. The call succeeds, frees the handle, clears the bit of the token and, if that was the
  last bit, stops the simulation. All translations of the AFU index of the handle are gone,
  all others are kept. A second handle of the same token, or of another token with the same
  index (the management tokens and VF 0 all have index 0), stays open without translations.
\<close>

theorem close_ends_iova_space:
  assumes "h \<noteq> 0" and "handles s h = Some hdl" and "tok_mem s (h_token hdl) = Some t"
    and "hm_ok (api_hm s)" and "\<not> ase_pt_lock (api_hm s)" and "afu_idx_ok (h_afu_idx hdl)" and "ws_ok (wsid_root hdl)"
    and "count_mmio_tid_used (dev_mmio s) = 0" and "afu_idx_ok other"
    and "left = ase_open_afus_by_tok_idx s AND NOT (push_bit (nat (tok_idx t)) 1)"
  shows "\<exists>s'. ase_fpgaClose h s = Inr (FPGA_OK, s') \<and> handles s' = (handles s)(h := None) \<and>
    ase_open_afus_by_tok_idx s' = left \<and>
    session_exist_status s' = (if ends_session left s then NOT_ESTABLISHED else session_exist_status s) \<and>
    portctrl_sent s' = portctrl_sent s @ (if ends_session left s then [(ASE_SIMKILL, 0)] else []) \<and>
    map_sum id fst (ase_host_memory_iova_to_va (api_hm s') other x False) =
      (if other = h_afu_idx hdl then Inr 0 else map_sum id fst (ase_host_memory_iova_to_va (api_hm s) other x False))"
proof -
  obtain s' where s': "ase_fpgaClose h s = Inr (FPGA_OK, s')" "handles s' = (handles s)(h := None)"
    "ase_open_afus_by_tok_idx s' = left"
    "session_exist_status s' = (if ends_session left s then NOT_ESTABLISHED else session_exist_status s)"
    "portctrl_sent s' = portctrl_sent s @ (if ends_session left s then [(ASE_SIMKILL, 0)] else [])"
    "hm_ok (api_hm s')" "ase_pt_lock (api_hm s') = ase_pt_lock (api_hm s)"
    "\<And>sp x. hm_entry (api_hm s') sp x = (if sp = Some (nat (h_afu_idx hdl)) then None else hm_entry (api_hm s) sp x)"
    using close_handle [OF assms(1-4,6-8,10)] by blast
  have n: "nat other = nat (h_afu_idx hdl) \<longleftrightarrow> other = h_afu_idx hdl" using assms(6,9) by (auto simp: afu_idx_ok_def)
  have unl: "\<not> ase_pt_lock (api_hm s')" using s'(7) assms(5) by simp
  have "map_sum id fst (ase_host_memory_iova_to_va (api_hm s') other x False) =
      (if other = h_afu_idx hdl then Inr 0 else map_sum id fst (ase_host_memory_iova_to_va (api_hm s) other x False))"
    unfolding iova_to_va_result [OF s'(6) unl assms(9)] iova_to_va_result [OF assms(4,5,9)] s'(8)
    by (simp add: n hm_va_def lookup_result_def)
  then show ?thesis using s'(1-5) by blast
qed

definition demo_open :: "unit hm_state \<Rightarrow> unit dev_state" where
  "demo_open hm = demo_dev\<lparr>api_hm := hm, handles := [1 \<mapsto> demo_handle\<lparr>h_token := aseToken 2\<rparr>],
     ase_open_afus_by_tok_idx := 4, session_exist_status := ESTABLISHED\<rparr>"

theorem close_ends_iova_space_witness:
  "\<exists>hm s2 s3. map_sum id fst (ase_host_memory_iova_to_va hm 0 0x40012344 False) = Inr 0x7f0000212344 \<and>
     ase_fpgaOpen demo_mmap demo_ma 77 0x7f0000000000 0 (\<lambda>_. 2) (aseToken 0) False 0 (demo_open hm) =
       Inr (FPGA_OK, Some 2, s2) \<and> ase_fpgaClose 2 s2 = Inr (FPGA_OK, s3) \<and> handles s3 1 \<noteq> None \<and>
     session_exist_status s3 = ESTABLISHED \<and>
     map_sum id fst (ase_host_memory_iova_to_va (api_hm s3) 0 0x40012344 False) = Inr 0"
proof -
  obtain hm :: "unit hm_state" where hm: "hm_ok hm" "\<not> ase_pt_lock hm"
    "hm_va (hm_entry hm (Some 0) 0x40012344) 0x40012344 = 0x7f0000212344" using demo_pinned by blast
  have afu: "afu_idx_ok 0" by (simp add: afu_idx_ok_def ASE_MAX_TOKENS_def)
  have before: "map_sum id fst (ase_host_memory_iova_to_va hm 0 0x40012344 False) = Inr 0x7f0000212344"
    using iova_to_va_result [OF hm(1,2) afu, of "0x40012344"] hm(3) by simp
  obtain tr where tr: "wsid_tracker_init 16384 = Some tr" by (simp add: wsid_tracker_init_def)
  define hdl where "hdl = \<lparr>h_lock = False, h_magic = FPGA_HANDLE_MAGIC, h_token = aseToken 0, wsid_root = tr, h_pasid = 0, h_afu_idx = 0\<rparr>"
  define s2 where "s2 = (demo_open hm)\<lparr>handles := (handles (demo_open hm))(2 \<mapsto> hdl),
    mmio_is_mapped := (mmio_is_mapped (demo_open hm))(2 := False), ase_open_afus_by_tok_idx := 5\<rparr>"
  have t: "tok_mem (demo_open hm) (aseToken 0) = Some ase_token_pf0" "aseToken 0 \<noteq> 0"
    "th_magic (tok_hdr ase_token_pf0) = ASE_TOKEN_MAGIC" "session_exist_status (demo_open hm) = ESTABLISHED"
    by (simp_all add: demo_open_def ase_tokens_init_def aseToken_def ase_token_pf0_def)
  have op: "ase_fpgaOpen demo_mmap demo_ma 77 0x7f0000000000 0 (\<lambda>_. 2) (aseToken 0) False 0 (demo_open hm) = Inr (FPGA_OK, Some 2, s2)"
    using open_handle [OF t(2,1,3) _ t(4) refl, of 0 0 demo_mmap demo_ma 77 "0x7f0000000000" "\<lambda>_. 2"] tr
    by (simp add: s2_def hdl_def ase_token_pf0_def ASE_VF0_SUBSYSTEM_DEVICE_def) (simp add: demo_open_def)
  have c: "(2 :: nat) \<noteq> 0" "handles s2 2 = Some hdl" "tok_mem s2 (h_token hdl) = Some ase_token_pf0" "hm_ok (api_hm s2)"
    "\<not> ase_pt_lock (api_hm s2)" "afu_idx_ok (h_afu_idx hdl)" "ws_ok (wsid_root hdl)" "count_mmio_tid_used (dev_mmio s2) = 0"
    "4 = ase_open_afus_by_tok_idx s2 AND NOT (push_bit (nat (tok_idx ase_token_pf0)) 1)"
    using hm t(1) afu wsid_tracker_init_ok(1) [OF tr] demo_dev_start(5)
    by (simp_all add: s2_def hdl_def demo_open_def ase_token_pf0_def)
  obtain s3 where "ase_fpgaClose 2 s2 = Inr (FPGA_OK, s3)" "handles s3 = (handles s2)(2 := None)"
    "session_exist_status s3 = ESTABLISHED"
    "map_sum id fst (ase_host_memory_iova_to_va (api_hm s3) 0 0x40012344 False) = Inr 0"
    using close_ends_iova_space [OF c(1-8) afu c(9), of "0x40012344"] t(4) by (auto simp: hdl_def ends_session_def s2_def)
  moreover have "handles s2 1 \<noteq> None" by (simp add: s2_def demo_open_def)
  ultimately show ?thesis using before op by (intro exI [of _ hm] exI [of _ s2] exI [of _ s3]) simp
qed



end
