(* ===== verification/Tlp_Header.thy ===== *)
theory Tlp_Header
  imports ASE_Prelude
begin

text \<open>
  Headers of PCIe transaction layer packets, \<open>src/ase/sw/pcie_ss_tlp/pcie_tlp_func.h\<close>,
  \<open>pcie_ss_tlp_hdr.c\<close> and the header types of \<open>pcie_ss_tlp_stream.h\<close>: the classification of the
  format and type byte, the unpacked header, and its conversion to and from the encoded
  form on the data bus. The bus is a function from the index of a 32 bit word to its value;
  the part selects of the simulator interface (\<open>svPutPartselBit\<close>, \<open>svGetPartselBit\<close>) that the
  source uses stay inside one such word. The members of the union \<open>u\<close> are separate fields: the
  code reads the member that the type of the packet selects, and that member was written.
  A call of \<open>start_simkill_countdown\<close> is the second component of a result.
\<close>

section \<open>Definitions\<close>

subsection \<open>Format and type\<close>

definition PCIE_TYPE_CPL :: u8 where "PCIE_TYPE_CPL = 0x0a"
definition PCIE_TYPE_MEM_RW :: u8 where "PCIE_TYPE_MEM_RW = 0"
definition PCIE_FMTTYPE_MEM_READ32 :: u8 where "PCIE_FMTTYPE_MEM_READ32 = 0x00"
definition PCIE_FMTTYPE_MEM_READ64 :: u8 where "PCIE_FMTTYPE_MEM_READ64 = 0x20"
definition PCIE_FMTTYPE_MEM_WRITE32 :: u8 where "PCIE_FMTTYPE_MEM_WRITE32 = 0x40"
definition PCIE_FMTTYPE_MEM_WRITE64 :: u8 where "PCIE_FMTTYPE_MEM_WRITE64 = 0x60"
definition PCIE_FMTTYPE_INTR :: u8 where "PCIE_FMTTYPE_INTR = 0x30"
definition PCIE_FMTTYPE_CPL :: u8 where "PCIE_FMTTYPE_CPL = 0x0a"
definition PCIE_FMTTYPE_CPLD :: u8 where "PCIE_FMTTYPE_CPLD = 0x4a"
definition PCIE_FMTTYPE_FETCH_ADD32 :: u8 where "PCIE_FMTTYPE_FETCH_ADD32 = 0x4c"
definition PCIE_FMTTYPE_FETCH_ADD64 :: u8 where "PCIE_FMTTYPE_FETCH_ADD64 = 0x6c"
definition PCIE_FMTTYPE_SWAP32 :: u8 where "PCIE_FMTTYPE_SWAP32 = 0x4d"
definition PCIE_FMTTYPE_SWAP64 :: u8 where "PCIE_FMTTYPE_SWAP64 = 0x6d"
definition PCIE_FMTTYPE_CAS32 :: u8 where "PCIE_FMTTYPE_CAS32 = 0x4e"
definition PCIE_FMTTYPE_CAS64 :: u8 where "PCIE_FMTTYPE_CAS64 = 0x6e"
definition PCIE_MSGCODE_ATS_INVAL_REQ :: u8 where "PCIE_MSGCODE_ATS_INVAL_REQ = 1"
definition PCIE_MSGCODE_ATS_INVAL_CPL :: u8 where "PCIE_MSGCODE_ATS_INVAL_CPL = 2"
definition PCIE_MSGCODE_PAGE_REQ :: u8 where "PCIE_MSGCODE_PAGE_REQ = 4"
definition PCIE_MSGCODE_PAGE_RSP :: u8 where "PCIE_MSGCODE_PAGE_RSP = 5"

definition tlp_func_is_addr32 :: "u8 \<Rightarrow> bool" where
  "tlp_func_is_addr32 fmttype \<longleftrightarrow> fmttype AND 32 = 0"

definition tlp_func_is_addr64 :: "u8 \<Rightarrow> bool" where
  "tlp_func_is_addr64 fmttype \<longleftrightarrow> \<not> tlp_func_is_addr32 fmttype"

definition tlp_func_has_data :: "u8 \<Rightarrow> bool" where
  "tlp_func_has_data fmttype \<longleftrightarrow> fmttype AND 64 \<noteq> 0"

definition tlp_func_is_completion :: "u8 \<Rightarrow> bool" where
  "tlp_func_is_completion fmttype \<longleftrightarrow> fmttype AND 0x1f = PCIE_TYPE_CPL"

definition tlp_func_is_interrupt_req :: "u8 \<Rightarrow> bool" where
  "tlp_func_is_interrupt_req fmttype \<longleftrightarrow> fmttype = PCIE_FMTTYPE_INTR"

definition func_is_atomic_req :: "u8 \<Rightarrow> bool" where
  "func_is_atomic_req fmttype \<longleftrightarrow> fmttype AND 0x40 \<noteq> 0 \<and> fmttype AND 0x1c = 0xc"

definition func_is_atomic_cas_req :: "u8 \<Rightarrow> bool" where
  "func_is_atomic_cas_req fmttype \<longleftrightarrow> fmttype = PCIE_FMTTYPE_CAS32 \<or> fmttype = PCIE_FMTTYPE_CAS64"

definition tlp_func_is_msg :: "u8 \<Rightarrow> bool" where
  "tlp_func_is_msg fmttype \<longleftrightarrow> fmttype AND 0xb8 = 0x30"

definition tlp_func_is_mem_req :: "u8 \<Rightarrow> bool" where
  "tlp_func_is_mem_req fmttype \<longleftrightarrow> fmttype AND 0x1f = PCIE_TYPE_MEM_RW \<or> func_is_atomic_req fmttype"

definition tlp_func_is_mem_req64 :: "u8 \<Rightarrow> bool" where
  "tlp_func_is_mem_req64 fmttype \<longleftrightarrow> tlp_func_is_mem_req fmttype \<and> tlp_func_is_addr64 fmttype"

definition tlp_func_is_mem_req32 :: "u8 \<Rightarrow> bool" where
  "tlp_func_is_mem_req32 fmttype \<longleftrightarrow> tlp_func_is_mem_req fmttype \<and> tlp_func_is_addr32 fmttype"

definition tlp_func_is_mwr_req :: "u8 \<Rightarrow> bool" where
  "tlp_func_is_mwr_req fmttype \<longleftrightarrow> tlp_func_is_mem_req fmttype \<and> tlp_func_has_data fmttype"

definition tlp_func_is_mrd_req :: "u8 \<Rightarrow> bool" where
  "tlp_func_is_mrd_req fmttype \<longleftrightarrow> tlp_func_is_mem_req fmttype \<and> \<not> tlp_func_has_data fmttype"

subsection \<open>Unpacked headers\<close>

record hdr_req_attr =
  ln :: bool
  th :: bool
  td :: bool
  ep :: bool
  at_type :: u8

record hdr_req =
  req_addr :: u64
  last_dw_be :: u8
  first_dw_be :: u8
  req_attr :: hdr_req_attr

record hdr_cpl =
  comp_id :: u16
  cpl_status :: u8
  bcm :: u8
  byte_count :: u16
  low_addr :: u32
  fc :: bool

record hdr_intr =
  vector_num :: u16

record hdr_msg =
  msg2 :: u32
  msg1 :: u32
  msg0 :: u8
  msg_code :: u8

record hdr_upk =
  metadata :: u64
  bar_number :: u8
  mm_mode :: u8
  slot_num :: u8
  vf_active :: u8
  vf_num :: u16
  pf_num :: u8
  pref_present :: bool
  pref_type :: u8
  pref :: u32
  req_id :: u16
  tag :: u16
  len_bytes :: u32
  fmt_type :: u8
  u_req :: hdr_req
  u_cpl :: hdr_cpl
  u_intr :: hdr_intr
  u_msg :: hdr_msg
  dm_mode :: bool

definition pcie_ss_enc_vf_id :: "u32 \<Rightarrow> bool \<Rightarrow> u32 \<Rightarrow> u32" where
  "pcie_ss_enc_vf_id vf vf_act pf = push_bit 4 vf OR push_bit 3 (of_bool vf_act) OR pf"

definition pcie_ss_dec_vf_id :: "u32 \<Rightarrow> u32 \<times> bool \<times> u32" where
  "pcie_ss_dec_vf_id i = (drop_bit 4 i, drop_bit 3 i AND 1 \<noteq> 0, i AND 7)"

definition pcie_ss_tlp_hdr_reset :: hdr_upk where
  "pcie_ss_tlp_hdr_reset = \<lparr>metadata = 0, bar_number = 0, mm_mode = 0, slot_num = 0, vf_active = 0,
     vf_num = 0, pf_num = 0, pref_present = False, pref_type = 0, pref = 0, req_id = 0, tag = 0,
     len_bytes = 0, fmt_type = 0,
     u_req = \<lparr>req_addr = 0, last_dw_be = 0, first_dw_be = 0,
              req_attr = \<lparr>ln = False, th = False, td = False, ep = False, at_type = 0\<rparr>\<rparr>,
     u_cpl = \<lparr>comp_id = 0, cpl_status = 0, bcm = 0, byte_count = 0, low_addr = 0, fc = False\<rparr>,
     u_intr = \<lparr>vector_num = 0\<rparr>, u_msg = \<lparr>msg2 = 0, msg1 = 0, msg0 = 0, msg_code = 0\<rparr>,
     dm_mode = False\<rparr>"

subsection \<open>Encoded headers\<close>

type_synonym bus = "nat \<Rightarrow> u32"

definition svPutPartselBit :: "bus \<Rightarrow> u32 \<Rightarrow> nat \<Rightarrow> nat \<Rightarrow> bus" where
  "svPutPartselBit d v i w = d(i div 32 :=
     (d (i div 32) AND NOT (push_bit (i mod 32) (mask w))) OR push_bit (i mod 32) (take_bit w v))"

definition svGetPartselBit :: "bus \<Rightarrow> nat \<Rightarrow> nat \<Rightarrow> u32" where
  "svGetPartselBit d i w = take_bit w (drop_bit (i mod 32) (d (i div 32)))"

text \<open>The three vectors of a beat: \<open>tdata\<close>, \<open>tuser\<close> and \<open>tkeep\<close>.\<close>

record beat =
  tdata :: bus
  tuser :: bus
  tkeep :: bus

text \<open>
  The reset clears \<open>tdata_width_bits / 8\<close> bytes of data and \<open>tdata_width_bits / 64\<close> bytes of
  keep, and the user bits, which fit in one word.
\<close>

definition pcie_ss_tlp_payload_reset :: "nat \<Rightarrow> nat \<Rightarrow> beat \<Rightarrow> beat" where
  "pcie_ss_tlp_payload_reset tdata_width_bits tuser_width_bits b =
     \<lparr>tdata = (\<lambda>i. if i < tdata_width_bits div 32 then 0 else tdata b i),
      tuser = svPutPartselBit (tuser b) 0 0 tuser_width_bits,
      tkeep = (\<lambda>i. if i < tdata_width_bits div 64 div 4 then 0 else tkeep b i)\<rparr>"

text \<open>The first word, which all packets share, and the words 4 to 7.\<close>

definition hdr_pack_common :: "hdr_upk \<Rightarrow> bus \<Rightarrow> bus" where
  "hdr_pack_common h d =
     (let v = push_bit 24 (ucast (fmt_type h)) OR
              push_bit 23 (ucast (drop_bit 9 (tag h)) AND 1) OR
              push_bit 19 (ucast (drop_bit 8 (tag h)) AND 1) OR
              (drop_bit 2 (len_bytes h) AND 0x3ff);
          d = svPutPartselBit d v 0 32;
          v = push_bit 25 (ucast (bar_number h)) OR push_bit 24 (ucast (mm_mode h)) OR
              push_bit 15 (ucast (slot_num h)) OR push_bit 14 (ucast (vf_active h)) OR
              push_bit 3 (ucast (vf_num h)) OR ucast (pf_num h);
          d = svPutPartselBit d v (32 * 5) 32;
          v = push_bit 29 (of_bool (pref_present h)) OR push_bit 24 (ucast (pref_type h)) OR pref h;
          d = svPutPartselBit d v (32 * 4) 32;
          d = svPutPartselBit d (ucast (metadata h)) (32 * 7) 32
      in svPutPartselBit d (ucast (drop_bit 32 (metadata h))) (32 * 6) 32)"

definition hdr_pack_mem :: "hdr_upk \<Rightarrow> bus \<Rightarrow> bus" where
  "hdr_pack_mem h d =
     (let v = push_bit 16 (ucast (req_id h)) OR push_bit 8 (ucast (tag h) AND 0xff) OR
              push_bit 4 (ucast (last_dw_be (u_req h))) OR ucast (first_dw_be (u_req h));
          d = svPutPartselBit d v (32 * 1) 32;
          a = req_addr (u_req h)
      in if tlp_func_is_addr64 (fmt_type h)
         then svPutPartselBit (svPutPartselBit d (ucast (drop_bit 32 a)) (32 * 2) 32)
                (ucast (drop_bit 2 a)) (32 * 3 + 2) 30
         else svPutPartselBit d (ucast a) (32 * 2) 32)"

definition hdr_pack_cpl :: "hdr_upk \<Rightarrow> bus \<Rightarrow> bus" where
  "hdr_pack_cpl h d =
     (let c = u_cpl h in
      if dm_mode h
      then (let v = push_bit 22 (ucast (tag h)) OR push_bit 21 (of_bool (fc c)) OR
                    push_bit 18 (drop_bit 12 (len_bytes h) AND 3) OR push_bit 16 (len_bytes h AND 3) OR
                    (drop_bit 8 (low_addr c) AND 0xffff);
                d = svPutPartselBit d v (32 * 3) 32;
                d = svPutPartselBit d (low_addr c) (32 * 2) 8
            in svPutPartselBit d (push_bit 13 (ucast (cpl_status c))) (32 * 1) 32)
      else (let v = push_bit 16 (ucast (req_id h)) OR push_bit 8 (ucast (tag h) AND 0xff) OR
                    (low_addr c AND 0x7f);
                d = svPutPartselBit d v (32 * 2) 32;
                v = push_bit 16 (ucast (comp_id c)) OR push_bit 13 (ucast (cpl_status c)) OR
                    push_bit 12 (ucast (bcm c)) OR ucast (byte_count c)
            in svPutPartselBit d v (32 * 1) 32))"

definition hdr_pack_msg :: "hdr_upk \<Rightarrow> bus \<Rightarrow> bus" where
  "hdr_pack_msg h d =
     (let v = push_bit 16 (ucast (req_id h)) OR push_bit 8 (ucast (tag h) AND 0xff) OR
              ucast (msg_code (u_msg h));
          d = svPutPartselBit d v (32 * 1) 32;
          d = svPutPartselBit d (msg1 (u_msg h)) (32 * 2) 32
      in svPutPartselBit d (msg2 (u_msg h)) (32 * 3) 32)"

definition pcie_ss_tlp_hdr_pack :: "nat \<Rightarrow> nat \<Rightarrow> nat \<Rightarrow> beat \<Rightarrow> hdr_upk \<Rightarrow> beat" where
  "pcie_ss_tlp_hdr_pack tdata_width_bits tuser_width_bits tlp_hdr_dwords b h =
     (let b = pcie_ss_tlp_payload_reset tdata_width_bits tuser_width_bits b;
          b = b\<lparr>tuser := svPutPartselBit (tuser b) (of_bool (dm_mode h)) 0 1,
                tkeep := svPutPartselBit (tkeep b) (- 1) 0 (tlp_hdr_dwords * 4)\<rparr>;
          d = hdr_pack_common h (tdata b)
      in b\<lparr>tdata :=
           (if tlp_func_is_mem_req (fmt_type h) then hdr_pack_mem h d
            else if tlp_func_is_completion (fmt_type h) then hdr_pack_cpl h d
            else if \<not> dm_mode h \<and> tlp_func_is_msg (fmt_type h) then hdr_pack_msg h d
            else d)\<rparr>)"

definition hdr_get_tag :: "u32 \<Rightarrow> u32 \<Rightarrow> u16" where
  "hdr_get_tag dw0 v = ucast (push_bit 9 (drop_bit 23 dw0 AND 1) OR push_bit 8 (drop_bit 19 dw0 AND 1) OR
     (drop_bit 8 v AND 0xff))"

definition hdr_unpack_common :: "bus \<Rightarrow> bool \<Rightarrow> hdr_upk" where
  "hdr_unpack_common d dm =
     (let dw0 = svGetPartselBit d 0 32; v5 = svGetPartselBit d (32 * 5) 32;
          v4 = svGetPartselBit d (32 * 4) 32; v = svGetPartselBit d (32 * 7) 32;
          v1 = svGetPartselBit d (32 * 6) 32
      in pcie_ss_tlp_hdr_reset\<lparr>dm_mode := dm, fmt_type := ucast (drop_bit 24 dw0 AND 0xff),
           bar_number := ucast (drop_bit 25 v5 AND 0x7f), mm_mode := ucast (drop_bit 24 v5 AND 1),
           slot_num := ucast (drop_bit 15 v5 AND 0x1f), vf_active := ucast (drop_bit 14 v5 AND 1),
           vf_num := ucast (drop_bit 3 v5 AND 0x7ff), pf_num := ucast (v5 AND 7),
           pref_present := drop_bit 29 v4 AND 1 \<noteq> 0, pref_type := ucast (drop_bit 24 v4 AND 0x1f),
           pref := v4 AND 0xffffff, metadata := push_bit 32 (ucast v1) OR ucast v\<rparr>)"

definition hdr_unpack_mem :: "bus \<Rightarrow> hdr_upk \<Rightarrow> hdr_upk" where
  "hdr_unpack_mem d h =
     (let dw0 = svGetPartselBit d 0 32; v = svGetPartselBit d (32 * 1) 32;
          at = \<lparr>ln = drop_bit 17 dw0 AND 1 \<noteq> 0, th = drop_bit 16 dw0 AND 1 \<noteq> 0,
                td = drop_bit 15 dw0 AND 1 \<noteq> 0, ep = drop_bit 14 dw0 AND 1 \<noteq> 0,
                at_type = ucast (drop_bit 10 dw0 AND 3)\<rparr>;
          h = h\<lparr>tag := hdr_get_tag dw0 v\<rparr>
      in if dm_mode h
         then let v1 = svGetPartselBit d (32 * 2) 32; v2 = svGetPartselBit d (32 * 3) 32 in
           h\<lparr>len_bytes := push_bit 12 (drop_bit 18 v AND 0xfff) OR push_bit 2 (dw0 AND 0x3ff) OR
                          (drop_bit 16 v AND 3),
             req_id := push_bit 4 (vf_num h) OR push_bit 3 (ucast (vf_active h)) OR ucast (pf_num h),
             u_req := \<lparr>req_addr = push_bit 32 (ucast v1) OR ucast (v2 AND NOT 3) OR ucast (drop_bit 30 v AND 3),
                       last_dw_be = 0xf, first_dw_be = 0xf, req_attr = at\<rparr>\<rparr>
         else let addr = (if tlp_func_is_addr64 (fmt_type h)
                          then push_bit 32 (ucast (svGetPartselBit d (32 * 2) 32)) OR
                               ucast (svGetPartselBit d (32 * 3) 32 AND NOT 3)
                          else ucast (svGetPartselBit d (32 * 2) 32)) in
           h\<lparr>len_bytes := push_bit 2 (dw0 AND 0x3ff), req_id := ucast (drop_bit 16 v AND 0xffff),
             u_req := \<lparr>req_addr = addr, last_dw_be = ucast (drop_bit 4 v AND 0xf),
                       first_dw_be = ucast (v AND 0xf), req_attr = at\<rparr>\<rparr>)"

definition hdr_unpack_cpl :: "bus \<Rightarrow> hdr_upk \<Rightarrow> hdr_upk" where
  "hdr_unpack_cpl d h =
     (let dw0 = svGetPartselBit d 0 32; v = svGetPartselBit d (32 * 2) 32; w = svGetPartselBit d (32 * 1) 32
      in h\<lparr>len_bytes := push_bit 2 (dw0 AND 0x3ff), req_id := ucast (drop_bit 16 v AND 0xffff),
           tag := hdr_get_tag dw0 v,
           u_cpl := (u_cpl h)\<lparr>low_addr := v AND 0x7f, comp_id := ucast (drop_bit 16 w AND 0xffff),
             cpl_status := ucast (drop_bit 13 w AND 7), bcm := ucast (drop_bit 12 w AND 1),
             byte_count := ucast (w AND 0xfff)\<rparr>\<rparr>)"

definition hdr_unpack_msg :: "bus \<Rightarrow> hdr_upk \<Rightarrow> hdr_upk" where
  "hdr_unpack_msg d h =
     (let dw0 = svGetPartselBit d 0 32; v = svGetPartselBit d (32 * 1) 32
      in h\<lparr>tag := hdr_get_tag dw0 v, len_bytes := push_bit 2 (dw0 AND 0x3ff),
           req_id := ucast (drop_bit 16 v AND 0xffff),
           u_msg := \<lparr>msg2 = svGetPartselBit d (32 * 3) 32, msg1 = svGetPartselBit d (32 * 2) 32,
                     msg0 = ucast (drop_bit 8 v AND 0xff), msg_code = ucast (v AND 0xff)\<rparr>\<rparr>)"

definition pcie_ss_tlp_hdr_unpack :: "beat \<Rightarrow> hdr_upk \<times> bool" where
  "pcie_ss_tlp_hdr_unpack b =
     (let d = tdata b; h = hdr_unpack_common d (bit (tuser b 0) 0) in
      if tlp_func_is_mem_req (fmt_type h) then (hdr_unpack_mem d h, False)
      else if tlp_func_is_completion (fmt_type h) then (hdr_unpack_cpl d h, dm_mode h)
      else if \<not> dm_mode h \<and> tlp_func_is_msg (fmt_type h) then (hdr_unpack_msg d h, False)
      else if tlp_func_is_interrupt_req (fmt_type h)
      then (h\<lparr>u_intr := \<lparr>vector_num = ucast (svGetPartselBit d (32 * 2) 16)\<rparr>\<rparr>, \<not> dm_mode h)
      else (h, False))"

subsection \<open>Specification\<close>

text \<open>The fields of a header have the width that the encoded form gives them.\<close>

definition fits :: "nat \<Rightarrow> 'a::len word \<Rightarrow> bool" where
  "fits n w \<longleftrightarrow> take_bit n w = w"

definition hdr_common_ok :: "hdr_upk \<Rightarrow> bool" where
  "hdr_common_ok h \<longleftrightarrow> fits 7 (bar_number h) \<and> fits 1 (mm_mode h) \<and> fits 5 (slot_num h) \<and>
     fits 1 (vf_active h) \<and> fits 11 (vf_num h) \<and> fits 3 (pf_num h) \<and> fits 5 (pref_type h) \<and>
     fits 24 (pref h) \<and> fits 10 (tag h) \<and> fits 12 (len_bytes h) \<and> len_bytes h AND 3 = 0"

definition hdr_req_ok :: "hdr_upk \<Rightarrow> bool" where
  "hdr_req_ok h \<longleftrightarrow> fits 4 (last_dw_be (u_req h)) \<and> fits 4 (first_dw_be (u_req h)) \<and>
     req_attr (u_req h) = req_attr (u_req pcie_ss_tlp_hdr_reset) \<and>
     (if tlp_func_is_addr64 (fmt_type h) then req_addr (u_req h) AND 3 = 0 else fits 32 (req_addr (u_req h)))"

definition hdr_cpl_ok :: "hdr_upk \<Rightarrow> bool" where
  "hdr_cpl_ok h \<longleftrightarrow> fits 3 (cpl_status (u_cpl h)) \<and> fits 1 (bcm (u_cpl h)) \<and> fits 12 (byte_count (u_cpl h)) \<and>
     fits 7 (low_addr (u_cpl h)) \<and> \<not> fc (u_cpl h)"

definition hdr_msg_ok :: "hdr_upk \<Rightarrow> bool" where
  "hdr_msg_ok h \<longleftrightarrow> msg0 (u_msg h) = ucast (tag h)"

text \<open>
  A power user header whose fields fit and whose members other than the one of its type
  are clear.
\<close>

definition pu_hdr_ok :: "hdr_upk \<Rightarrow> bool" where
  "pu_hdr_ok h \<longleftrightarrow> hdr_common_ok h \<and> \<not> dm_mode h \<and> u_intr h = u_intr pcie_ss_tlp_hdr_reset \<and>
     (let z = pcie_ss_tlp_hdr_reset; f = fmt_type h in
      if tlp_func_is_mem_req f then hdr_req_ok h \<and> u_cpl h = u_cpl z \<and> u_msg h = u_msg z
      else if tlp_func_is_completion f then hdr_cpl_ok h \<and> u_req h = u_req z \<and> u_msg h = u_msg z
      else tlp_func_is_msg f \<and> hdr_msg_ok h \<and> u_req h = u_req z \<and> u_cpl h = u_cpl z)"

section \<open>The bus\<close>

lemma fits_bit: "fits n w \<Longrightarrow> bit w i \<Longrightarrow> i < n"
  by (metis bit_take_bit_iff fits_def)

lemma put32 [simp]: "svPutPartselBit d v (32 * i) 32 = d(i := v)"
proof -
  have "(x AND NOT (mask 32)) OR take_bit 32 v = v" for x :: u32
    by (rule bit_word_eqI) (auto simp: bit_simps)
  then show ?thesis by (simp add: svPutPartselBit_def)
qed

lemma put32_0 [simp]: "svPutPartselBit d v 0 32 = d(0 := v)" "svPutPartselBit d v 32 32 = d(1 := v)"
  "svPutPartselBit d v 64 32 = d(2 := v)" "svPutPartselBit d v 96 32 = d(3 := v)"
  "svPutPartselBit d v 128 32 = d(4 := v)" "svPutPartselBit d v 160 32 = d(5 := v)"
  "svPutPartselBit d v 192 32 = d(6 := v)" "svPutPartselBit d v 224 32 = d(7 := v)"
  using put32 [of d v 0] put32 [of d v 1] put32 [of d v 2] put32 [of d v 3] put32 [of d v 4]
    put32 [of d v 5] put32 [of d v 6] put32 [of d v 7] by simp_all

lemma get32_full: "take_bit 32 (v :: u32) = v"
  by (rule bit_word_eqI) (auto simp: bit_simps)

lemma get32 [simp]: "svGetPartselBit d 0 32 = d 0" "svGetPartselBit d 32 32 = d 1"
  "svGetPartselBit d 64 32 = d 2" "svGetPartselBit d 96 32 = d 3" "svGetPartselBit d 128 32 = d 4"
  "svGetPartselBit d 160 32 = d 5" "svGetPartselBit d 192 32 = d 6" "svGetPartselBit d 224 32 = d 7"
  by (simp_all add: svGetPartselBit_def get32_full)

lemma svGet_words: "svGetPartselBit d (32 * i) 32 = d i"
  by (simp add: svGetPartselBit_def get32_full)

lemma put_30 [simp]: "svPutPartselBit d v 98 30 = d(3 := (d 3 AND 3) OR push_bit 2 v)"
proof -
  have "(x AND NOT (push_bit 2 (mask 30))) OR push_bit 2 (take_bit 30 v) = (x AND 3) OR push_bit 2 v" for x :: u32
    by (rule bit_word_eqI) (auto simp: bit_simps ase_bits)
  then show ?thesis by (simp add: svPutPartselBit_def)
qed

lemma put_8 [simp]: "svPutPartselBit d v 64 8 = d(2 := (d 2 AND NOT 0xff) OR (v AND 0xff))"
  by (simp add: svPutPartselBit_def take_bit_eq_mask mask_eq_exp_minus_1)

section \<open>Common fields\<close>

lemma pack_common:
  "hdr_pack_common h d = d(
     0 := push_bit 24 (ucast (fmt_type h)) OR push_bit 23 (ucast (drop_bit 9 (tag h)) AND 1) OR
          push_bit 19 (ucast (drop_bit 8 (tag h)) AND 1) OR (drop_bit 2 (len_bytes h) AND 0x3ff),
     5 := push_bit 25 (ucast (bar_number h)) OR push_bit 24 (ucast (mm_mode h)) OR
          push_bit 15 (ucast (slot_num h)) OR push_bit 14 (ucast (vf_active h)) OR
          push_bit 3 (ucast (vf_num h)) OR ucast (pf_num h),
     4 := push_bit 29 (of_bool (pref_present h)) OR push_bit 24 (ucast (pref_type h)) OR pref h,
     7 := ucast (metadata h), 6 := ucast (drop_bit 32 (metadata h)))"
  by (simp add: hdr_pack_common_def Let_def)

text \<open>
  Reading one field of a word that is the union of shifted fields: the parts are looked at
  one by one, the others do not reach the field.
\<close>

lemma fits_drop: "fits k x \<Longrightarrow> k \<le> j \<Longrightarrow> drop_bit j (ucast (x :: 'a::len word) :: u32) = 0"
  by (rule bit_word_eqI) (auto simp: bit_simps dest: fits_bit)

lemma fits_drop_same: "fits k x \<Longrightarrow> k \<le> j \<Longrightarrow> drop_bit j (x :: u32) = 0"
  by (rule bit_word_eqI) (auto simp: bit_simps dest: fits_bit)

lemma fits_byte: "fits 8 (x :: u8)"
  by (simp add: fits_def take_bit_word_eq_self)

lemma fits_half: "fits 16 (x :: u16)"
  by (simp add: fits_def take_bit_word_eq_self)

lemma fits_get: "fits w x \<Longrightarrow> ucast (take_bit w (ucast (x :: 'a::len word) :: u32)) = x" if "LENGTH('a) \<le> 32"
  using that by (intro bit_word_eqI) (auto simp: bit_simps dest: fits_bit bit_imp_le_length)

lemma fits_take: "fits w x \<Longrightarrow> take_bit w x = x"
  by (simp add: fits_def)

lemma field_above: "n + w \<le> m \<Longrightarrow> take_bit w (drop_bit n (push_bit m (x :: u32))) = 0"
  by (rule bit_word_eqI) (auto simp: bit_simps)

lemma field_above0: "w \<le> m \<Longrightarrow> take_bit w (push_bit m (x :: u32)) = 0"
  by (rule bit_word_eqI) (auto simp: bit_simps)

lemma field_below: "m \<le> n \<Longrightarrow> drop_bit (n - m) x = 0 \<Longrightarrow> take_bit w (drop_bit n (push_bit m (x :: u32))) = 0"
proof (rule bit_word_eqI)
  fix i assume m: "m \<le> n" and z: "drop_bit (n - m) x = 0"
  have "\<not> bit (drop_bit (n - m) x) i" by (simp add: z)
  then have "\<not> bit x (n - m + i)" by (simp add: bit_drop_bit_eq)
  then show "bit (take_bit w (drop_bit n (push_bit m x))) i = bit (0 :: u32) i"
    using m by (auto simp: bit_simps)
qed

lemma field_self: "n + w \<le> 32 \<Longrightarrow> take_bit w (drop_bit n (push_bit n (x :: u32))) = take_bit w x"
  by (rule bit_word_eqI) (auto simp: bit_simps)

lemma take_drop_zero: "w \<le> j \<Longrightarrow> drop_bit j (take_bit w (x :: u32)) = 0"
  by (rule bit_word_eqI) (auto simp: bit_simps)

lemma take_of_take: "w \<le> v \<Longrightarrow> take_bit w (take_bit v (x :: u32)) = take_bit w x"
  by (simp add: min_def)

lemma mask_take:
  "(x :: u32) AND 1 = take_bit 1 x" "x AND 3 = take_bit 2 x" "x AND 7 = take_bit 3 x" "x AND 0xf = take_bit 4 x"
  "x AND 0x1f = take_bit 5 x" "x AND 0x7f = take_bit 7 x" "x AND 0xff = take_bit 8 x" "x AND 0x3ff = take_bit 10 x"
  "x AND 0x7ff = take_bit 11 x" "x AND 0xfff = take_bit 12 x" "x AND 0xffff = take_bit 16 x" "x AND 0xffffff = take_bit 24 x"
  by (simp_all add: take_bit_eq_mask mask_eq_exp_minus_1)

lemmas read_field = mask_take drop_bit_or take_bit_or field_above field_above0 field_below field_self
  take_drop_zero take_of_take or.left_neutral or.right_neutral take_bit_of_0 drop_bit_of_0

lemmas no_one_rules = push_bit_of_1 and_one_eq one_and_eq One_nat_def take_bit_Suc_0

lemma dw5_fields:
  fixes ba m sl va pf :: u8 and vf :: u16
  assumes f: "fits 7 ba" "fits 1 m" "fits 5 sl" "fits 1 va" "fits 11 vf" "fits 3 pf"
  defines "w \<equiv> push_bit 25 (ucast ba) OR push_bit 24 (ucast m) OR push_bit 15 (ucast sl) OR
    push_bit 14 (ucast va) OR push_bit 3 (ucast vf) OR ucast pf :: u32"
  shows "ucast (drop_bit 25 w AND 0x7f) = ba" "ucast (drop_bit 24 w AND 1) = m" "ucast (drop_bit 15 w AND 0x1f) = sl"
    "ucast (drop_bit 14 w AND 1) = va" "ucast (drop_bit 3 w AND 0x7ff) = vf" "ucast (w AND 7) = pf"
  unfolding w_def using f
  by (simp_all add: read_field fits_get f [THEN fits_drop] del: no_one_rules)

lemma fits_bool: "fits 1 (of_bool p :: u32)"
  by (cases p) (simp_all add: fits_def)

lemma dw4_fields:
  fixes p :: bool and pt :: u8 and pr :: u32
  assumes f: "fits 5 pt" "fits 24 pr"
  defines "w \<equiv> push_bit 29 (of_bool p) OR push_bit 24 (ucast pt) OR pr :: u32"
  shows "drop_bit 29 w AND 1 \<noteq> 0 \<longleftrightarrow> p" "ucast (drop_bit 24 w AND 0x1f) = pt" "w AND 0xffffff = pr"
proof -
  have "drop_bit 29 w AND 1 = of_bool p"
    unfolding w_def using f fits_bool [of p]
    by (simp add: read_field fits_take f(1) [THEN fits_drop] f(2) [THEN fits_drop_same]
        del: no_one_rules of_bool_eq)
  then show "drop_bit 29 w AND 1 \<noteq> 0 \<longleftrightarrow> p" by simp
  show "ucast (drop_bit 24 w AND 0x1f) = pt" "w AND 0xffffff = pr"
    unfolding w_def using f
    by (simp_all add: read_field fits_get fits_take f(1) [THEN fits_drop] f(2) [THEN fits_drop_same]
        del: no_one_rules of_bool_eq)
qed

lemma dw0_fields:
  fixes f :: u8 and t :: u16 and l :: u32
  defines "w \<equiv> push_bit 24 (ucast f) OR push_bit 23 (ucast (drop_bit 9 t) AND 1) OR
          push_bit 19 (ucast (drop_bit 8 t) AND 1) OR (drop_bit 2 l AND 0x3ff) :: u32"
  shows "ucast (drop_bit 24 w AND 0xff) = f" "w AND 0x3ff = drop_bit 2 l AND 0x3ff"
    "drop_bit 23 w AND 1 = ucast (drop_bit 9 t) AND 1" "drop_bit 19 w AND 1 = ucast (drop_bit 8 t) AND 1"
    "drop_bit 17 w AND 1 = 0" "drop_bit 16 w AND 1 = 0" "drop_bit 15 w AND 1 = 0" "drop_bit 14 w AND 1 = 0"
    "drop_bit 10 w AND 3 = 0"
  unfolding w_def
  by (simp_all add: read_field fits_get fits_byte del: no_one_rules)

lemma low2_zero:
  fixes l :: "'a::len word"
  assumes "l AND 3 = 0" and "bit l i"
  shows "2 \<le> i"
proof -
  have "take_bit 2 l = 0" using assms(1) by (simp add: take_bit_eq_mask mask_eq_exp_minus_1)
  then have "\<not> bit (take_bit 2 l) i" by simp
  then show ?thesis using assms(2) by (simp add: bit_take_bit_iff)
qed

lemma len_words:
  fixes l :: u32
  assumes "fits 12 l" and "l AND 3 = 0"
  shows "push_bit 2 (drop_bit 2 l AND 0x3ff) = l"
proof (rule bit_word_eqI)
  fix n assume n: "n < LENGTH(32)"
  show "bit (push_bit 2 (drop_bit 2 l AND 0x3ff)) n = bit l n"
  proof (cases "2 \<le> n")
    case True
    then obtain m where "n = 2 + m" by (auto simp: le_iff_add)
    then show ?thesis using n fits_bit [OF assms(1), of n] by (auto simp: mask_take bit_simps)
  next
    case False
    then show ?thesis using low2_zero [OF assms(2), of n] by (auto simp: bit_simps)
  qed
qed

lemma tag_parts:
  fixes t :: u16
  assumes "fits 10 t"
  shows "ucast (push_bit 9 (ucast (drop_bit 9 t) AND 1) OR push_bit 8 (ucast (drop_bit 8 t) AND 1) OR
    (ucast t AND 0xff) :: u32) = t"
proof (rule bit_word_eqI)
  fix i assume i: "i < LENGTH(16)"
  have "i < 8 \<or> i = 8 \<or> i = 9 \<or> 10 \<le> i" by linarith
  then show "bit (ucast (push_bit 9 (ucast (drop_bit 9 t) AND 1) OR push_bit 8 (ucast (drop_bit 8 t) AND 1) OR
    (ucast t AND 0xff) :: u32) :: u16) i = bit t i"
    using i fits_bit [OF assms, of i] by (elim disjE) (auto simp: mask_take bit_simps simp del: no_one_rules)
qed

lemma metadata_halves: "push_bit 32 (ucast (ucast (drop_bit 32 (m :: u64)) :: u32)) OR ucast (ucast m :: u32) = m"
  by (rule bit_word_eqI) (auto simp: bit_simps)

section \<open>Fields of each kind of packet\<close>

lemma mem_dw1:
  fixes r t :: u16 and lb fb :: u8
  assumes f: "fits 4 lb" "fits 4 fb"
  defines "w \<equiv> push_bit 16 (ucast r) OR push_bit 8 (ucast t AND 0xff) OR push_bit 4 (ucast lb) OR ucast fb :: u32"
  shows "ucast (drop_bit 16 w AND 0xffff) = r" "drop_bit 8 w AND 0xff = ucast t AND 0xff"
    "ucast (drop_bit 4 w AND 0xf) = lb" "ucast (w AND 0xf) = fb"
  unfolding w_def using f
  by (simp_all add: read_field fits_get fits_half f [THEN fits_drop] del: no_one_rules)

lemma cpl_dw2:
  fixes r t :: u16 and la :: u32
  assumes f: "fits 7 la"
  defines "w \<equiv> push_bit 16 (ucast r) OR push_bit 8 (ucast t AND 0xff) OR (la AND 0x7f) :: u32"
  shows "ucast (drop_bit 16 w AND 0xffff) = r" "drop_bit 8 w AND 0xff = ucast t AND 0xff" "w AND 0x7f = la"
  unfolding w_def using f
  by (simp_all add: read_field fits_get fits_half fits_take f [THEN fits_drop_same] del: no_one_rules)

lemma cpl_dw1:
  fixes c :: u16 and st b :: u8 and n :: u16
  assumes f: "fits 3 st" "fits 1 b" "fits 12 n"
  defines "w \<equiv> push_bit 16 (ucast c) OR push_bit 13 (ucast st) OR push_bit 12 (ucast b) OR ucast n :: u32"
  shows "ucast (drop_bit 16 w AND 0xffff) = c" "ucast (drop_bit 13 w AND 7) = st"
    "ucast (drop_bit 12 w AND 1) = b" "ucast (w AND 0xfff) = n"
  unfolding w_def using f
  by (simp_all add: read_field fits_get fits_half f [THEN fits_drop] del: no_one_rules)

lemma msg_dw1:
  fixes r t :: u16 and c :: u8
  defines "w \<equiv> push_bit 16 (ucast r) OR push_bit 8 (ucast t AND 0xff) OR ucast c :: u32"
  shows "ucast (drop_bit 16 w AND 0xffff) = r" "drop_bit 8 w AND 0xff = ucast t AND 0xff" "ucast (w AND 0xff) = c"
  unfolding w_def
  by (simp_all add: read_field fits_get fits_half fits_byte fits_drop [OF fits_byte] del: no_one_rules)

lemma addr_words:
  fixes a :: u64
  assumes "a AND 3 = 0"
  shows "push_bit 32 (ucast (ucast (drop_bit 32 a) :: u32)) OR
     ucast ((x AND 3 OR push_bit 2 (ucast (drop_bit 2 a)) :: u32) AND NOT 3) = a"
proof (rule bit_word_eqI)
  fix n assume n: "n < LENGTH(64)"
  consider "n < 2" | m where "n = 2 + m" "n < 32" | m where "n = 32 + m"
    by (metis le_add_diff_inverse not_less)
  then show "bit (push_bit 32 (ucast (ucast (drop_bit 32 a) :: u32)) OR
     ucast ((x AND 3 OR push_bit 2 (ucast (drop_bit 2 a)) :: u32) AND NOT 3) :: u64) n = bit a n"
  proof cases
    case 1
    then show ?thesis using low2_zero [OF assms, of n] by (auto simp: bit_simps ase_bits)
  next
    case 2
    then show ?thesis by (auto simp: bit_simps ase_bits)
  next
    case 3
    then show ?thesis using n by (auto simp: bit_simps ase_bits)
  qed
qed

lemma addr_word: "fits 32 a \<Longrightarrow> ucast (ucast a :: u32) = a" for a :: u64
  by (rule bit_word_eqI) (auto simp: bit_simps dest: fits_bit)

section \<open>Properties\<close>

lemma unpack_common:
  assumes "hdr_common_ok h"
    and "d 0 = push_bit 24 (ucast (fmt_type h)) OR push_bit 23 (ucast (drop_bit 9 (tag h)) AND 1) OR
          push_bit 19 (ucast (drop_bit 8 (tag h)) AND 1) OR (drop_bit 2 (len_bytes h) AND 0x3ff)"
    and "d 5 = push_bit 25 (ucast (bar_number h)) OR push_bit 24 (ucast (mm_mode h)) OR
          push_bit 15 (ucast (slot_num h)) OR push_bit 14 (ucast (vf_active h)) OR
          push_bit 3 (ucast (vf_num h)) OR ucast (pf_num h)"
    and "d 4 = push_bit 29 (of_bool (pref_present h)) OR push_bit 24 (ucast (pref_type h)) OR pref h"
    and "d 7 = ucast (metadata h)" and "d 6 = ucast (drop_bit 32 (metadata h))"
  shows "hdr_unpack_common d (dm_mode h) =
    h\<lparr>req_id := 0, tag := 0, len_bytes := 0, u_req := u_req pcie_ss_tlp_hdr_reset,
      u_cpl := u_cpl pcie_ss_tlp_hdr_reset, u_intr := u_intr pcie_ss_tlp_hdr_reset,
      u_msg := u_msg pcie_ss_tlp_hdr_reset\<rparr>"
proof -
  note ok = assms(1) [unfolded hdr_common_ok_def]
  have f: "fits 7 (bar_number h)" "fits 1 (mm_mode h)" "fits 5 (slot_num h)" "fits 1 (vf_active h)"
    "fits 11 (vf_num h)" "fits 3 (pf_num h)" "fits 5 (pref_type h)" "fits 24 (pref h)" using ok by blast+
  note w5 = dw5_fields [OF f(1-6)] and w4 = dw4_fields [OF f(7,8), of "pref_present h"]
  show ?thesis
    unfolding hdr_unpack_common_def Let_def svGet_words get32 assms(2-) w5 w4 dw0_fields(1) metadata_halves
    by (rule hdr_upk.equality) (simp_all add: pcie_ss_tlp_hdr_reset_def)
qed

lemma pack_dm_bit: "bit (tuser (pcie_ss_tlp_hdr_pack tw uw hw b h) 0) 0 \<longleftrightarrow> dm_mode h"
  by (simp add: pcie_ss_tlp_hdr_pack_def Let_def svPutPartselBit_def bit_simps)

lemma pack_tdata:
  "tdata (pcie_ss_tlp_hdr_pack tw uw hw b h) =
     (let d = hdr_pack_common h (tdata (pcie_ss_tlp_payload_reset tw uw b)) in
      if tlp_func_is_mem_req (fmt_type h) then hdr_pack_mem h d
      else if tlp_func_is_completion (fmt_type h) then hdr_pack_cpl h d
      else if \<not> dm_mode h \<and> tlp_func_is_msg (fmt_type h) then hdr_pack_msg h d
      else d)"
  by (simp add: pcie_ss_tlp_hdr_pack_def Let_def)

lemma tag_get:
  fixes f :: u8 and t :: u16 and l v :: u32
  assumes "fits 10 t" and "drop_bit 8 v AND 0xff = ucast t AND 0xff"
  shows "hdr_get_tag (push_bit 24 (ucast f) OR push_bit 23 (ucast (drop_bit 9 t) AND 1) OR
          push_bit 19 (ucast (drop_bit 8 t) AND 1) OR (drop_bit 2 l AND 0x3ff)) v = t"
  unfolding hdr_get_tag_def dw0_fields assms(2) by (rule tag_parts [OF assms(1)])

text \<open>What the three packers leave on the bus, and what the three decoders make of it.\<close>

lemma pack_mem_words:
  assumes "d1 = hdr_pack_mem h d"
  shows "i \<in> {0, 4, 5, 6, 7} \<Longrightarrow> d1 i = d i"
    and "d1 1 = push_bit 16 (ucast (req_id h)) OR push_bit 8 (ucast (tag h) AND 0xff) OR
      push_bit 4 (ucast (last_dw_be (u_req h))) OR ucast (first_dw_be (u_req h))"
    and "tlp_func_is_addr64 (fmt_type h) \<Longrightarrow> d1 2 = ucast (drop_bit 32 (req_addr (u_req h)))"
    and "tlp_func_is_addr64 (fmt_type h) \<Longrightarrow> d1 3 = (d 3 AND 3) OR push_bit 2 (ucast (drop_bit 2 (req_addr (u_req h))))"
    and "\<not> tlp_func_is_addr64 (fmt_type h) \<Longrightarrow> d1 2 = ucast (req_addr (u_req h))"
  by (auto simp: assms hdr_pack_mem_def Let_def)

lemma pack_cpl_words:
  assumes "d1 = hdr_pack_cpl h d" and "\<not> dm_mode h"
  shows "i \<in> {0, 4, 5, 6, 7} \<Longrightarrow> d1 i = d i"
    and "d1 2 = push_bit 16 (ucast (req_id h)) OR push_bit 8 (ucast (tag h) AND 0xff) OR (low_addr (u_cpl h) AND 0x7f)"
    and "d1 1 = push_bit 16 (ucast (comp_id (u_cpl h))) OR push_bit 13 (ucast (cpl_status (u_cpl h))) OR
      push_bit 12 (ucast (bcm (u_cpl h))) OR ucast (byte_count (u_cpl h))"
  using assms by (auto simp: hdr_pack_cpl_def Let_def)

lemma pack_msg_words:
  assumes "d1 = hdr_pack_msg h d"
  shows "i \<in> {0, 4, 5, 6, 7} \<Longrightarrow> d1 i = d i"
    and "d1 1 = push_bit 16 (ucast (req_id h)) OR push_bit 8 (ucast (tag h) AND 0xff) OR ucast (msg_code (u_msg h))"
    and "d1 2 = msg1 (u_msg h)" and "d1 3 = msg2 (u_msg h)"
  by (auto simp: assms hdr_pack_msg_def Let_def)

definition dw0_of :: "hdr_upk \<Rightarrow> u32" where
  "dw0_of h = push_bit 24 (ucast (fmt_type h)) OR push_bit 23 (ucast (drop_bit 9 (tag h)) AND 1) OR
     push_bit 19 (ucast (drop_bit 8 (tag h)) AND 1) OR (drop_bit 2 (len_bytes h) AND 0x3ff)"

lemma dw0_of:
  assumes "hdr_common_ok h"
  shows "push_bit 2 (dw0_of h AND 0x3ff) = len_bytes h"
    and "drop_bit 8 v AND 0xff = ucast (tag h) AND 0xff \<Longrightarrow> hdr_get_tag (dw0_of h) v = tag h"
    and "drop_bit 17 (dw0_of h) AND 1 = 0" "drop_bit 16 (dw0_of h) AND 1 = 0" "drop_bit 15 (dw0_of h) AND 1 = 0"
    "drop_bit 14 (dw0_of h) AND 1 = 0" "drop_bit 10 (dw0_of h) AND 3 = 0"
proof -
  have f: "fits 10 (tag h)" "fits 12 (len_bytes h)" "len_bytes h AND 3 = 0" using assms by (simp_all add: hdr_common_ok_def)
  show "push_bit 2 (dw0_of h AND 0x3ff) = len_bytes h" unfolding dw0_of_def dw0_fields by (rule len_words [OF f(2,3)])
  show "hdr_get_tag (dw0_of h) v = tag h" if "drop_bit 8 v AND 0xff = ucast (tag h) AND 0xff"
    unfolding dw0_of_def by (rule tag_get [OF f(1) that])
  show "drop_bit 17 (dw0_of h) AND 1 = 0" "drop_bit 16 (dw0_of h) AND 1 = 0" "drop_bit 15 (dw0_of h) AND 1 = 0"
    "drop_bit 14 (dw0_of h) AND 1 = 0" "drop_bit 10 (dw0_of h) AND 3 = 0"
    unfolding dw0_of_def by (rule dw0_fields)+
qed

abbreviation (input) cleared :: "hdr_upk \<Rightarrow> hdr_upk" where
  "cleared h \<equiv> h\<lparr>req_id := 0, tag := 0, len_bytes := 0, u_req := u_req pcie_ss_tlp_hdr_reset,
      u_cpl := u_cpl pcie_ss_tlp_hdr_reset, u_intr := u_intr pcie_ss_tlp_hdr_reset,
      u_msg := u_msg pcie_ss_tlp_hdr_reset\<rparr>"

lemma unpack_packed_mem:
  assumes c: "hdr_common_ok h" and r: "hdr_req_ok h" and dm: "\<not> dm_mode h" and d0: "d 0 = dw0_of h"
    and z: "u_cpl h = u_cpl pcie_ss_tlp_hdr_reset" "u_msg h = u_msg pcie_ss_tlp_hdr_reset" "u_intr h = u_intr pcie_ss_tlp_hdr_reset"
  shows "hdr_unpack_mem (hdr_pack_mem h d) (cleared h) = h"
proof -
  define d1 where "d1 = hdr_pack_mem h d"
  note w = pack_mem_words [OF d1_def]
  have f: "fits 4 (last_dw_be (u_req h))" "fits 4 (first_dw_be (u_req h))" using r by (simp_all add: hdr_req_ok_def)
  note m = mem_dw1 [OF f, of "req_id h" "tag h", folded w(2)]
  have z0: "d1 0 = dw0_of h" using w(1) [of 0] d0 by simp
  have a: "(if tlp_func_is_addr64 (fmt_type h) then push_bit 32 (ucast (d1 2)) OR ucast (d1 3 AND NOT 3) else ucast (d1 2)) =
      req_addr (u_req h)"
    using r w(3,4,5) addr_words [of "req_addr (u_req h)" "d 3"] addr_word [of "req_addr (u_req h)"]
    by (simp add: hdr_req_ok_def split: if_splits)
  have "req_attr (u_req h) = \<lparr>ln = False, th = False, td = False, ep = False, at_type = 0\<rparr>"
    using r by (simp add: hdr_req_ok_def pcie_ss_tlp_hdr_reset_def)
  then have q: "u_req h = \<lparr>req_addr = req_addr (u_req h), last_dw_be = last_dw_be (u_req h),
      first_dw_be = first_dw_be (u_req h), req_attr = \<lparr>ln = False, th = False, td = False, ep = False, at_type = 0\<rparr>\<rparr>"
    by (intro hdr_req.equality) simp_all
  show ?thesis
    unfolding d1_def [symmetric] hdr_unpack_mem_def Let_def svGet_words get32 z0 m dw0_of(1,3-) [OF c]
      dw0_of(2) [OF c m(2)]
    using dm z by (intro hdr_upk.equality) (simp_all add: a q [symmetric])
qed

lemma unpack_packed_cpl:
  assumes c: "hdr_common_ok h" and r: "hdr_cpl_ok h" and dm: "\<not> dm_mode h" and d0: "d 0 = dw0_of h"
    and z: "u_req h = u_req pcie_ss_tlp_hdr_reset" "u_msg h = u_msg pcie_ss_tlp_hdr_reset" "u_intr h = u_intr pcie_ss_tlp_hdr_reset"
  shows "hdr_unpack_cpl (hdr_pack_cpl h d) (cleared h) = h"
proof -
  define d1 where "d1 = hdr_pack_cpl h d"
  note w = pack_cpl_words [OF d1_def dm]
  have f: "fits 3 (cpl_status (u_cpl h))" "fits 1 (bcm (u_cpl h))" "fits 12 (byte_count (u_cpl h))"
    "fits 7 (low_addr (u_cpl h))" "fc (u_cpl h) = False" using r by (simp_all add: hdr_cpl_ok_def)
  note m = cpl_dw2 [OF f(4), of "req_id h" "tag h", folded w(2)] and n = cpl_dw1 [OF f(1-3), of "comp_id (u_cpl h)", folded w(3)]
  have z0: "d1 0 = dw0_of h" using w(1) [of 0] d0 by simp
  have q: "(u_cpl pcie_ss_tlp_hdr_reset)\<lparr>low_addr := low_addr (u_cpl h), comp_id := comp_id (u_cpl h),
      cpl_status := cpl_status (u_cpl h), bcm := bcm (u_cpl h), byte_count := byte_count (u_cpl h)\<rparr> = u_cpl h"
    by (rule hdr_cpl.equality) (simp_all add: pcie_ss_tlp_hdr_reset_def f(5))
  show ?thesis
    unfolding d1_def [symmetric] hdr_unpack_cpl_def Let_def svGet_words get32 z0 m n dw0_of(1) [OF c]
      dw0_of(2) [OF c m(2)]
    using z q by (intro hdr_upk.equality) simp_all
qed

lemma unpack_packed_msg:
  assumes c: "hdr_common_ok h" and r: "hdr_msg_ok h" and d0: "d 0 = dw0_of h"
    and z: "u_req h = u_req pcie_ss_tlp_hdr_reset" "u_cpl h = u_cpl pcie_ss_tlp_hdr_reset" "u_intr h = u_intr pcie_ss_tlp_hdr_reset"
  shows "hdr_unpack_msg (hdr_pack_msg h d) (cleared h) = h"
proof -
  define d1 where "d1 = hdr_pack_msg h d"
  note w = pack_msg_words [OF d1_def]
  note m = msg_dw1 [of "req_id h" "tag h" "msg_code (u_msg h)", folded w(2)]
  have z0: "d1 0 = dw0_of h" using w(1) [of 0] d0 by simp
  have "ucast (ucast (tag h) AND 0xff :: u32) = (ucast (tag h) :: u8)"
    by (rule bit_word_eqI) (auto simp: mask_take bit_simps)
  then have q: "\<lparr>msg2 = msg2 (u_msg h), msg1 = msg1 (u_msg h), msg0 = ucast (ucast (tag h) AND 0xff :: u32),
      msg_code = msg_code (u_msg h)\<rparr> = u_msg h"
    using r by (intro hdr_msg.equality) (simp_all add: hdr_msg_ok_def)
  show ?thesis
    unfolding d1_def [symmetric] hdr_unpack_msg_def Let_def svGet_words get32 z0 dw0_of(1) [OF c]
      dw0_of(2) [OF c m(2)] m w(3,4) q
    using z by (intro hdr_upk.equality) simp_all
qed


definition demo_hdr :: hdr_upk where
  "demo_hdr = pcie_ss_tlp_hdr_reset\<lparr>fmt_type := PCIE_FMTTYPE_MEM_READ64, tag := 0x3a5, len_bytes := 256,
     req_id := 0x1234, pf_num := 1, vf_num := 5, vf_active := 1,
     u_req := \<lparr>req_addr = 0x7f0012345678, last_dw_be = 15, first_dw_be = 15,
       req_attr = req_attr (u_req pcie_ss_tlp_hdr_reset)\<rparr>\<rparr>"


lemma tlp_mem_not_cpl: "\<not> (tlp_func_is_mem_req x \<and> tlp_func_is_completion x)"
proof
  assume a: "tlp_func_is_mem_req x \<and> tlp_func_is_completion x"
  then have e: "x AND 0x1f = 0xa" by (simp add: tlp_func_is_completion_def PCIE_TYPE_CPL_def)
  have "x AND 0x1c = (x AND 0x1f) AND 0x1c" by (simp add: and.assoc)
  then have "x AND 0x1c = 0x08" using e by simp
  then show False using a e by (auto simp: tlp_func_is_mem_req_def PCIE_TYPE_MEM_RW_def func_is_atomic_req_def)
qed

lemma tlp_msg_bits:
  assumes "tlp_func_is_msg x"
  shows "bit x 4" and "\<not> bit x 3"
proof -
  have "bit (x AND 0xb8) 4 = bit (0x30 :: u8) 4" "bit (x AND 0xb8) 3 = bit (0x30 :: u8) 3"
    using assms by (simp_all add: tlp_func_is_msg_def)
  then show "bit x 4" "\<not> bit x 3" by (simp_all add: bit_and_iff)
qed

lemma tlp_mem_cpl_bit4:
  assumes "tlp_func_is_mem_req x \<or> tlp_func_is_completion x"
  shows "\<not> bit x 4"
proof -
  have "x AND 0x1f = 0 \<or> x AND 0x1c = 0xc \<or> x AND 0x1f = 0xa"
    using assms by (auto simp: tlp_func_is_mem_req_def tlp_func_is_completion_def PCIE_TYPE_CPL_def PCIE_TYPE_MEM_RW_def func_is_atomic_req_def)
  then have "bit (x AND 0x1f) 4 = bit (0 :: u8) 4 \<or> bit (x AND 0x1c) 4 = bit (0xc :: u8) 4 \<or> bit (x AND 0x1f) 4 = bit (0xa :: u8) 4" by auto
  then show ?thesis by (auto simp: bit_and_iff)
qed

lemma tlp_interrupt_is_msg: "tlp_func_is_interrupt_req x \<Longrightarrow> tlp_func_is_msg x"
  by (simp add: tlp_func_is_interrupt_req_def tlp_func_is_msg_def PCIE_FMTTYPE_INTR_def)

lemma tlp_mem_only:
  assumes "tlp_func_is_mem_req x"
  shows "\<not> tlp_func_is_completion x" and "\<not> tlp_func_is_msg x" and "\<not> tlp_func_is_interrupt_req x"
  using assms tlp_mem_not_cpl tlp_msg_bits(1) tlp_mem_cpl_bit4 tlp_interrupt_is_msg by blast+

lemma tlp_cpl_only:
  assumes "tlp_func_is_completion x"
  shows "\<not> tlp_func_is_mem_req x" and "\<not> tlp_func_is_msg x" and "\<not> tlp_func_is_interrupt_req x"
  using assms tlp_mem_not_cpl tlp_msg_bits(1) tlp_mem_cpl_bit4 tlp_interrupt_is_msg by blast+

text \<open>
  C39: The kinds of packet are told apart by the format and type byte. No byte is both a memory
  request and a completion or a message, none both a completion and a message, reads and
  writes exclude each other, and an atomic request is a memory request with data.
  However every interrupt request is a message: a packet of that type that is not in data
  mover mode is decoded as a message, and the error that the decoder has for it is never
  reported.
\<close>

theorem tlp_kinds_disjoint:
  "\<not> (tlp_func_is_mem_req f \<and> tlp_func_is_completion f) \<and> \<not> (tlp_func_is_mem_req f \<and> tlp_func_is_msg f) \<and>
   \<not> (tlp_func_is_completion f \<and> tlp_func_is_msg f) \<and> \<not> (tlp_func_is_mwr_req f \<and> tlp_func_is_mrd_req f) \<and>
   (\<not> func_is_atomic_req f \<or> tlp_func_is_mwr_req f) \<and> (\<not> tlp_func_is_interrupt_req f \<or> tlp_func_is_msg f) \<and>
   snd (pcie_ss_tlp_hdr_unpack b) = (bit (tuser b 0) 0 \<and> tlp_func_is_completion (ucast (drop_bit 24 (tdata b 0) AND 0xff)))"
proof -
  have f: "fmt_type (hdr_unpack_common d dm) = ucast (drop_bit 24 (d 0) AND 0xff)" "dm_mode (hdr_unpack_common d dm) = dm" for d dm
    by (simp_all add: hdr_unpack_common_def Let_def)
  show ?thesis
    using tlp_mem_not_cpl tlp_msg_bits [of f] tlp_mem_cpl_bit4 [of f] tlp_interrupt_is_msg
    by (auto simp: tlp_func_is_mwr_req_def tlp_func_is_mrd_req_def func_is_atomic_req_def tlp_func_has_data_def
        tlp_func_is_mem_req_def pcie_ss_tlp_hdr_unpack_def Let_def f)
qed

theorem tlp_kinds_disjoint_witness:
  "tlp_func_is_interrupt_req PCIE_FMTTYPE_INTR \<and> tlp_func_is_msg PCIE_FMTTYPE_INTR \<and>
   \<not> snd (pcie_ss_tlp_hdr_unpack \<lparr>tdata = (\<lambda>_. 0x30000000), tuser = (\<lambda>_. 0), tkeep = (\<lambda>_. 0)\<rparr>)"
proof -
  have i: "tlp_func_is_interrupt_req PCIE_FMTTYPE_INTR" by (simp add: tlp_func_is_interrupt_req_def)
  show ?thesis
    using tlp_kinds_disjoint [of PCIE_FMTTYPE_INTR "\<lparr>tdata = (\<lambda>_. 0x30000000), tuser = (\<lambda>_. 0), tkeep = (\<lambda>_. 0)\<rparr>"] i
    by simp
qed

lemma fits_ucast: "fits w x \<Longrightarrow> take_bit w (ucast x :: u32) = ucast (x :: 'a::len word)"
  by (rule bit_word_eqI) (auto simp: bit_simps dest: fits_bit)

lemma glue_len:
  fixes l :: u32
  assumes "fits 14 l"
  shows "push_bit 12 (take_bit 2 (drop_bit 12 l)) OR push_bit 2 (take_bit 10 (drop_bit 2 l)) OR take_bit 2 l = l"
proof (rule bit_word_eqI)
  fix n assume n: "n < LENGTH(32)"
  consider "n < 2" | m where "n = 2 + m" "m < 10" | m where "n = 12 + m"
  proof -
    assume a: "n < 2 \<Longrightarrow> thesis" "\<And>m. n = 2 + m \<Longrightarrow> m < 10 \<Longrightarrow> thesis" "\<And>m. n = 12 + m \<Longrightarrow> thesis"
    have "n < 2 \<or> n = 2 + (n - 2) \<and> n - 2 < 10 \<or> n = 12 + (n - 12)" by linarith
    then show thesis using a by blast
  qed
  then show "bit (push_bit 12 (take_bit 2 (drop_bit 12 l)) OR push_bit 2 (take_bit 10 (drop_bit 2 l)) OR take_bit 2 l) n = bit l n"
    using fits_bit [OF assms, of n] n by cases (auto simp: bit_simps)
qed

lemma glue_low_addr:
  fixes a :: u32
  assumes "fits 24 a"
  shows "push_bit 8 (take_bit 16 (drop_bit 8 a)) OR take_bit 8 ((x AND NOT 0xff) OR (a AND 0xff)) = a"
proof (rule bit_word_eqI)
  fix n assume n: "n < LENGTH(32)"
  consider "n < 8" | m where "n = 8 + m" by (metis le_add_diff_inverse not_less)
  then show "bit (push_bit 8 (take_bit 16 (drop_bit 8 a)) OR take_bit 8 ((x AND NOT 0xff) OR (a AND 0xff))) n = bit a n"
    using fits_bit [OF assms, of n] n by cases (auto simp: bit_simps ase_bits)
qed

text \<open>
  C38: The completion that the host sends for a data mover read has the documented layout: the
  tag, the 14 bit length, the 24 bit lower address, the final-completion flag and the status
  are found in the bits that the comment on the encoded data mover completion header gives.
\<close>

theorem dm_completion_layout:
  assumes "dm_mode h" and "tlp_func_is_completion (fmt_type h)" and "fits 10 (tag h)" and "fits 14 (len_bytes h)"
    and "fits 24 (low_addr (u_cpl h))" and "fits 3 (cpl_status (u_cpl h))"
    and "d = tdata (pcie_ss_tlp_hdr_pack tw uw hw b h)"
  shows "take_bit 10 (drop_bit 22 (d 3)) = ucast (tag h) \<and> bit (d 3) 21 = fc (u_cpl h) \<and>
    push_bit 12 (take_bit 2 (drop_bit 18 (d 3))) OR push_bit 2 (take_bit 10 (d 0)) OR take_bit 2 (drop_bit 16 (d 3)) = len_bytes h \<and>
    push_bit 8 (take_bit 16 (d 3)) OR take_bit 8 (d 2) = low_addr (u_cpl h) \<and>
    take_bit 3 (drop_bit 13 (d 1)) = ucast (cpl_status (u_cpl h)) \<and> bit (tuser (pcie_ss_tlp_hdr_pack tw uw hw b h) 0) 0"
proof -
  have nm: "\<not> tlp_func_is_mem_req (fmt_type h)" using assms(2) tlp_mem_not_cpl by blast
  define c where "c = u_cpl h"
  define w3 where "w3 = push_bit 22 (ucast (tag h)) OR push_bit 21 (of_bool (fc c)) OR
    push_bit 18 (drop_bit 12 (len_bytes h) AND 3) OR push_bit 16 (len_bytes h AND 3) OR (drop_bit 8 (low_addr c) AND 0xffff)"
  have w: "d 3 = w3" "\<exists>x. d 2 = (x AND NOT 0xff) OR (low_addr c AND 0xff)" "d 1 = push_bit 13 (ucast (cpl_status c))" "d 0 = dw0_of h"
    using assms(1,2) nm by (auto simp: assms(7) pack_tdata Let_def hdr_pack_cpl_def pack_common w3_def c_def dw0_of_def)
  obtain x where x: "d 2 = (x AND NOT 0xff) OR (low_addr c AND 0xff)" using w(2) by blast
  have t: "take_bit 10 (drop_bit 22 w3) = ucast (tag h)"
    using assms(3) fits_bool [of "fc c"] unfolding w3_def
    by (simp add: read_field fits_drop_same fits_ucast del: no_one_rules of_bool_eq)
  have b: "bit w3 21 = fc c" by (simp add: w3_def bit_simps mask_take)
  have l: "take_bit 2 (drop_bit 18 w3) = take_bit 2 (drop_bit 12 (len_bytes h))" "take_bit 2 (drop_bit 16 w3) = take_bit 2 (len_bytes h)"
    "take_bit 16 w3 = take_bit 16 (drop_bit 8 (low_addr c))"
    unfolding w3_def by (simp_all add: read_field del: no_one_rules of_bool_eq)
  have l0: "take_bit 10 (d 0) = take_bit 10 (drop_bit 2 (len_bytes h))"
    using dw0_fields(2) [of "fmt_type h" "tag h" "len_bytes h"] by (simp add: w(4) dw0_of_def mask_take)
  have s: "take_bit 3 (drop_bit 13 (d 1)) = ucast (cpl_status c)"
    unfolding w(3) using assms(6) by (simp add: field_self fits_ucast c_def)
  show ?thesis
    unfolding w(1) t l l0 s [unfolded c_def] glue_len [OF assms(4)] x c_def glue_low_addr [OF assms(5)]
    using b assms(1) by (simp add: c_def pack_dm_bit)
qed

theorem dm_completion_layout_witness:
  "\<exists>h d. dm_mode h \<and> d = tdata (pcie_ss_tlp_hdr_pack 512 10 8 \<lparr>tdata = (\<lambda>_. 0), tuser = (\<lambda>_. 0), tkeep = (\<lambda>_. 0)\<rparr> h) \<and>
     take_bit 10 (drop_bit 22 (d 3)) = 0x155 \<and> push_bit 8 (take_bit 16 (d 3)) OR take_bit 8 (d 2) = 0x123456"
proof -
  define h where "h = pcie_ss_tlp_hdr_reset\<lparr>dm_mode := True, fmt_type := PCIE_FMTTYPE_CPLD, tag := 0x155, len_bytes := 64,
    u_cpl := \<lparr>comp_id = 0, cpl_status = 0, bcm = 0, byte_count = 64, low_addr = 0x123456, fc = True\<rparr>\<rparr>"
  have "tlp_func_is_completion (fmt_type h)" "dm_mode h" "fits 10 (tag h)" "fits 14 (len_bytes h)"
    "fits 24 (low_addr (u_cpl h))" "fits 3 (cpl_status (u_cpl h))"
    by (simp_all add: h_def fits_def tlp_func_is_completion_def PCIE_FMTTYPE_CPLD_def PCIE_TYPE_CPL_def)
  note t = dm_completion_layout [OF this(2,1,3-6) refl, of 512 10 8 "\<lparr>tdata = (\<lambda>_. 0), tuser = (\<lambda>_. 0), tkeep = (\<lambda>_. 0)\<rparr>"]
  show ?thesis by (intro exI conjI) (use t in \<open>auto simp: h_def\<close>)
qed

text \<open>
  The function numbers that travel in a requester or completer id come back: decoding what
  \<open>pcie_ss_enc_vf_id\<close> made gives the virtual function, its active flag and the physical
  function, for a physical function below 8.
\<close>

theorem vf_id_roundtrip:
  assumes "fits 28 vf" and "fits 3 pf"
  shows "pcie_ss_dec_vf_id (pcie_ss_enc_vf_id vf act pf) = (vf, act, pf)"
proof -
  define w where "w = pcie_ss_enc_vf_id vf act pf"
  note e = w_def [unfolded pcie_ss_enc_vf_id_def]
  have "take_bit 28 (drop_bit 4 w) = vf"
    unfolding e using assms fits_bool [of act]
    by (simp add: read_field fits_take assms [THEN fits_drop_same] fits_bool [THEN fits_drop_same] del: no_one_rules of_bool_eq)
  moreover have "take_bit 28 (drop_bit 4 w) = drop_bit 4 w" by (rule bit_word_eqI) (auto simp: bit_simps dest: bit_imp_le_length)
  ultimately have a: "drop_bit 4 w = vf" by simp
  have "drop_bit 3 w AND 1 = of_bool act"
    unfolding e using assms fits_bool [of act]
    by (simp add: read_field fits_take assms [THEN fits_drop_same] del: no_one_rules of_bool_eq)
  moreover have "w AND 7 = pf"
    unfolding e using assms by (simp add: read_field fits_take del: no_one_rules of_bool_eq)
  ultimately show ?thesis unfolding w_def [symmetric] by (simp add: pcie_ss_dec_vf_id_def a)
qed

theorem vf_id_roundtrip_witness: "pcie_ss_dec_vf_id (pcie_ss_enc_vf_id 5 True 1) = (5, True, 1)"
  by (rule vf_id_roundtrip) (simp_all add: fits_def)

end
