(* ===== verification/Tlp_Stream.thy ===== *)
theory Tlp_Stream
  imports Tlp_Header Membus Mmio_Scoreboard
begin

text \<open>
  The PCIe transaction layer of the simulator, \<open>src/ase/sw/pcie_ss_tlp/pcie_ss_tlp_stream.c\<close>:
  its state, its random numbers, and the direction from the simulated hardware to the host.
  Each beat of the stream is one step. The messages that the code sends to the application
  are appended to a list, the messages from the application wait in lists.

  An error in a packet is reported and starts the countdown that ends the simulation, but the
  code goes on; the field \<open>killed\<close> records it and the step continues as the code does. An
  access outside an array, which can follow such an error, is the fault \<open>Segv\<close>. The
  configuration that the hardware passes to \<open>pcie_ss_param_init\<close> holds counts and sizes, which
  are natural numbers here. A queue is never closed: the status \<open>ASE_MSG_ERROR\<close> of
  \<open>mqueue_recv\<close> does not occur. Log output is left out. The process id in the prefix of a
  request is left out too: the application does not use it.
\<close>

section \<open>Definitions\<close>

subsection \<open>Configuration and state\<close>

record ss_param_cfg =
  tdata_width_bits :: nat
  tuser_width_bits :: nat
  max_outstanding_dma_rd_reqs :: nat
  max_outstanding_mmio_rd_reqs :: nat
  num_afu_interrupts :: nat
  max_rd_req_bytes :: nat
  max_wr_payload_bytes :: nat
  max_dm_rd_req_bytes :: nat
  max_dm_wr_payload_bytes :: nat
  request_completion_boundary :: nat
  ordered_completions :: bool
  emulate_tag_mapper :: bool
  num_afu_ports :: nat

definition tlp_hdr_dwords :: nat where "tlp_hdr_dwords = 8"

definition tlp_tdata_dwords :: "ss_param_cfg \<Rightarrow> nat" where
  "tlp_tdata_dwords cfg = tdata_width_bits cfg div 32"

definition max_any_rd_req_bytes :: "ss_param_cfg \<Rightarrow> nat" where
  "max_any_rd_req_bytes cfg = max (max_rd_req_bytes cfg) (max_dm_rd_req_bytes cfg)"

definition max_any_wr_payload_bytes :: "ss_param_cfg \<Rightarrow> nat" where
  "max_any_wr_payload_bytes cfg = max (max_wr_payload_bytes cfg) (max_dm_wr_payload_bytes cfg)"

record mmio_read_st =
  mrs_start_cycle :: u64
  mrs_tid :: u16
  mrs_busy :: bool

record dma_read_st =
  drs_start_cycle :: u64
  drs_req_hdr :: hdr_upk
  drs_busy :: bool

text \<open>A completion packet that waits to be sent; \<open>rc_state\<close> is the index of its read state.\<close>

record read_cpl =
  rc_state :: nat
  rc_data :: "u8 list"
  rc_len_bytes :: u16
  rc_start_dw :: u16
  rc_byte_count :: u16
  rc_is_first :: bool
  rc_is_last :: bool

text \<open>The packet that a function collects over several beats: its static variables.\<close>

record collect =
  c_hdr :: hdr_upk
  c_next_dw :: u32
  c_payload :: "nat \<Rightarrow> u32"

datatype tlp_state = TLP_STATE_SOP | TLP_STATE_CPL | TLP_STATE_MWR | TLP_STATE_MRD

datatype out_msg = OutWrite write_req "u8 list" | OutRead read_req | OutMsg pcie_msg_hdr
  | OutMmio mmio_pkt | OutIntr u32

record tlp =
  next_rand :: u64
  cur_cycle :: u64
  mmio_read_state :: "mmio_read_st list"
  mmio_req_dw_rem :: u32
  last_mmio_req_cycle :: u64
  dma_read_state :: "dma_read_st list"
  dma_read_state_free_head :: u64
  dma_read_cpls :: "read_cpl list"
  dma_read_cpl_dw_rem :: u32
  num_dma_reads_pending :: u32
  num_dma_writes_pending :: u32
  cpld_pkt :: collect
  cpld_qword :: "u8 list"
  mwr_pkt :: collect
  mmio_reqs :: "mmio_pkt list"
  afu_to_host_state :: tlp_state
  host_to_afu_state :: tlp_state
  a2h_hdr :: hdr_upk
  killed :: bool
  sent :: "out_msg list"
  wr_rsp_q :: "write_rsp list"
  rd_rsp_q :: "rd_msg list"
  pcie_msg_q :: "(pcie_msg_hdr \<times> u32 list) list"

definition READ_STATE_NULL :: u64 where "READ_STATE_NULL = NOT 0"

definition start_simkill_countdown :: "tlp \<Rightarrow> tlp" where
  "start_simkill_countdown s = s\<lparr>killed := True\<rparr>"

definition kill_if :: "bool \<Rightarrow> tlp \<Rightarrow> tlp" where
  "kill_if b s = (if b then start_simkill_countdown s else s)"

definition send :: "out_msg \<Rightarrow> tlp \<Rightarrow> tlp" where
  "send m s = s\<lparr>sent := sent s @ [m]\<rparr>"

subsection \<open>Utilities\<close>

text \<open>\<open>pcie_tlp_rand\<close>; \<open>unlimited\<close> says whether \<open>ASE_UNLIMITED_BW\<close> is in the environment.\<close>

definition pcie_tlp_rand :: "bool \<Rightarrow> tlp \<Rightarrow> u32 \<times> tlp" where
  "pcie_tlp_rand unlimited s =
     (if unlimited then (0, s)
      else let r = next_rand s * 1103515245 + 12345
           in (ucast (r div 65536) mod 32768, s\<lparr>next_rand := r\<rparr>))"

text \<open>
  The number of zero bits below the first one bit, and above the last one bit of four. The
  masks have 8 bits, so a loop that has not found a one after 8 steps never will.
\<close>

fun zeros_low :: "nat \<Rightarrow> u8 \<Rightarrow> nat res" where
  "zeros_low 0 be = Inl Blocked"
| "zeros_low (Suc n) be = (if be AND 1 \<noteq> 0 then Inr 0 else map_sum id Suc (zeros_low n (drop_bit 1 be)))"

fun zeros_high :: "nat \<Rightarrow> u8 \<Rightarrow> nat res" where
  "zeros_high 0 be = Inl Blocked"
| "zeros_high (Suc n) be = (if be AND 8 \<noteq> 0 then Inr 0 else map_sum id Suc (zeros_high n (push_bit 1 be)))"

definition pcie_cpl_lower_addr_byte_offset :: "u8 \<Rightarrow> u8 res" where
  "pcie_cpl_lower_addr_byte_offset fbe =
     (if fbe = 0 then Inr 0 else rbind (zeros_low 8 fbe) (\<lambda>n. Inr (of_nat n)))"

definition pcie_cpl_byte_count :: "u16 \<Rightarrow> u8 \<Rightarrow> u8 \<Rightarrow> u16 res" where
  "pcie_cpl_byte_count len_dw fbe lbe =
     (if fbe = 0
      then (if lbe \<noteq> 0 \<or> len_dw \<noteq> 1 then Inl ExitCall else Inr 1)
      else if lbe = 0 \<and> len_dw \<noteq> 1 then Inl ExitCall
      else let lbe = (if lbe = 0 then fbe else lbe) in
        rbind (zeros_low 8 fbe) (\<lambda>a. rbind (zeros_high 8 lbe) (\<lambda>b.
          Inr (len_dw * 4 - of_nat a - of_nat b))))"

definition afu_idx_to_hdr_pf_vf :: "int \<Rightarrow> hdr_upk \<Rightarrow> hdr_upk" where
  "afu_idx_to_hdr_pf_vf afu_idx h = h\<lparr>pf_num := 0, vf_num := of_int afu_idx, vf_active := 1\<rparr>"

definition hdr_pf_vf_to_afu_idx :: "hdr_upk \<Rightarrow> int" where
  "hdr_pf_vf_to_afu_idx h = (if pf_num h \<noteq> 0 \<or> vf_active h = 0 then -1 else uint (vf_num h))"

text \<open>Bytes and words of a payload.\<close>

definition payload_bytes :: "(nat \<Rightarrow> u32) \<Rightarrow> nat \<Rightarrow> u8 list" where
  "payload_bytes p n = take n (concat (map (\<lambda>i. le_bytes 4 (p i)) [0..<(n + 3) div 4]))"

text \<open>The copy of \<open>n\<close> words of a beat into a buffer of \<open>sz\<close> bytes.\<close>

definition copy_words :: "nat \<Rightarrow> (nat \<Rightarrow> u32) \<Rightarrow> nat \<Rightarrow> bus \<Rightarrow> nat \<Rightarrow> nat \<Rightarrow> (nat \<Rightarrow> u32) res" where
  "copy_words sz p next d off n =
     (if n \<noteq> 0 \<and> 4 * (next + n) > sz then Inl Segv
      else Inr (\<lambda>j. if next \<le> j \<and> j < next + n then d (j - next + off) else p j))"

text \<open>
  The part that \<open>pcie_tlp_a2h_cpld\<close> and \<open>pcie_tlp_a2h_mwr\<close> share: the words that are still
  expected, the check of the last beat, and the copy. \<open>total_dw\<close> is the payload in words.
\<close>

definition collect_beat ::
  "ss_param_cfg \<Rightarrow> nat \<Rightarrow> bool \<Rightarrow> bool \<Rightarrow> u32 \<Rightarrow> bus \<Rightarrow> collect \<Rightarrow> (bool \<times> collect) res" where
  "collect_beat cfg sz sop tlast total_dw d c =
     (let off = (if sop then tlp_hdr_dwords else 0);
          num = of_nat (tdata_width_bits cfg div 32) - of_nat off;
          dws = total_dw - c_next_dw c;
          err = (if dws > num then tlast else \<not> tlast);
          dws = (if dws > num then num else dws)
      in rbind (copy_words sz (c_payload c) (unat (c_next_dw c)) d off (unat dws)) (\<lambda>p.
           Inr (err, c\<lparr>c_payload := p, c_next_dw := c_next_dw c + dws\<rparr>)))"

subsection \<open>Completions of MMIO reads\<close>

definition words_of_bytes :: "u8 list \<Rightarrow> u64 list" where
  "words_of_bytes bs = map (\<lambda>i. le_word (take 8 (drop (8 * i) bs))) [0..<8]"

definition cpld_illegal :: "ss_param_cfg \<Rightarrow> hdr_upk \<Rightarrow> bool" where
  "cpld_illegal cfg h =
     (unat (tag h) > max_outstanding_mmio_rd_reqs cfg \<or> len_bytes h \<noteq> ucast (byte_count (u_cpl h)) \<or>
      unat (len_bytes h) > max_rd_req_bytes cfg \<or> byte_count (u_cpl h) > 64)"

text \<open>The packet that answers an MMIO read; \<open>q\<close> holds the bytes of its data words.\<close>

definition cpld_mmio_pkt :: "mmio_read_st \<Rightarrow> hdr_upk \<Rightarrow> u8 list \<Rightarrow> mmio_pkt" where
  "cpld_mmio_pkt m h q =
     \<lparr>pkt_tid = uint (mrs_tid m), pkt_write_en = MMIO_READ_REQ, pkt_width = sint (len_bytes h * 8),
      pkt_addr = sint (low_addr (u_cpl h)), pkt_qword = words_of_bytes q, pkt_resp_en = 1,
      pkt_slot_idx = uint (tag h), pkt_afu_idx = 0\<rparr>"

definition pcie_tlp_a2h_cpld ::
  "ss_param_cfg \<Rightarrow> bool \<Rightarrow> hdr_upk option \<Rightarrow> bus \<Rightarrow> tlp \<Rightarrow> tlp res" where
  "pcie_tlp_a2h_cpld cfg tlast new_hdr d s =
     (if max_rd_req_bytes cfg = 0 then Inl AssertFail
      else let (c, s) = (case new_hdr of
              None \<Rightarrow> (cpld_pkt s, s)
            | Some h \<Rightarrow> ((cpld_pkt s)\<lparr>c_hdr := h, c_next_dw := 0\<rparr>,
                kill_if (cpld_illegal cfg h) s)) in
        rbind (collect_beat cfg (max_rd_req_bytes cfg) (new_hdr \<noteq> None) tlast (len_bytes (c_hdr c) div 4) d c)
          (\<lambda>(err, c).
            let s = kill_if err (s\<lparr>cpld_pkt := c\<rparr>); h = c_hdr c; t = unat (tag h);
                n = unat (len_bytes h) in
            if \<not> tlast then Inr s
            else if t \<ge> length (mmio_read_state s) then Inl Segv
            else if n > 64 \<or> n > max_rd_req_bytes cfg then Inl Segv
            else let m = mmio_read_state s ! t;
                     s = kill_if (\<not> mrs_busy m) s;
                     q = payload_bytes (c_payload c) n @ drop n (cpld_qword s)
                 in Inr (send (OutMmio (cpld_mmio_pkt m h q)) (s\<lparr>cpld_qword := q,
                      mmio_read_state := (mmio_read_state s)[t := m\<lparr>mrs_busy := False\<rparr>]\<rparr>))))"

subsection \<open>DMA writes\<close>

definition addr_type_of :: "u8 \<Rightarrow> addr_type" where
  "addr_type_of at = (if at = 0 then HOST_MEM_AT_UNTRANS else if at = 1 then HOST_MEM_AT_REQ_TRANS
                      else HOST_MEM_AT_TRANS)"

definition mwr_illegal :: "ss_param_cfg \<Rightarrow> hdr_upk \<Rightarrow> bool" where
  "mwr_illegal cfg h =
     (let n = unat (len_bytes h); r = u_req h; at = at_type (req_attr r) in
      (\<not> dm_mode h \<and> n > max_wr_payload_bytes cfg) \<or>
      (dm_mode h \<and> n > max_dm_wr_payload_bytes cfg) \<or>
      n = 0 \<or> first_dw_be r = 0 \<or>
      (n \<le> 4 \<and> last_dw_be r \<noteq> 0 \<and> \<not> dm_mode h) \<or>
      (n > 4 \<and> last_dw_be r = 0) \<or>
      (\<not> dm_mode h \<and> req_addr r \<le> 0xffffffff \<and> tlp_func_is_addr64 (fmt_type h)) \<or>
      at = 1 \<or> at > 2)"

definition mwr_request :: "hdr_upk \<Rightarrow> write_req" where
  "mwr_request h =
     (let r = u_req h;
          be = first_dw_be r \<noteq> 0xf \<or> (len_bytes h > 4 \<and> last_dw_be r \<noteq> 0xf)
      in \<lparr>wr_addr = req_addr r, wr_addr_type = addr_type_of (at_type (req_attr r)), byte_en = be,
          first_be = (if be then first_dw_be r else 0), last_be = (if be then last_dw_be r else 0),
          wr_data_bytes = len_bytes h, wr_afu_idx = hdr_pf_vf_to_afu_idx h\<rparr>)"

definition pcie_tlp_a2h_mwr ::
  "ss_param_cfg \<Rightarrow> bool \<Rightarrow> hdr_upk option \<Rightarrow> bus \<Rightarrow> tlp \<Rightarrow> tlp res" where
  "pcie_tlp_a2h_mwr cfg tlast new_hdr d s =
     (if max_any_wr_payload_bytes cfg = 0 then Inl AssertFail
      else let (c, s) = (case new_hdr of
              None \<Rightarrow> (mwr_pkt s, s)
            | Some h \<Rightarrow> ((mwr_pkt s)\<lparr>c_hdr := h, c_next_dw := 0\<rparr>, kill_if (mwr_illegal cfg h) s)) in
        rbind (collect_beat cfg (max_any_wr_payload_bytes cfg) (new_hdr \<noteq> None) tlast
                 ((len_bytes (c_hdr c) + 3) div 4) d c)
          (\<lambda>(err, c).
            let s = kill_if err (s\<lparr>mwr_pkt := c\<rparr>); h = c_hdr c; n = unat (len_bytes h) in
            if \<not> tlast then Inr s
            else if n > max_any_wr_payload_bytes cfg then Inl Segv
            else Inr (send (OutWrite (mwr_request h) (payload_bytes (c_payload c) n))
                   (s\<lparr>num_dma_writes_pending := num_dma_writes_pending s + 1\<rparr>))))"

subsection \<open>DMA reads and atomic updates\<close>

text \<open>The byte enables of an atomic update are reserved; the code sets them once it has checked.\<close>

definition mrd_fix_be :: "hdr_upk \<Rightarrow> hdr_upk" where
  "mrd_fix_be h =
     (let r = u_req h in
      if func_is_atomic_req (fmt_type h) \<and> first_dw_be r = 0 \<and> last_dw_be r = 0
      then h\<lparr>u_req := r\<lparr>first_dw_be := 0xf, last_dw_be := (if len_bytes h > 4 then 0xf else last_dw_be r)\<rparr>\<rparr>
      else h)"

definition mrd_illegal_atomic :: "hdr_upk \<Rightarrow> bool" where
  "mrd_illegal_atomic h =
     (let n = len_bytes h; r = u_req h in
      func_is_atomic_req (fmt_type h) \<and>
      (dm_mode h \<or>
       (if func_is_atomic_cas_req (fmt_type h) then n \<noteq> 8 \<and> n \<noteq> 16 else n \<noteq> 4 \<and> n \<noteq> 8) \<or>
       first_dw_be r \<noteq> 0 \<or> last_dw_be r \<noteq> 0))"

definition mrd_illegal_ats :: "hdr_upk \<Rightarrow> bool" where
  "mrd_illegal_ats h =
     (at_type (req_attr (u_req h)) = 1 \<and>
      (dm_mode h \<or> len_bytes h AND 1 \<noteq> 0 \<or> req_addr (u_req h) AND 0xfff \<noteq> 0 \<or> len_bytes h > 128 \<or>
       func_is_atomic_req (fmt_type h)))"

definition mrd_illegal :: "ss_param_cfg \<Rightarrow> bool \<Rightarrow> hdr_upk \<Rightarrow> bool" where
  "mrd_illegal cfg tlast h0 =
     (let h = mrd_fix_be h0; n = unat (len_bytes h); r = u_req h in
      \<not> tlast \<or>
      (\<not> dm_mode h \<and> n > max_rd_req_bytes cfg) \<or>
      (dm_mode h \<and> n > max_dm_rd_req_bytes cfg) \<or>
      n = 0 \<or> mrd_illegal_atomic h0 \<or>
      (first_dw_be r = 0 \<and> (last_dw_be r \<noteq> 0 \<or> n > 4)) \<or>
      (n \<le> 4 \<and> last_dw_be r \<noteq> 0 \<and> \<not> dm_mode h) \<or>
      (n > 4 \<and> last_dw_be r = 0) \<or>
      (\<not> dm_mode h \<and> req_addr r \<le> 0xffffffff \<and> tlp_func_is_addr64 (fmt_type h)) \<or>
      mrd_illegal_ats h \<or> at_type (req_attr r) > 2 \<or>
      unat (tag h) \<ge> max_outstanding_dma_rd_reqs cfg)"

text \<open>The operands of an atomic update, from the four words at \<open>off\<close>.\<close>

definition word_pair :: "bus \<Rightarrow> nat \<Rightarrow> u64" where
  "word_pair d i = push_bit 32 (ucast (d (i + 1))) OR ucast (d i)"

definition atomic_operands :: "u8 \<Rightarrow> u32 \<Rightarrow> bus \<Rightarrow> nat \<Rightarrow> (u8 \<times> u64 \<times> u64) option" where
  "atomic_operands f n d off =
     (if f = PCIE_FMTTYPE_FETCH_ADD32 then Some (1, ucast (d off), 0)
      else if f = PCIE_FMTTYPE_FETCH_ADD64 then Some (1, word_pair d off, 0)
      else if f = PCIE_FMTTYPE_SWAP32 then Some (2, ucast (d off), 0)
      else if f = PCIE_FMTTYPE_SWAP64 then Some (2, word_pair d off, 0)
      else if f = PCIE_FMTTYPE_CAS32 \<or> f = PCIE_FMTTYPE_CAS64
      then Some (3, if n = 4 then (ucast (d off), ucast (d (off + 1)))
                    else (word_pair d off, word_pair d (off + 2)))
      else None)"

definition mrd_request :: "hdr_upk \<Rightarrow> u32 \<Rightarrow> bus \<Rightarrow> nat \<Rightarrow> read_req" where
  "mrd_request h tg d off =
     (let r = u_req h;
          n = (if len_bytes h \<le> 4 \<and> last_dw_be r = 0 \<and> first_dw_be r = 0 then 0 else len_bytes h);
          q = \<lparr>rd_addr = req_addr r, rd_req = HOST_MEM_REQ_READ,
               rd_addr_type = addr_type_of (at_type (req_attr r)), rd_data_bytes = n, rd_tag = tg,
               rd_afu_idx = hdr_pf_vf_to_afu_idx h, atomic_wr_data0 = 0, atomic_wr_data1 = 0,
               atomic_func = 0\<rparr>
      in if func_is_atomic_req (fmt_type h)
         then let n = (if func_is_atomic_cas_req (fmt_type h) then drop_bit 1 n else n);
                  (f, a, b) = (case atomic_operands (fmt_type h) n d off of None \<Rightarrow> (0, 0, 0) | Some x \<Rightarrow> x)
              in q\<lparr>rd_req := HOST_MEM_REQ_ATOMIC, rd_data_bytes := n, atomic_func := f,
                   atomic_wr_data0 := a, atomic_wr_data1 := b\<rparr>
         else q)"

text \<open>The index of the read state: the tag, or the head of the free list of the tag mapper.\<close>

definition mrd_alloc :: "ss_param_cfg \<Rightarrow> hdr_upk \<Rightarrow> tlp \<Rightarrow> (u32 \<times> tlp) res" where
  "mrd_alloc cfg h s =
     (if emulate_tag_mapper cfg
      then let s = kill_if (dma_read_state_free_head s = READ_STATE_NULL) s;
               t = ucast (dma_read_state_free_head s)
           in if unat t \<ge> length (dma_read_state s) then Inl Segv
              else Inr (t, s\<lparr>dma_read_state_free_head := drs_start_cycle (dma_read_state s ! unat t)\<rparr>)
      else Inr (ucast (tag h), s))"

definition pcie_tlp_a2h_mrd ::
  "ss_param_cfg \<Rightarrow> u64 \<Rightarrow> bool \<Rightarrow> hdr_upk \<Rightarrow> bus \<Rightarrow> nat \<Rightarrow> tlp \<Rightarrow> tlp res" where
  "pcie_tlp_a2h_mrd cfg cycle tlast h0 d off s =
     (let h = mrd_fix_be h0; s = kill_if (mrd_illegal cfg tlast h0) (s\<lparr>a2h_hdr := h\<rparr>) in
      rbind (mrd_alloc cfg h s) (\<lambda>(tg, s).
        let t = unat tg in
        if t \<ge> length (dma_read_state s) then Inl Segv
        else let s = kill_if (drs_busy (dma_read_state s ! t)) s;
                 cas = func_is_atomic_cas_req (fmt_type h);
                 rh = (if cas then h\<lparr>len_bytes := drop_bit 1 (len_bytes h)\<rparr> else h);
                 s = s\<lparr>dma_read_state := (dma_read_state s)[t :=
                        \<lparr>drs_start_cycle = cycle, drs_req_hdr = rh, drs_busy = True\<rparr>]\<rparr>;
                 q = mrd_request h tg d off;
                 s = kill_if (func_is_atomic_req (fmt_type h) \<and>
                        atomic_operands (fmt_type h) (rd_data_bytes q) d off = None) s
             in Inr (send (OutRead q) (s\<lparr>num_dma_reads_pending := num_dma_reads_pending s + 1\<rparr>))))"

subsection \<open>Interrupts and messages\<close>

definition pcie_tlp_a2h_interrupt :: "ss_param_cfg \<Rightarrow> bool \<Rightarrow> hdr_upk \<Rightarrow> tlp \<Rightarrow> tlp" where
  "pcie_tlp_a2h_interrupt cfg tlast h s =
     (let irq_id = ucast (vector_num (u_intr h)) :: u32
      in send (OutIntr irq_id) (kill_if (\<not> tlast \<or> unat irq_id \<ge> num_afu_interrupts cfg) s))"

definition pcie_tlp_a2h_msg :: "bool \<Rightarrow> hdr_upk \<Rightarrow> tlp \<Rightarrow> tlp" where
  "pcie_tlp_a2h_msg tlast h s =
     (let m = u_msg h;
          msg_hdr = \<lparr>pm_fmt_type = fmt_type h, pm_msg_code = msg_code m, pm_len_bytes = ucast (len_bytes h),
            pm_msg0 = ucast (msg0 m), pm_msg1 = msg1 m, pm_msg2 = msg2 m,
            msg_afu_idx = hdr_pf_vf_to_afu_idx h, pm_req_id = req_id h, msg_tag = tag h\<rparr>
      in send (OutMsg msg_hdr)
           (kill_if (\<not> tlast \<or> msg_code m \<notin> {PCIE_MSGCODE_ATS_INVAL_CPL, PCIE_MSGCODE_PAGE_REQ}) s))"

subsection \<open>One beat from the hardware\<close>

definition a2h_sop :: "ss_param_cfg \<Rightarrow> u64 \<Rightarrow> bool \<Rightarrow> beat \<Rightarrow> tlp \<Rightarrow> tlp res" where
  "a2h_sop cfg cycle tlast b s =
     (let (h, k) = pcie_ss_tlp_hdr_unpack b; s = kill_if k (s\<lparr>a2h_hdr := h\<rparr>); f = fmt_type h; d = tdata b in
      if \<not> dm_mode h \<and> tlp_func_is_msg f then Inr (pcie_tlp_a2h_msg tlast h s)
      else if tlp_func_is_interrupt_req f then Inr (pcie_tlp_a2h_interrupt cfg tlast h s)
      else if tlp_func_is_completion f
      then (if \<not> tlp_func_has_data f then Inr (start_simkill_countdown s)
            else rbind (pcie_tlp_a2h_cpld cfg tlast (Some h) d s) (\<lambda>s.
              Inr (if tlast then s else s\<lparr>afu_to_host_state := TLP_STATE_CPL\<rparr>)))
      else if tlp_func_is_mem_req f
      then (if tlp_func_is_mwr_req f \<and> \<not> func_is_atomic_req f
            then rbind (pcie_tlp_a2h_mwr cfg tlast (Some h) d s) (\<lambda>s.
              Inr (if tlast then s else s\<lparr>afu_to_host_state := TLP_STATE_MWR\<rparr>))
            else if tlast then pcie_tlp_a2h_mrd cfg cycle tlast h d tlp_hdr_dwords s
            else Inr ((kill_if (tlp_tdata_dwords cfg > tlp_hdr_dwords \<or> \<not> func_is_atomic_req f) s)
                   \<lparr>afu_to_host_state := TLP_STATE_MRD\<rparr>))
      else Inr s)"

definition pcie_ss_stream_afu_to_host :: "ss_param_cfg \<Rightarrow> u64 \<Rightarrow> bool \<Rightarrow> beat \<Rightarrow> tlp \<Rightarrow> tlp res" where
  "pcie_ss_stream_afu_to_host cfg cycle tlast b s =
     rbind (case afu_to_host_state s of
              TLP_STATE_SOP \<Rightarrow> a2h_sop cfg cycle tlast b s
            | TLP_STATE_CPL \<Rightarrow> pcie_tlp_a2h_cpld cfg tlast None (tdata b) s
            | TLP_STATE_MWR \<Rightarrow> pcie_tlp_a2h_mwr cfg tlast None (tdata b) s
            | TLP_STATE_MRD \<Rightarrow> pcie_tlp_a2h_mrd cfg cycle tlast (a2h_hdr s) (tdata b) 0 (kill_if (\<not> tlast) s))
       (\<lambda>s. Inr (if tlast then s\<lparr>afu_to_host_state := TLP_STATE_SOP\<rparr> else s))"

definition pcie_ss_stream_afu_to_host_tready :: "bool \<Rightarrow> u64 \<Rightarrow> tlp \<Rightarrow> bool \<times> tlp" where
  "pcie_ss_stream_afu_to_host_tready unlimited cycle s =
     (let (r, s) = pcie_tlp_rand unlimited (s\<lparr>cur_cycle := cycle\<rparr>)
      in (r AND 0xff < 0xf0 \<and> dma_read_state_free_head s \<noteq> READ_STATE_NULL, s))"

definition pcie_ss_reset :: "tlp \<Rightarrow> tlp" where
  "pcie_ss_reset s = s\<lparr>afu_to_host_state := TLP_STATE_SOP, host_to_afu_state := TLP_STATE_SOP\<rparr>"

text \<open>
  \<open>pcie_ss_param_init\<close>: the vectors of read states are cleared and the free list is built
  through the start cycles. The write that ends the list is outside the array if it is empty.
\<close>

definition pcie_ss_param_init :: "ss_param_cfg \<Rightarrow> tlp \<Rightarrow> tlp res" where
  "pcie_ss_param_init cfg s =
     (let n = max_outstanding_dma_rd_reqs cfg;
          m0 = \<lparr>mrs_start_cycle = 0, mrs_tid = 0, mrs_busy = False\<rparr>;
          d = map (\<lambda>i. \<lparr>drs_start_cycle = of_nat (i + 1), drs_req_hdr = pcie_ss_tlp_hdr_reset, drs_busy = False\<rparr>) [0..<n]
      in if n = 0 then Inl Segv
         else Inr (s\<lparr>mmio_read_state := replicate (max_outstanding_mmio_rd_reqs cfg) m0,
                dma_read_cpls := [], dma_read_cpl_dw_rem := 0,
                dma_read_state := d[n - 1 := (d ! (n - 1))\<lparr>drs_start_cycle := READ_STATE_NULL\<rparr>],
                dma_read_state_free_head := 0\<rparr>))"

section \<open>A configuration and the state before the first beat, for examples\<close>

definition demo_cfg :: ss_param_cfg where
  "demo_cfg = \<lparr>tdata_width_bits = 512, tuser_width_bits = 10, max_outstanding_dma_rd_reqs = 4,
     max_outstanding_mmio_rd_reqs = 2, num_afu_interrupts = 4, max_rd_req_bytes = 512,
     max_wr_payload_bytes = 512, max_dm_rd_req_bytes = 4096, max_dm_wr_payload_bytes = 4096,
     request_completion_boundary = 64, ordered_completions = False, emulate_tag_mapper = True,
     num_afu_ports = 1\<rparr>"

definition demo_tlp :: tlp where
  "demo_tlp = (let c = \<lparr>c_hdr = pcie_ss_tlp_hdr_reset, c_next_dw = 0, c_payload = (\<lambda>_. 0)\<rparr> in
     \<lparr>next_rand = 1, cur_cycle = 0, mmio_read_state = [], mmio_req_dw_rem = 0, last_mmio_req_cycle = 0,
      dma_read_state = [], dma_read_state_free_head = 0, dma_read_cpls = [], dma_read_cpl_dw_rem = 0,
      num_dma_reads_pending = 0, num_dma_writes_pending = 0, cpld_pkt = c, cpld_qword = replicate 64 0,
      mwr_pkt = c, mmio_reqs = [], afu_to_host_state = TLP_STATE_SOP, host_to_afu_state = TLP_STATE_SOP,
      a2h_hdr = pcie_ss_tlp_hdr_reset, killed = False, sent = [], wr_rsp_q = [], rd_rsp_q = [],
      pcie_msg_q = []\<rparr>)"

end
