(* ===== verification/Tlp_Completion.thy ===== *)
theory Tlp_Completion
  imports Tlp_Stream
begin

text \<open>
  Responses of the application in the transaction layer of \<open>pcie_ss_tlp_stream.c\<close>: write
  responses are counted, read responses are split into completion packets of random length
  and put on the list of pending completions in a random order that PCIe allows.

  The queues hold the messages of the application in the order in which they arrive. The
  code waits in a loop while a read is pending, so a queue that ends before the last response
  is the fault \<open>Blocked\<close>, and so is a message of the wrong kind, which the application does
  not send. The doubly linked list of completions is a list, its head first. The buffer of a
  response is fresh memory: \<open>junk\<close> gives the contents of the part that the response does
  not fill. The loop that splits a response takes at least one word in each turn, unless the
  completion boundary exceeds the largest read; \<open>fuel\<close> bounds its turns.
\<close>

section \<open>Definitions\<close>

fun write_responses :: "write_rsp list \<Rightarrow> tlp \<Rightarrow> tlp" where
  "write_responses [] s = s\<lparr>wr_rsp_q := []\<rparr>"
| "write_responses (r # rs) s =
     (if num_dma_writes_pending s = 0 then s\<lparr>wr_rsp_q := r # rs\<rparr>
      else if wrsp_status r \<noteq> HOST_MEM_STATUS_VALID then start_simkill_countdown (s\<lparr>wr_rsp_q := rs\<rparr>)
      else write_responses rs (s\<lparr>num_dma_writes_pending := num_dma_writes_pending s - 1\<rparr>))"

definition pcie_complete_dma_writes :: "tlp \<Rightarrow> tlp" where
  "pcie_complete_dma_writes s = write_responses (wr_rsp_q s) s"

definition random_cpl_length :: "ss_param_cfg \<Rightarrow> bool \<Rightarrow> u32 \<Rightarrow> bool \<Rightarrow> tlp \<Rightarrow> (u32 \<times> tlp) res" where
  "random_cpl_length cfg unlimited len_dw_rem dm_encoded s =
     (let rcb = request_completion_boundary cfg in
      if \<not> (ordered_completions cfg \<and> dm_encoded) \<and> len_dw_rem > of_nat (rcb div 4)
      then if rcb = 0 then Inl Sigfpe
           else let max_chunks = of_nat (max_rd_req_bytes cfg div rcb);
                    (rand_num, s) = pcie_tlp_rand unlimited s
                in if rand_num \<noteq> 0 \<and> max_chunks = 0 then Inl Sigfpe
                   else let rand_chunks = (if rand_num = 0 then max_chunks else 1 + rand_num mod max_chunks);
                            rand_length = rand_chunks * of_nat rcb div 4
                        in Inr (if len_dw_rem \<le> rand_length then len_dw_rem else rand_length, s)
      else Inr (len_dw_rem, s))"

text \<open>
  \<open>walk_back n st cs p\<close>: the new completion goes behind the first \<open>p\<close> packets of the list \<open>cs\<close>;
  \<open>p = 0\<close> is the pointer NULL. A packet of the same request or the head ends the walk.
\<close>

fun walk_back :: "nat \<Rightarrow> nat \<Rightarrow> read_cpl list \<Rightarrow> nat \<Rightarrow> nat" where
  "walk_back 0 st cs p = p"
| "walk_back (Suc n) st cs p =
     (if p = 0 then walk_back n st cs p
      else if rc_state (cs ! (p - 1)) = st then p
      else if p = 1 then p
      else walk_back n st cs (p - 1))"

definition later_rsp :: "u32 \<Rightarrow> nat" where
  "later_rsp r = (if r \<ge> 0x80 \<or> r = 0 then 0 else if r \<ge> 0x20 then 5 else if r \<ge> 0x10 then 2 else 1)"

definition push_new_read_cpl :: "ss_param_cfg \<Rightarrow> bool \<Rightarrow> read_cpl \<Rightarrow> tlp \<Rightarrow> tlp" where
  "push_new_read_cpl cfg unlimited c s =
     (let (r, s) = (if ordered_completions cfg then (0, s)
                    else let (r, s) = pcie_tlp_rand unlimited s in (r AND 0xff, s));
          cs = dma_read_cpls s;
          p = walk_back (later_rsp r) (rc_state c) cs (length cs)
      in s\<lparr>dma_read_cpls := take p cs @ c # drop p cs\<rparr>)"

text \<open>One turn of the loop adds one packet; the loop ends with the last words.\<close>

fun split_read_rsp ::
  "nat \<Rightarrow> ss_param_cfg \<Rightarrow> bool \<Rightarrow> nat \<Rightarrow> hdr_upk \<Rightarrow> u8 list \<Rightarrow> u32 \<Rightarrow> u32 \<Rightarrow> u32 \<Rightarrow> u32 \<Rightarrow> tlp \<Rightarrow> tlp res" where
  "split_read_rsp 0 cfg unlimited st h data len_dw_rem len_bytes_rem byte_count_rem start_dw s = Inl Blocked"
| "split_read_rsp (Suc fuel) cfg unlimited st h data len_dw_rem len_bytes_rem byte_count_rem start_dw s =
     rbind (random_cpl_length cfg unlimited len_dw_rem (dm_mode h) s) (\<lambda>(this_len_dw, s).
       let is_first = (start_dw = 0); is_last = (this_len_dw = len_dw_rem);
           c = \<lparr>rc_state = st, rc_data = data,
                rc_len_bytes = ucast (if is_last then len_bytes_rem else this_len_dw * 4),
                rc_start_dw = ucast start_dw, rc_byte_count = ucast byte_count_rem,
                rc_is_first = is_first, rc_is_last = is_last\<rparr>;
           s = push_new_read_cpl cfg unlimited c s
       in rbind (pcie_cpl_byte_count (ucast this_len_dw)
                   (if is_first then first_dw_be (u_req h) else 0xf)
                   (if is_last then last_dw_be (u_req h) else 0xf)) (\<lambda>n.
            let byte_count_rem = byte_count_rem - ucast n; len_dw_rem = len_dw_rem - this_len_dw;
                len_bytes_rem = len_bytes_rem - this_len_dw * 4; start_dw = start_dw + this_len_dw
            in if (len_dw_rem = 0) \<noteq> is_last then Inl AssertFail
               else if len_dw_rem > 0
               then split_read_rsp fuel cfg unlimited st h data len_dw_rem len_bytes_rem byte_count_rem start_dw s
               else if byte_count_rem \<noteq> 0 then Inl AssertFail
               else Inr s))"

text \<open>The part of \<open>pcie_receive_dma_reads\<close> that queues one response with its data.\<close>

definition queue_read_rsp :: "ss_param_cfg \<Rightarrow> bool \<Rightarrow> (nat \<Rightarrow> u8) \<Rightarrow> read_rsp \<Rightarrow> u8 list \<Rightarrow> tlp \<Rightarrow> tlp res" where
  "queue_read_rsp cfg unlimited junk r data s =
     (let sz = max_any_rd_req_bytes cfg; t = unat (rsp_tag r) in
      if length data > sz then Inl Segv
      else if t \<ge> length (dma_read_state s) then Inl Segv
      else let h = drs_req_hdr (dma_read_state s ! t);
               len_dw_rem = (len_bytes h + 3) div 4;
               buf = data @ map junk [length data..<sz];
               s = s\<lparr>num_dma_reads_pending := num_dma_reads_pending s - 1\<rparr>
           in rbind (pcie_cpl_byte_count (ucast len_dw_rem) (first_dw_be (u_req h)) (last_dw_be (u_req h))) (\<lambda>n.
                split_read_rsp (Suc (unat len_dw_rem)) cfg unlimited t h buf len_dw_rem (len_bytes h) (ucast n) 0 s))"

fun read_responses :: "ss_param_cfg \<Rightarrow> bool \<Rightarrow> (nat \<Rightarrow> u8) \<Rightarrow> rd_msg list \<Rightarrow> tlp \<Rightarrow> tlp res" where
  "read_responses cfg unlimited junk q s =
     (if num_dma_reads_pending s = 0 then Inr (s\<lparr>rd_rsp_q := q\<rparr>)
      else case q of
        RdRsp r # q \<Rightarrow>
          (if rsp_status r \<noteq> HOST_MEM_STATUS_VALID then Inr (start_simkill_countdown (s\<lparr>rd_rsp_q := q\<rparr>))
           else if rsp_data_bytes r = 0
           then rbind (queue_read_rsp cfg unlimited junk r [] s) (read_responses cfg unlimited junk q)
           else (case q of
               RdPayload data # q \<Rightarrow>
                 rbind (queue_read_rsp cfg unlimited junk r data s) (read_responses cfg unlimited junk q)
             | _ \<Rightarrow> Inl Blocked))
      | _ \<Rightarrow> Inl Blocked)"

definition pcie_receive_dma_reads :: "ss_param_cfg \<Rightarrow> bool \<Rightarrow> (nat \<Rightarrow> u8) \<Rightarrow> tlp \<Rightarrow> tlp res" where
  "pcie_receive_dma_reads cfg unlimited junk s = read_responses cfg unlimited junk (rd_rsp_q s) s"

section \<open>The order of completions\<close>

lemma walk_back_bounds: "p \<le> length cs \<Longrightarrow> walk_back n st cs p \<le> p \<and> (0 < p \<longrightarrow> 0 < walk_back n st cs p)"
proof (induction n arbitrary: p)
  case (Suc n)
  have "p - 1 \<le> length cs" "p - 1 \<le> p" using Suc.prems by simp_all
  then show ?case using Suc.IH [of p] Suc.IH [of "p - 1"] Suc.prems by (auto intro: le_trans)
qed simp

lemma walk_back_skips:
  assumes "p \<le> length cs" and "walk_back n st cs p \<le> i" and "i < p"
  shows "rc_state (cs ! i) \<noteq> st"
  using assms
proof (induction n arbitrary: p)
  case (Suc n)
  show ?case using Suc.IH [of "p - 1"] Suc.prems by (cases "i = p - 1") (auto split: if_splits)
qed simp

lemma rand_state: "\<exists>r x. pcie_tlp_rand unlimited s = (x, s\<lparr>next_rand := r\<rparr>) \<and> x < 32768"
proof (cases unlimited)
  case True
  then have "pcie_tlp_rand unlimited s = (0, s\<lparr>next_rand := next_rand s\<rparr>)" by (simp add: pcie_tlp_rand_def)
  then show ?thesis by fastforce
next
  case False
  have "(ucast ((next_rand s * 1103515245 + 12345) div 65536) :: u32) mod 32768 < 32768"
    by (rule word_mod_less_divisor) simp
  then show ?thesis using False by (auto simp: pcie_tlp_rand_def Let_def)
qed

text \<open>A new completion goes behind every packet of the same request, and never before the head.\<close>

lemma push_position:
  "\<exists>r xs ys. dma_read_cpls s = xs @ ys \<and> (\<forall>y \<in> set ys. rc_state y \<noteq> rc_state c) \<and> (dma_read_cpls s = [] \<or> xs \<noteq> []) \<and>
     push_new_read_cpl cfg unlimited c s = s\<lparr>next_rand := r, dma_read_cpls := xs @ c # ys\<rparr>"
proof -
  let ?cs = "dma_read_cpls s"
  obtain q r where r: "(if ordered_completions cfg then (0, s)
      else let (r, s) = pcie_tlp_rand unlimited s in (r AND 0xff, s)) = (q, s\<lparr>next_rand := r\<rparr>)"
  proof (cases "ordered_completions cfg")
    case True
    then show ?thesis using that [of 0 "next_rand s"] by simp
  next
    case False
    then show ?thesis using that rand_state [of unlimited s] by auto
  qed
  define p where "p = walk_back (later_rsp q) (rc_state c) ?cs (length ?cs)"
  have p: "p \<le> length ?cs" "0 < length ?cs \<longrightarrow> 0 < p"
    using walk_back_bounds [of "length ?cs" ?cs] by (auto simp: p_def)
  have "push_new_read_cpl cfg unlimited c s = s\<lparr>next_rand := r, dma_read_cpls := take p ?cs @ c # drop p ?cs\<rparr>"
    unfolding push_new_read_cpl_def Let_def r [unfolded Let_def] by (simp add: p_def)
  moreover have "rc_state y \<noteq> rc_state c" if y: "y \<in> set (drop p ?cs)" for y
  proof -
    obtain i where i: "i < length (drop p ?cs)" "y = drop p ?cs ! i" using y by (auto simp: in_set_conv_nth)
    have "rc_state (?cs ! (p + i)) \<noteq> rc_state c"
      by (rule walk_back_skips [of "length ?cs" _ "later_rsp q"]) (use i(1) in \<open>auto simp flip: p_def\<close>)
    then show ?thesis using i p(1) by simp
  qed
  ultimately show ?thesis
    using p by (intro exI [of _ r] exI [of _ "take p ?cs"] exI [of _ "drop p ?cs"]) auto
qed

text \<open>
  The effect of queueing the packets \<open>new\<close> of one request: the packets of the request are
  followed by the new ones, the packets of all others keep their order, the head stays, and
  nothing else changes but the random numbers.
\<close>

definition queued :: "nat \<Rightarrow> read_cpl list \<Rightarrow> tlp \<Rightarrow> tlp \<Rightarrow> bool" where
  "queued st new s s' \<longleftrightarrow> s' = s\<lparr>next_rand := next_rand s', dma_read_cpls := dma_read_cpls s'\<rparr> \<and>
     filter (\<lambda>c. rc_state c = st) (dma_read_cpls s') = filter (\<lambda>c. rc_state c = st) (dma_read_cpls s) @ new \<and>
     filter (\<lambda>c. rc_state c \<noteq> st) (dma_read_cpls s') = filter (\<lambda>c. rc_state c \<noteq> st) (dma_read_cpls s) \<and>
     (dma_read_cpls s = [] \<or> dma_read_cpls s' \<noteq> [] \<and> List.hd (dma_read_cpls s') = List.hd (dma_read_cpls s))"

lemma queued_rand: "queued st [] s (s\<lparr>next_rand := r\<rparr>)"
  by (simp add: queued_def)

lemma queued_trans:
  assumes "queued st xs s s1" and "queued st ys s1 s2"
  shows "queued st (xs @ ys) s s2"
proof -
  have e: "s1 = s\<lparr>next_rand := next_rand s1, dma_read_cpls := dma_read_cpls s1\<rparr>"
    "s2 = s1\<lparr>next_rand := next_rand s2, dma_read_cpls := dma_read_cpls s2\<rparr>"
    using assms by (simp_all add: queued_def)
  have "s2 = s\<lparr>next_rand := next_rand s2, dma_read_cpls := dma_read_cpls s2\<rparr>"
    by (subst e(2), subst e(1)) simp
  then show ?thesis using assms by (auto simp: queued_def)
qed

lemma queued_push: "queued (rc_state c) [c] s (push_new_read_cpl cfg unlimited c s)"
proof -
  obtain r xs ys where p: "dma_read_cpls s = xs @ ys" "\<forall>y \<in> set ys. rc_state y \<noteq> rc_state c" "dma_read_cpls s = [] \<or> xs \<noteq> []"
    "push_new_read_cpl cfg unlimited c s = s\<lparr>next_rand := r, dma_read_cpls := xs @ c # ys\<rparr>"
    using push_position by blast
  have "filter (\<lambda>y. rc_state y = rc_state c) ys = []" using p(2) by (simp add: filter_empty_conv)
  then show ?thesis unfolding queued_def p(4)
    using p(1,3) by auto
qed

section \<open>The length of a completion\<close>

text \<open>A configuration that PCIe allows: the boundary is a number of words and fits in a read.\<close>

definition split_cfg_ok :: "ss_param_cfg \<Rightarrow> bool" where
  "split_cfg_ok cfg \<longleftrightarrow> 0 < request_completion_boundary cfg \<and> 4 dvd request_completion_boundary cfg \<and>
     request_completion_boundary cfg \<le> max_rd_req_bytes cfg \<and> max_rd_req_bytes cfg < 2 ^ 16"

lemma u32_mult:
  assumes "a * b < 2 ^ 32"
  shows "unat (of_nat a * of_nat b :: u32) = a * b"
  using assms by (metis of_nat_mult u32_of_nat)

lemma cpl_length:
  assumes cfg: "split_cfg_ok cfg" and rem: "0 < unat rem"
  shows "\<exists>len r. random_cpl_length cfg unlimited rem dm s = Inr (len, s\<lparr>next_rand := r\<rparr>) \<and>
    0 < unat len \<and> unat len \<le> unat rem \<and> (len = rem \<or> request_completion_boundary cfg dvd 4 * unat len)"
proof -
  define rcb where "rcb = request_completion_boundary cfg"
  define mx where "mx = max_rd_req_bytes cfg div rcb"
  obtain q where q: "rcb = 4 * q" "0 < q" using cfg by (auto simp: split_cfg_ok_def rcb_def)
  have mx: "0 < mx" "mx * rcb \<le> max_rd_req_bytes cfg" "max_rd_req_bytes cfg < 2 ^ 16"
    using cfg by (auto simp: split_cfg_ok_def rcb_def mx_def div_greater_zero_iff)
  have "mx \<le> mx * rcb" using q by simp
  then have mx16: "mx < 2 ^ 16" using mx(2,3) by linarith
  show ?thesis
  proof (cases "\<not> (ordered_completions cfg \<and> dm) \<and> rem > of_nat (rcb div 4)")
    case False
    then have "random_cpl_length cfg unlimited rem dm s = Inr (rem, s\<lparr>next_rand := next_rand s\<rparr>)"
      by (auto simp: random_cpl_length_def Let_def rcb_def)
    then show ?thesis using rem by blast
  next
    case True
    obtain x r where x: "pcie_tlp_rand unlimited s = (x, s\<lparr>next_rand := r\<rparr>)" using rand_state by blast
    define k where "k = (if x = 0 then mx else 1 + unat x mod mx)"
    have um: "unat (of_nat mx :: u32) = mx" using mx16 by (intro u32_of_nat) simp
    have k: "0 < k" "k \<le> mx" using mx(1) by (auto simp: k_def Suc_le_eq)
    have "k * rcb \<le> max_rd_req_bytes cfg" by (rule le_trans [OF mult_le_mono1 [OF k(2)] mx(2)])
    then have kk: "k * rcb < 2 ^ 32" using mx(3) by simp
    have "unat x mod mx < mx" using mx(1) by simp
    then have "unat x mod mx < 2 ^ 32" using mx16 by (elim less_trans) simp
    then have "x mod of_nat mx = of_nat (unat x mod mx)"
      by (simp add: word_unat_eq_iff unat_mod um u32_of_nat del: unat_of_nat)
    then have ku: "(if x = 0 then of_nat mx else 1 + x mod of_nat mx) = (of_nat k :: u32)" by (simp add: k_def)
    define rl where "rl = (of_nat k * of_nat rcb div 4 :: u32)"
    have rl: "unat rl = k * q" using u32_mult [OF kk] q by (simp add: rl_def unat_div)
    have e: "random_cpl_length cfg unlimited rem dm s = Inr (if rem \<le> rl then rem else rl, s\<lparr>next_rand := r\<rparr>)"
      using True q(2) mx(1) um unfolding random_cpl_length_def Let_def x rcb_def [symmetric] mx_def [symmetric] prod.case
      unfolding ku rl_def [symmetric] using q(1) by auto
    have "rcb dvd 4 * unat rl" by (simp add: rl q)
    then show ?thesis
      unfolding e rcb_def [symmetric] using rem k q rl by (auto simp: word_le_nat_alt not_le)
  qed
qed

section \<open>Byte counts\<close>

lemma nibble_cases:
  assumes "(x :: u8) < 16"
  obtains "x = 0" | "x = 1" | "x = 2" | "x = 3" | "x = 4" | "x = 5" | "x = 6" | "x = 7" | "x = 8" | "x = 9"
    | "x = 10" | "x = 11" | "x = 12" | "x = 13" | "x = 14" | "x = 15"
proof -
  have "unat x < 16" using assms by (simp add: word_less_nat_alt)
  then have "unat x = 0 \<or> unat x = 1 \<or> unat x = 2 \<or> unat x = 3 \<or> unat x = 4 \<or> unat x = 5 \<or> unat x = 6 \<or> unat x = 7 \<or>
      unat x = 8 \<or> unat x = 9 \<or> unat x = 10 \<or> unat x = 11 \<or> unat x = 12 \<or> unat x = 13 \<or> unat x = 14 \<or> unat x = 15"
    by arith
  then show ?thesis using that by (elim disjE) (simp_all add: word_unat_eq_iff)
qed

lemma zeros_numeral:
  "zeros_low (numeral n) x = (if x AND 1 \<noteq> 0 then Inr 0 else map_sum id Suc (zeros_low (pred_numeral n) (drop_bit 1 x)))"
  "zeros_high (numeral n) x = (if x AND 8 \<noteq> 0 then Inr 0 else map_sum id Suc (zeros_high (pred_numeral n) (push_bit 1 x)))"
  by (simp_all only: numeral_eq_Suc zeros_low.simps zeros_high.simps)

lemma zeros_low_nibble:
  assumes "x < 16" and "x \<noteq> 0"
  shows "\<exists>a < 4. zeros_low 8 x = Inr a"
  using assms by (elim nibble_cases) (simp_all add: zeros_numeral)

lemma zeros_high_nibble:
  assumes "x < 16" and "x \<noteq> 0"
  shows "\<exists>a < 4. zeros_high 8 x = Inr a"
  using assms by (elim nibble_cases) (simp_all add: zeros_numeral)

text \<open>The disabled bytes at the start and at the end of a read.\<close>

definition lead :: "u8 \<Rightarrow> nat" where "lead x = (case zeros_low 8 x of Inl _ \<Rightarrow> 0 | Inr a \<Rightarrow> a)"
definition trail :: "u8 \<Rightarrow> nat" where "trail x = (case zeros_high 8 x of Inl _ \<Rightarrow> 0 | Inr a \<Rightarrow> a)"

lemma lead_nibble: "x < 16 \<Longrightarrow> x \<noteq> 0 \<Longrightarrow> zeros_low 8 x = Inr (lead x) \<and> lead x < 4"
  using zeros_low_nibble [of x] by (auto simp: lead_def)

lemma trail_nibble: "x < 16 \<Longrightarrow> x \<noteq> 0 \<Longrightarrow> zeros_high 8 x = Inr (trail x) \<and> trail x < 4"
  using zeros_high_nibble [of x] by (auto simp: trail_def)

lemma lead_trail_15: "lead 15 = 0" "trail 15 = 0"
  by (simp_all add: lead_def trail_def zeros_numeral)

lemma lead_trail_same: "x < 16 \<Longrightarrow> x \<noteq> 0 \<Longrightarrow> lead x + trail x < 4"
  by (elim nibble_cases) (simp_all add: lead_def trail_def zeros_numeral)

lemma byte_count_value:
  assumes "f < 16" "f \<noteq> 0" "l < 16" "l \<noteq> 0 \<or> unat w = 1" "unat (w :: u32) < 2 ^ 13" and g: "g = (if l = 0 then f else l)"
    and fits: "lead f + trail g \<le> 4 * unat w"
  shows "\<exists>v. pcie_cpl_byte_count (ucast w) f l = Inr v \<and> unat v = 4 * unat w - lead f - trail g"
proof -
  have gl: "g < 16" "g \<noteq> 0" using assms by auto
  have w: "unat (ucast w :: u16) = unat w" using assms(5) by (simp add: unsigned_ucast_eq take_bit_nat_eq_self)
  have one: "(ucast w :: u16) \<noteq> 1 \<longleftrightarrow> unat w \<noteq> 1" by (simp add: word_unat_eq_iff w)
  have "pcie_cpl_byte_count (ucast w) f l = Inr (ucast w * 4 - of_nat (lead f) - of_nat (trail g))"
    unfolding pcie_cpl_byte_count_def Let_def one g [symmetric]
    using assms(2,4) lead_nibble [OF assms(1,2)] trail_nibble [OF gl] by simp
  moreover have "ucast w * 4 - of_nat (lead f) - of_nat (trail g) = (of_nat (4 * unat w - lead f - trail g) :: u16)"
  proof -
    have "(ucast w :: u16) = of_nat (unat w)" using w by (metis of_nat_unat)
    then show ?thesis using fits by (simp add: of_nat_diff)
  qed
  moreover have "unat (of_nat (4 * unat w - lead f - trail g) :: u16) = 4 * unat w - lead f - trail g"
    using assms(5) by (simp add: unat_of_nat)
  ultimately show ?thesis by simp
qed

section \<open>Splitting a response\<close>

text \<open>
  The header of a read that the checks of \<open>pcie_tlp_a2h_mrd\<close> accept, as far as the completion
  depends on it, and the bytes that are left to send at a word of the response.
\<close>

definition read_hdr_ok :: "hdr_upk \<Rightarrow> bool" where
  "read_hdr_ok h \<longleftrightarrow> (let n = unat (len_bytes h); f = first_dw_be (u_req h); l = last_dw_be (u_req h) in
     0 < n \<and> n \<le> 2 ^ 14 \<and> f < 16 \<and> l < 16 \<and> (f = 0 \<longrightarrow> l = 0) \<and> (l = 0 \<longrightarrow> n \<le> 4) \<and>
     (l \<noteq> 0 \<and> n \<le> 4 \<longrightarrow> f = 0xf \<and> l = 0xf))"

definition rsp_words :: "hdr_upk \<Rightarrow> nat" where
  "rsp_words h = (unat (len_bytes h) + 3) div 4"

definition bytes_left :: "hdr_upk \<Rightarrow> nat \<Rightarrow> nat" where
  "bytes_left h start =
     (let f = first_dw_be (u_req h); l = last_dw_be (u_req h) in
      if f = 0 then 1
      else 4 * (rsp_words h - start) - trail (if l = 0 then f else l) - (if start = 0 then lead f else 0))"

text \<open>
  The packets of one response from the word \<open>start\<close> on: they follow each other without gap,
  the last one completes the request, and each announces the bytes that are left.
\<close>

fun covers :: "nat \<Rightarrow> hdr_upk \<Rightarrow> nat \<Rightarrow> read_cpl list \<Rightarrow> bool" where
  "covers rcb h start [] = False"
| "covers rcb h start (c # cs) \<longleftrightarrow>
     unat (rc_start_dw c) = start \<and> rc_is_first c = (start = 0) \<and> rc_is_last c = (cs = []) \<and>
     unat (rc_byte_count c) = bytes_left h start \<and>
     (let k = unat (rc_len_bytes c) in
      if cs = [] then k = unat (len_bytes h) - 4 * start
      else 0 < k \<and> rcb dvd k \<and> 4 * start + k < unat (len_bytes h) \<and> covers rcb h (start + k div 4) cs)"

lemma read_hdr_okD:
  assumes "read_hdr_ok h"
  shows "0 < rsp_words h" "rsp_words h \<le> 2 ^ 12" "unat (len_bytes h) \<le> 4 * rsp_words h" "4 * rsp_words h < unat (len_bytes h) + 4"
    "first_dw_be (u_req h) < 16" "last_dw_be (u_req h) < 16"
    "first_dw_be (u_req h) = 0 \<Longrightarrow> rsp_words h = 1 \<and> last_dw_be (u_req h) = 0"
    "last_dw_be (u_req h) = 0 \<Longrightarrow> rsp_words h = 1"
    "last_dw_be (u_req h) \<noteq> 0 \<Longrightarrow> rsp_words h = 1 \<Longrightarrow> first_dw_be (u_req h) = 15 \<and> last_dw_be (u_req h) = 15"
    "unat ((len_bytes h + 3) div 4) = rsp_words h"
proof -
  define n where "n = unat (len_bytes h)"
  have n: "0 < n" "n \<le> 2 ^ 14" using assms unfolding read_hdr_ok_def Let_def n_def by blast+
  have m: "4 * rsp_words h \<le> n + 3" "n + 3 < 4 * rsp_words h + 4"
    using dividend_less_times_div [of 4 "n + 3"] by (simp_all add: rsp_words_def n_def)
  show "0 < rsp_words h" "unat (len_bytes h) \<le> 4 * rsp_words h" "4 * rsp_words h < unat (len_bytes h) + 4"
    unfolding n_def [symmetric] using m n(1) by linarith+
  have "n \<le> 16384" using n(2) by simp
  then have "rsp_words h < 4097" using m(1) by linarith
  then show "rsp_words h \<le> 2 ^ 12" by simp
  show "first_dw_be (u_req h) < 16" "last_dw_be (u_req h) < 16" using assms unfolding read_hdr_ok_def Let_def by blast+
  have "rsp_words h = 1 \<longleftrightarrow> n \<le> 4" using m n(1) by linarith
  then show "first_dw_be (u_req h) = 0 \<Longrightarrow> rsp_words h = 1 \<and> last_dw_be (u_req h) = 0"
    "last_dw_be (u_req h) = 0 \<Longrightarrow> rsp_words h = 1"
    "last_dw_be (u_req h) \<noteq> 0 \<Longrightarrow> rsp_words h = 1 \<Longrightarrow> first_dw_be (u_req h) = 15 \<and> last_dw_be (u_req h) = 15"
    using assms unfolding read_hdr_ok_def Let_def n_def by blast+
  have "unat (len_bytes h) + unat (3 :: u32) < 2 ^ LENGTH(32)" using n(2) by (simp add: n_def)
  then have "unat (len_bytes h + 3) = n + 3"
    using unat_add_lem [of "len_bytes h" 3] by (simp add: n_def)
  then show "unat ((len_bytes h + 3) div 4) = rsp_words h" by (simp add: unat_div rsp_words_def n_def)
qed

text \<open>The bytes of a packet and of the packets after it are the bytes that were left.\<close>

lemma chunk_bytes:
  assumes h: "read_hdr_ok h" and k: "unat (w :: u32) = k" "0 < k" "start + k \<le> rsp_words h" and last: "l_p \<longleftrightarrow> start + k = rsp_words h"
  shows "\<exists>v. pcie_cpl_byte_count (ucast w) (if start = 0 then first_dw_be (u_req h) else 0xf)
      (if l_p then last_dw_be (u_req h) else 0xf) = Inr v \<and>
    unat v + (if l_p then 0 else bytes_left h (start + k)) = bytes_left h start"
proof -
  note d = read_hdr_okD [OF h]
  define f where "f = first_dw_be (u_req h)"
  define l where "l = last_dw_be (u_req h)"
  define N where "N = rsp_words h"
  define f1 where "f1 = (if start = 0 then f else 0xf)"
  define l1 where "l1 = (if l_p then l else 0xf)"
  note dd = d [folded f_def l_def N_def]
  show ?thesis
  proof (cases "f = 0")
    case True
    then have N: "N = 1" "l = 0" using dd(7) by auto
    then have "start = 0" "k = 1" "l_p" using k last by (auto simp: N_def)
    moreover have "(ucast w :: u16) = 1"
      using k(1) \<open>k = 1\<close> by (metis One_nat_def of_nat_1 of_nat_unat ucast_1 One_nat_def)
    ultimately show ?thesis using True N by (simp add: f_def l_def pcie_cpl_byte_count_def bytes_left_def Let_def)
  next
    case False
    define g where "g = (if l = 0 then f else l)"
    define g1 where "g1 = (if l1 = 0 then f1 else l1)"
    have g: "g < 16" "g \<noteq> 0" using False dd(5,6) by (auto simp: g_def)
    have lt: "lead f < 4" "trail g < 4" using lead_nibble [OF dd(5) False] trail_nibble [OF g] by auto
    have one: "lead f + trail g < 4" if "N = 1"
      using that dd(9) False lead_trail_same [OF dd(5)] by (cases "l = 0") (auto simp: g_def lead_trail_15)
    have l1: "l1 < 16" "f1 < 16" "f1 \<noteq> 0" "l1 \<noteq> 0 \<or> unat w = 1"
      using dd(5,6,8) False k last by (auto simp: l1_def f1_def N_def)
    have v1: "lead f1 = (if start = 0 then lead f else 0)" by (simp add: f1_def lead_trail_15)
    have v2: "trail g1 = (if l_p then trail g else 0)"
    proof (cases "l_p \<and> l = 0")
      case True
      then have "start = 0" using dd(8) k last by (simp add: N_def)
      then show ?thesis using True by (simp add: g1_def g_def l1_def f1_def)
    next
      case False
      then show ?thesis by (auto simp: g1_def g_def l1_def lead_trail_15)
    qed
    have fits: "lead f1 + trail g1 \<le> 4 * unat w"
    proof (cases "start = 0 \<and> l_p \<and> k = 1")
      case True
      then show ?thesis using one k last by (auto simp: v1 v2 N_def)
    next
      case False
      then show ?thesis using lt k by (cases "k = 1") (auto simp: v1 v2)
    qed
    have w: "unat w < 2 ^ 13" using k dd(2) by (simp add: N_def)
    obtain v where v: "pcie_cpl_byte_count (ucast w) f1 l1 = Inr v" "unat v = 4 * k - lead f1 - trail g1"
      using byte_count_value [OF l1(2,3,1,4) w g1_def fits] k(1) by auto
    have left: "bytes_left h m = 4 * (N - m) - trail g - (if m = 0 then lead f else 0)" for m
      using False by (simp add: bytes_left_def f_def l_def g_def N_def Let_def)
    have "unat v + (if l_p then 0 else bytes_left h (start + k)) = bytes_left h start"
    proof (cases l_p)
      case True
      then show ?thesis unfolding v(2) left v1 v2 using last by (auto simp: N_def diff_diff_left add.commute)
    next
      case False
      then have m: "start + k + 1 \<le> N" using k last by (simp add: N_def)
      have "k + start \<noteq> 0" using k by simp
      then show ?thesis unfolding v(2) left v1 v2 using False m lt k by (auto simp: algebra_simps)
    qed
    then show ?thesis using v(1) by (auto simp: f1_def l1_def f_def l_def)
  qed
qed

lemma u32_sub: "unat b \<le> unat a \<Longrightarrow> unat (a - b) = unat a - unat b" for a b :: u32
  by (simp add: unat_sub word_le_nat_alt)

lemma u16_small: "unat (w :: u32) < 2 ^ 16 \<Longrightarrow> unat (ucast w :: u16) = unat w"
  by (simp add: unsigned_ucast_eq take_bit_nat_eq_self)

lemma bytes_left_bound: "read_hdr_ok h \<Longrightarrow> bytes_left h start < 2 ^ 16"
  using read_hdr_okD(2) [of h] by (auto simp: bytes_left_def Let_def)

lemma split_covers:
  assumes cfg: "split_cfg_ok cfg" and h: "read_hdr_ok h" and "rcb = request_completion_boundary cfg"
    and "start < rsp_words h" "unat len_dw_rem = rsp_words h - start" "unat start_dw = start"
    "unat len_bytes_rem = unat (len_bytes h) - 4 * start" "unat byte_count_rem = bytes_left h start"
    "rsp_words h - start \<le> fuel"
  shows "\<exists>cs s'. split_read_rsp fuel cfg unlimited st h data len_dw_rem len_bytes_rem byte_count_rem start_dw s = Inr s' \<and>
    queued st cs s s' \<and> covers rcb h start cs \<and> (\<forall>c \<in> set cs. rc_state c = st \<and> rc_data c = data)"
  using assms(4-)
proof (induction fuel arbitrary: start len_dw_rem len_bytes_rem byte_count_rem start_dw s)
  case 0
  then show ?case by simp
next
  case (Suc fuel)
  define N where "N = rsp_words h"
  note d = read_hdr_okD [OF h, folded N_def] and p = Suc.prems [folded N_def]
  have N13: "N < 2 ^ 13" using d(2) by simp
  obtain len r where len: "random_cpl_length cfg unlimited len_dw_rem (dm_mode h) s = Inr (len, s\<lparr>next_rand := r\<rparr>)"
    "0 < unat len" "unat len \<le> unat len_dw_rem" "len = len_dw_rem \<or> rcb dvd 4 * unat len"
    using cpl_length [OF cfg, of len_dw_rem unlimited "dm_mode h" s] p(1,2) unfolding assms(3) by auto
  define k where "k = unat len"
  define lp where "lp \<longleftrightarrow> len = len_dw_rem"
  have lp: "lp \<longleftrightarrow> start + k = N" "start + k \<le> N"
    using len(3) p(1,2) by (auto simp: lp_def k_def word_unat_eq_iff)
  have z: "start_dw = 0 \<longleftrightarrow> start = 0" using p(3) by (simp add: unat_eq_0 [symmetric])
  define c where "c = \<lparr>rc_state = st, rc_data = data, rc_len_bytes = ucast (if lp then len_bytes_rem else len * 4),
      rc_start_dw = ucast start_dw, rc_byte_count = ucast byte_count_rem, rc_is_first = (start_dw = 0), rc_is_last = lp\<rparr>"
  define s1 where "s1 = push_new_read_cpl cfg unlimited c (s\<lparr>next_rand := r\<rparr>)"
  have q1: "queued st [c] s s1"
    using queued_trans [OF queued_rand queued_push [of c "s\<lparr>next_rand := r\<rparr>" cfg unlimited]]
    by (simp add: s1_def c_def)
  obtain v where v: "pcie_cpl_byte_count (ucast len) (if start = 0 then first_dw_be (u_req h) else 0xf)
      (if lp then last_dw_be (u_req h) else 0xf) = Inr v" "unat v + (if lp then 0 else bytes_left h (start + k)) = bytes_left h start"
    using chunk_bytes [OF h k_def [symmetric], of start lp] lp len(2) unfolding k_def N_def by blast
  have k4: "unat (len * 4) = 4 * k"
    using u32_mult [of k 4] N13 lp(2) by (simp add: k_def)
  have uv: "unat (ucast v :: u32) = unat v" by (rule unat_u16_u32)
  define bc where "bc = byte_count_rem - ucast v"
  define ld where "ld = len_dw_rem - len"
  define lb where "lb = len_bytes_rem - len * 4"
  have bc: "unat bc = (if lp then 0 else bytes_left h (start + k))"
    using u32_sub [of "ucast v" byte_count_rem] v(2) p(5) uv by (simp add: bc_def)
  have ld: "unat ld = N - (start + k)" using u32_sub [OF len(3)] p(2) by (simp add: ld_def k_def)
  have e: "split_read_rsp (Suc fuel) cfg unlimited st h data len_dw_rem len_bytes_rem byte_count_rem start_dw s =
      (if lp then Inr s1 else split_read_rsp fuel cfg unlimited st h data ld lb bc (start_dw + len) s1)"
  proof -
    have a: "ld = 0 \<longleftrightarrow> lp" "0 < ld \<longleftrightarrow> \<not> lp" using ld lp by (auto simp: word_unat_eq_iff word_less_nat_alt)
    have b: "lp \<Longrightarrow> bc = 0" using bc by (simp add: word_unat_eq_iff)
    show ?thesis
      unfolding split_read_rsp.simps len(1) rbind_simps prod.case Let_def lp_def [symmetric] c_def [symmetric]
        s1_def [symmetric] z v(1) bc_def [symmetric] ld_def [symmetric] lb_def [symmetric] a
      using b by (simp add: s1_def c_def z)
  qed
  have cc: "unat (rc_start_dw c) = start" "rc_is_first c = (start = 0)" "unat (rc_byte_count c) = bytes_left h start"
    "rc_is_last c = lp"
    using p(1,3,5) z N13 bytes_left_bound [OF h] by (simp_all add: c_def u16_small)
  show ?case
  proof (cases lp)
    case True
    have "unat len_bytes_rem < 2 ^ 16" using p(4) d(3) N13 by simp
    then have "covers rcb h start [c]" using cc True p(4) by (simp add: c_def u16_small)
    then show ?thesis using e q1 True by (intro exI [of _ "[c]"] exI [of _ s1]) (simp add: c_def)
  next
    case False
    then have lt: "start + k < N" using lp by simp
    have lbn: "4 * (start + k) < unat (len_bytes h)" using mult_le_mono2 [OF Suc_leI [OF lt], of 4] d(4) by simp
    have sd: "unat (start_dw + len) = start + k"
      using unat_add_lem [of start_dw len] p(3) lt N13 by (simp add: k_def)
    have lb: "unat lb = unat (len_bytes h) - 4 * (start + k)"
      using u32_sub [of "len * 4" len_bytes_rem] k4 p(4) lbn by (simp add: lb_def)
    have fu: "rsp_words h - (start + k) \<le> fuel" using p(6) len(2) unfolding N_def k_def by linarith
    obtain cs s' where IH: "split_read_rsp fuel cfg unlimited st h data ld lb bc (start_dw + len) s1 = Inr s'"
      "queued st cs s1 s'" "covers rcb h (start + k) cs" "\<forall>c \<in> set cs. rc_state c = st \<and> rc_data c = data"
      using Suc.IH [of "start + k" ld "start_dw + len" lb bc s1] lt ld sd lb bc False fu by (auto simp: N_def)
    have ne: "cs \<noteq> []" using IH(3) by auto
    have rl: "unat (rc_len_bytes c) = 4 * k" using False k4 lt N13 by (simp add: c_def u16_small)
    have "covers rcb h start (c # cs)"
      using cc ne False IH(3) rl len(2,4) lbn by (auto simp: c_def [symmetric] k_def [symmetric] lp_def [symmetric] Let_def)
    moreover have "rc_state c = st \<and> rc_data c = data" by (simp add: c_def)
    ultimately show ?thesis
      using e False IH(1,4) queued_trans [OF q1 IH(2)] by (intro exI [of _ "c # cs"] exI [of _ s']) (simp del: covers.simps)
  qed
qed

text \<open>The data that a packet carries, and that all packets of a response carry together.\<close>

definition cpl_data :: "read_cpl \<Rightarrow> u8 list" where
  "cpl_data c = take (unat (rc_len_bytes c)) (drop (4 * unat (rc_start_dw c)) (rc_data c))"

lemma covers_data:
  assumes "covers rcb h start cs" and "4 dvd rcb" and "\<forall>c \<in> set cs. rc_data c = data" and "4 * start \<le> unat (len_bytes h)"
  shows "concat (map cpl_data cs) = take (unat (len_bytes h) - 4 * start) (drop (4 * start) data)"
  using assms
proof (induction cs arbitrary: start)
  case (Cons c cs)
  define k where "k = unat (rc_len_bytes c)"
  have c: "unat (rc_start_dw c) = start" "rc_data c = data" using Cons.prems by auto
  show ?case
  proof (cases "cs = []")
    case True
    then show ?thesis using Cons.prems c by (simp add: cpl_data_def Let_def)
  next
    case False
    then have k: "rcb dvd k" "4 * start + k < unat (len_bytes h)" "covers rcb h (start + k div 4) cs"
      using Cons.prems(1) by (auto simp: Let_def k_def)
    have k4: "4 * (start + k div 4) = 4 * start + k" using dvd_trans [OF assms(2) k(1)] by simp
    have IH: "concat (map cpl_data cs) = take (unat (len_bytes h) - (4 * start + k)) (drop (4 * start + k) data)"
      using Cons.IH [OF k(3)] Cons.prems(2,3) k(2) unfolding k4 by simp
    have "take (unat (len_bytes h) - 4 * start) (drop (4 * start) data) =
        take k (drop (4 * start) data) @ take (unat (len_bytes h) - 4 * start - k) (drop k (drop (4 * start) data))"
      using k(2) take_add [of k "unat (len_bytes h) - 4 * start - k" "drop (4 * start) data"] by simp
    moreover have "cpl_data c = take k (drop (4 * start) data)" by (simp add: cpl_data_def k_def c)
    ultimately show ?thesis using IH by (simp add: add.commute)
  qed
qed simp

lemma queue_read_rsp_done:
  assumes cfg: "split_cfg_ok cfg" and t: "t = unat (rsp_tag r)" "t < length (dma_read_state s)"
    and h: "h = drs_req_hdr (dma_read_state s ! t)" "read_hdr_ok h"
    and len: "length data \<le> max_any_rd_req_bytes cfg" and rcb: "rcb = request_completion_boundary cfg"
    and buf: "buf = data @ map junk [length data..<max_any_rd_req_bytes cfg]"
  shows "\<exists>cs s'. queue_read_rsp cfg unlimited junk r data s = Inr s' \<and>
    queued t cs (s\<lparr>num_dma_reads_pending := num_dma_reads_pending s - 1\<rparr>) s' \<and> covers rcb h 0 cs \<and>
    (\<forall>c \<in> set cs. rc_state c = t \<and> rc_data c = buf)"
proof -
  note d = read_hdr_okD [OF h(2)]
  obtain v where v: "pcie_cpl_byte_count (ucast ((len_bytes h + 3) div 4)) (first_dw_be (u_req h)) (last_dw_be (u_req h)) = Inr v"
    "unat v = bytes_left h 0"
    using chunk_bytes [OF h(2) d(10) d(1), of 0 True] by auto
  have uv: "unat (ucast v :: u32) = bytes_left h 0"
    by (simp add: unat_u16_u32 v(2))
  have "\<exists>cs s'. split_read_rsp (Suc (unat ((len_bytes h + 3) div 4))) cfg unlimited t h buf ((len_bytes h + 3) div 4)
      (len_bytes h) (ucast v) 0 (s\<lparr>num_dma_reads_pending := num_dma_reads_pending s - 1\<rparr>) = Inr s' \<and>
    queued t cs (s\<lparr>num_dma_reads_pending := num_dma_reads_pending s - 1\<rparr>) s' \<and> covers rcb h 0 cs \<and>
    (\<forall>c \<in> set cs. rc_state c = t \<and> rc_data c = buf)"
    by (rule split_covers [OF cfg h(2) rcb]) (simp_all add: d(1,10) uv)
  then show ?thesis
    using t len v(1) unfolding queue_read_rsp_def Let_def t(1) [symmetric] h(1) [symmetric] buf by simp
qed

text \<open>
  C3: The response to a read is split into completion packets correctly. For a configuration
  with a legal completion boundary and the header of a legal read, whatever the random
  numbers, the loop ends, no division by zero, failed assertion or exit occurs, and the
  packets of the request follow each other without gap: each one starts where the one
  before ended, announces the bytes that are left, has a length that is a multiple of the
  boundary unless it is the last, only the first and the last are marked as such, and
  together they carry exactly the data of the response. The packets of the request are
  queued in this order behind its earlier ones, those of other requests keep their order, and
  the packet at the head, which may be on its way, stays there.
\<close>

theorem read_response_split:
  assumes "split_cfg_ok cfg" and "t = unat (rsp_tag r)" and "t < length (dma_read_state s)"
    and "h = drs_req_hdr (dma_read_state s ! t)" and "read_hdr_ok h" and "length data = unat (len_bytes h)"
    and "length data \<le> max_any_rd_req_bytes cfg"
  shows "\<exists>cs s'. queue_read_rsp cfg unlimited junk r data s = Inr s' \<and>
    covers (request_completion_boundary cfg) h 0 cs \<and> concat (map cpl_data cs) = data \<and>
    queued t cs (s\<lparr>num_dma_reads_pending := num_dma_reads_pending s - 1\<rparr>) s'"
proof -
  obtain cs s' where q: "queue_read_rsp cfg unlimited junk r data s = Inr s'"
    "queued t cs (s\<lparr>num_dma_reads_pending := num_dma_reads_pending s - 1\<rparr>) s'"
    "covers (request_completion_boundary cfg) h 0 cs"
    "\<forall>c \<in> set cs. rc_state c = t \<and> rc_data c = data @ map junk [length data..<max_any_rd_req_bytes cfg]"
    using queue_read_rsp_done [OF assms(1-5,7) refl refl] by blast
  have "concat (map cpl_data cs) = data"
    using covers_data [OF q(3), of "data @ map junk [length data..<max_any_rd_req_bytes cfg]"] assms(1,6) q(4)
    by (simp add: split_cfg_ok_def)
  then show ?thesis using q by blast
qed

text \<open>A read of 256 bytes whose first and last bytes are disabled, with a boundary of 64 bytes.\<close>

definition demo_rd_hdr :: hdr_upk where
  "demo_rd_hdr = pcie_ss_tlp_hdr_reset\<lparr>vf_active := 1, fmt_type := PCIE_FMTTYPE_MEM_READ64, tag := 2, len_bytes := 256,
     u_req := (u_req pcie_ss_tlp_hdr_reset)\<lparr>req_addr := 0x140012340, first_dw_be := 0xe, last_dw_be := 7\<rparr>\<rparr>"

lemma demo_rd_hdr_ok: "read_hdr_ok demo_rd_hdr"
  by (simp add: read_hdr_ok_def demo_rd_hdr_def pcie_ss_tlp_hdr_reset_def)

lemma demo_split_cfg: "split_cfg_ok demo_cfg"
  by (simp add: split_cfg_ok_def demo_cfg_def)

theorem read_response_split_witness:
  "\<exists>r s cs s'. queue_read_rsp demo_cfg False (\<lambda>_. 0) r (replicate 256 7) s = Inr s' \<and>
     covers 64 demo_rd_hdr 0 cs \<and> concat (map cpl_data cs) = replicate 256 7 \<and> dma_read_cpls s' = cs"
proof -
  define s where "s = demo_tlp\<lparr>dma_read_state := [\<lparr>drs_start_cycle = 0, drs_req_hdr = demo_rd_hdr, drs_busy = True\<rparr>]\<rparr>"
  define r where "r = \<lparr>rsp_pa = 0, rsp_va = 0, rsp_data_bytes = 256, rsp_tag = 0, rsp_afu_idx = 0, rsp_status = HOST_MEM_STATUS_VALID\<rparr>"
  have a: "0 = unat (rsp_tag r)" "0 < length (dma_read_state s)" "demo_rd_hdr = drs_req_hdr (dma_read_state s ! 0)"
    "length (replicate 256 (7 :: u8)) = unat (len_bytes demo_rd_hdr)" "length (replicate 256 (7 :: u8)) \<le> max_any_rd_req_bytes demo_cfg"
    by (simp_all add: r_def s_def demo_rd_hdr_def max_any_rd_req_bytes_def demo_cfg_def)
  obtain cs s' where q: "queue_read_rsp demo_cfg False (\<lambda>_. 0) r (replicate 256 7) s = Inr s'"
    "covers (request_completion_boundary demo_cfg) demo_rd_hdr 0 cs" "concat (map cpl_data cs) = replicate 256 7"
    "queued 0 cs (s\<lparr>num_dma_reads_pending := num_dma_reads_pending s - 1\<rparr>) s'"
    using read_response_split [OF demo_split_cfg a(1-3) demo_rd_hdr_ok a(4,5), of False "\<lambda>_. 0"] by blast
  have "filter (\<lambda>c. rc_state c = 0) (dma_read_cpls s') = cs" "filter (\<lambda>c. rc_state c \<noteq> 0) (dma_read_cpls s') = []"
    using q(4) by (simp_all add: queued_def s_def demo_tlp_def Let_def)
  then have "dma_read_cpls s' = cs" by (metis (mono_tags, lifting) filter_True filter_empty_conv)
  then show ?thesis using q by (intro exI [of _ r] exI [of _ s]) (auto simp: demo_cfg_def)
qed

end
