(* ===== verification/Tlp_Host.thy ===== *)
theory Tlp_Host
  imports Tlp_Completion
begin

text \<open>
  The direction from the host to the simulated hardware in \<open>pcie_ss_tlp_stream.c\<close>: MMIO
  requests, messages and DMA read completions, one beat per call. The output vectors
  \<open>tdata\<close>, \<open>tuser\<close> and \<open>tkeep\<close> keep their contents where the code does not write. The linked list of
  MMIO requests is a list, its head first. Reading past the words of a request or the buffer
  of a response is the fault \<open>Segv\<close>.
\<close>

section \<open>Definitions\<close>

record h2a_out =
  tvalid :: bool
  tlast :: bool
  obeat :: beat

subsection \<open>New MMIO requests\<close>

definition track_mmio_read :: "ss_param_cfg \<Rightarrow> mmio_pkt \<Rightarrow> tlp \<Rightarrow> tlp res" where
  "track_mmio_read cfg m s =
     (let i = pkt_slot_idx m; s = kill_if (i \<ge> int (max_outstanding_mmio_rd_reqs cfg)) s in
      if i < 0 \<or> nat i \<ge> length (mmio_read_state s) then Inl Segv
      else let s = kill_if (mrs_busy (mmio_read_state s ! nat i)) s
           in Inr (s\<lparr>mmio_read_state := (mmio_read_state s)[nat i :=
                \<lparr>mrs_start_cycle = cur_cycle s, mrs_tid = of_int (pkt_tid m), mrs_busy = True\<rparr>]\<rparr>))"

definition pcie_ss_mmio_new_req :: "ss_param_cfg \<Rightarrow> mmio_pkt \<Rightarrow> tlp \<Rightarrow> tlp res" where
  "pcie_ss_mmio_new_req cfg m s =
     (if pkt_afu_idx m \<ge> int (num_afu_ports cfg)
      then Inr (if pkt_write_en m = MMIO_READ_REQ
                then send (OutMmio (m\<lparr>pkt_resp_en := 1, pkt_qword := replicate 8 (- 1)\<rparr>)) s else s)
      else let s = s\<lparr>mmio_reqs := mmio_reqs s @ [m]\<rparr>
           in if pkt_write_en m = MMIO_READ_REQ then track_mmio_read cfg m s else Inr s)"

subsection \<open>Beats\<close>

text \<open>The copy loops: each word with its keep mask, from word \<open>off\<close> of the bus.\<close>

fun put_words :: "nat \<Rightarrow> (u32 \<times> u32) list \<Rightarrow> beat \<Rightarrow> beat" where
  "put_words off [] b = b"
| "put_words off ((w, k) # ws) b =
     put_words (off + 1) ws (b\<lparr>tdata := svPutPartselBit (tdata b) w (off * 32) 32,
                               tkeep := svPutPartselBit (tkeep b) k (off * 4) 4\<rparr>)"

definition pack_hdr :: "ss_param_cfg \<Rightarrow> hdr_upk \<Rightarrow> beat \<Rightarrow> beat" where
  "pack_hdr cfg h b = pcie_ss_tlp_hdr_pack (tdata_width_bits cfg) (tuser_width_bits cfg) tlp_hdr_dwords b h"

definition reset_beat :: "ss_param_cfg \<Rightarrow> beat \<Rightarrow> beat" where
  "reset_beat cfg b = pcie_ss_tlp_payload_reset (tdata_width_bits cfg) (tuser_width_bits cfg) b"

subsection \<open>Messages\<close>

definition msg_to_hdr :: "pcie_msg_hdr \<Rightarrow> hdr_upk" where
  "msg_to_hdr m =
     (let h = pcie_ss_tlp_hdr_reset\<lparr>fmt_type := pm_fmt_type m, len_bytes := ucast (pm_len_bytes m), req_id := pm_req_id m,
                tag := msg_tag m, u_msg := \<lparr>msg2 = pm_msg2 m, msg1 = pm_msg1 m, msg0 = ucast (pm_msg0 m),
                  msg_code = pm_msg_code m\<rparr>\<rparr>;
          h = afu_idx_to_hdr_pf_vf (msg_afu_idx m) h;
          dev_id = push_bit 4 (ucast (pf_num h)) OR push_bit 1 (vf_num h) OR ucast (vf_active h) :: u16
      in if pm_msg_code m = PCIE_MSGCODE_ATS_INVAL_REQ
         then h\<lparr>u_msg := (u_msg h)\<lparr>msg1 := msg1 (u_msg h) OR push_bit 16 (ucast dev_id)\<rparr>\<rparr>
         else h)"

definition pcie_tlp_h2a_msg :: "ss_param_cfg \<Rightarrow> h2a_out \<Rightarrow> tlp \<Rightarrow> (h2a_out \<times> tlp) res" where
  "pcie_tlp_h2a_msg cfg out s =
     (case pcie_msg_q s of
        [] \<Rightarrow> Inr (out\<lparr>tvalid := False, tlast := False\<rparr>, s)
      | (m, payload) # q \<Rightarrow>
          let h = msg_to_hdr m; b = pack_hdr cfg h (obeat out); n = unat (len_bytes h) in
          if n > 32 then Inl AssertFail
          else if n \<noteq> 0 \<and> length payload < n div 4 then Inl Blocked
          else Inr (\<lparr>tvalid = True, tlast = True,
                 obeat = put_words tlp_hdr_dwords (map (\<lambda>w. (w, 0xf)) (take (n div 4) payload)) b\<rparr>,
               s\<lparr>pcie_msg_q := q\<rparr>))"

subsection \<open>MMIO requests\<close>

definition mmio_words :: "mmio_pkt \<Rightarrow> u32 list" where
  "mmio_words m = concat (map (\<lambda>q. [ucast q, ucast (drop_bit 32 q)]) (pkt_qword m))"

definition mmio_hdr :: "mmio_pkt \<Rightarrow> hdr_upk" where
  "mmio_hdr m = afu_idx_to_hdr_pf_vf (pkt_afu_idx m)
     (pcie_ss_tlp_hdr_reset\<lparr>
        fmt_type := (if pkt_write_en m = MMIO_WRITE_REQ then PCIE_FMTTYPE_MEM_WRITE32 else PCIE_FMTTYPE_MEM_READ32),
        len_bytes := of_int (pkt_width m div 8), tag := of_int (pkt_slot_idx m),
        u_req := (u_req pcie_ss_tlp_hdr_reset)\<lparr>last_dw_be := (if pkt_width m \<le> 32 then 0 else 0xf),
                   first_dw_be := 0xf, req_addr := of_int (pkt_addr m)\<rparr>\<rparr>)"

text \<open>
  The beat that carries \<open>req_dw\<close> words of a request from its word \<open>start_dw\<close>, at word \<open>off\<close> of the
  bus. The response to a write goes out with its last beat.
\<close>

definition h2a_mem_beat ::
  "ss_param_cfg \<Rightarrow> u64 \<Rightarrow> mmio_pkt \<Rightarrow> u32 \<Rightarrow> u32 \<Rightarrow> nat \<Rightarrow> beat \<Rightarrow> tlp \<Rightarrow> (h2a_out \<times> tlp) res" where
  "h2a_mem_beat cfg cycle m req_dw start_dw off b s =
     (let s = s\<lparr>last_mmio_req_cycle := cycle\<rparr>; pop = (\<lambda>s. s\<lparr>mmio_reqs := tl (mmio_reqs s)\<rparr>) in
      if pkt_write_en m \<noteq> MMIO_WRITE_REQ
      then Inr (\<lparr>tvalid = True, tlast = True, obeat = b\<rparr>, pop (s\<lparr>mmio_req_dw_rem := 0\<rparr>))
      else let room = of_nat (tlp_tdata_dwords cfg) - of_nat off; last = (req_dw \<le> room);
               n = (if last then req_dw else room); ws = mmio_words m;
               s = (if last then send (OutMmio m) s else s)
           in if unat start_dw + unat n > length ws then Inl Segv
              else let b = put_words off (map (\<lambda>w. (w, NOT 0)) (take (unat n) (drop (unat start_dw) ws))) b;
                       s = s\<lparr>mmio_req_dw_rem := mmio_req_dw_rem s - n\<rparr>
                   in Inr (\<lparr>tvalid = True, tlast = last, obeat = b\<rparr>, if last then pop s else s))"

text \<open>The result is true at the end of a packet or when there is no beat.\<close>

definition pcie_tlp_h2a_mem ::
  "ss_param_cfg \<Rightarrow> bool \<Rightarrow> u64 \<Rightarrow> h2a_out \<Rightarrow> tlp \<Rightarrow> (bool \<times> h2a_out \<times> tlp) res" where
  "pcie_tlp_h2a_mem cfg unlimited cycle out s =
     (let out = out\<lparr>tvalid := False, tlast := False\<rparr>;
          ret = (\<lambda>(out, s). Inr (\<not> tvalid out \<or> tlast out, out, s)) in
      if mmio_req_dw_rem s \<noteq> 0
      then (case mmio_reqs s of
              [] \<Rightarrow> Inl Segv
            | m # _ \<Rightarrow> rbind (h2a_mem_beat cfg cycle m (mmio_req_dw_rem s)
                          (of_int (pkt_width m div 32) - mmio_req_dw_rem s) 0 (reset_beat cfg (obeat out)) s) ret)
      else (case mmio_reqs s of
              [] \<Rightarrow> Inr (True, out, s)
            | m # _ \<Rightarrow>
                if cycle - last_mmio_req_cycle s < 63 then Inr (True, out, s)
                else let (r, s) = pcie_tlp_rand unlimited s in
                  if r AND 0xff > 0xd0 then Inr (True, out, s)
                  else let h = mmio_hdr m; n = len_bytes h div 4
                       in rbind (h2a_mem_beat cfg cycle m n 0 tlp_hdr_dwords (pack_hdr cfg h (obeat out))
                            (s\<lparr>mmio_req_dw_rem := n\<rparr>)) ret))"

subsection \<open>DMA read completions\<close>

definition data_word :: "u8 list \<Rightarrow> nat \<Rightarrow> u32" where
  "data_word data i = le_word (take 4 (drop (4 * i) data))"

definition cpl_hdr :: "hdr_upk \<Rightarrow> read_cpl \<Rightarrow> hdr_upk res" where
  "cpl_hdr rh c =
     rbind (if rc_is_first c then pcie_cpl_lower_addr_byte_offset (first_dw_be (u_req rh)) else Inr 0) (\<lambda>ofs.
       let start = ucast (rc_start_dw c) * 4 :: u32;
           low = (if dm_mode rh then start else ucast (req_addr (u_req rh)) + start + ucast ofs)
       in Inr (pcie_ss_tlp_hdr_reset\<lparr>dm_mode := dm_mode rh, fmt_type := PCIE_FMTTYPE_CPLD, pf_num := pf_num rh,
            vf_num := vf_num rh, vf_active := vf_active rh, len_bytes := ucast (rc_len_bytes c), tag := tag rh,
            metadata := (if dm_mode rh then metadata rh else 0),
            u_cpl := (u_cpl pcie_ss_tlp_hdr_reset)\<lparr>byte_count := rc_byte_count c, fc := rc_is_last c, low_addr := low\<rparr>\<rparr>))"

text \<open>The read state is free again, and back on the free list of the tag mapper.\<close>

definition free_read_state :: "ss_param_cfg \<Rightarrow> nat \<Rightarrow> tlp \<Rightarrow> tlp" where
  "free_read_state cfg t s =
     (let d = (dma_read_state s ! t)\<lparr>drs_busy := False\<rparr> in
      if emulate_tag_mapper cfg
      then s\<lparr>dma_read_state := (dma_read_state s)[t := d\<lparr>drs_start_cycle := dma_read_state_free_head s\<rparr>],
             dma_read_state_free_head := of_nat t\<rparr>
      else s\<lparr>dma_read_state := (dma_read_state s)[t := d]\<rparr>)"

definition cpl_words :: "u16 \<Rightarrow> bool \<Rightarrow> u32 list \<Rightarrow> (u32 \<times> u32) list" where
  "cpl_words len eop ws = map (\<lambda>i. (ws ! i,
     if eop \<and> i + 1 = length ws \<and> len AND 3 \<noteq> 0 then 2 ^ unat (len AND 3) - 1 else NOT 0)) [0..<length ws]"

definition h2a_cpld_beat ::
  "ss_param_cfg \<Rightarrow> read_cpl \<Rightarrow> u32 \<Rightarrow> u32 \<Rightarrow> nat \<Rightarrow> beat \<Rightarrow> tlp \<Rightarrow> (h2a_out \<times> tlp) res" where
  "h2a_cpld_beat cfg c rsp_dw start_dw off b s =
     (let room = of_nat (tlp_tdata_dwords cfg) - of_nat off; last = (rsp_dw \<le> room);
          n = (if last then rsp_dw else room)
      in if 4 * (unat start_dw + unat n) > length (rc_data c) then Inl Segv
         else let ws = map (\<lambda>i. data_word (rc_data c) (unat start_dw + i)) [0..<unat n];
                  s = s\<lparr>dma_read_cpl_dw_rem := dma_read_cpl_dw_rem s - n\<rparr>
              in Inr (\<lparr>tvalid = True, tlast = last, obeat = put_words off (cpl_words (rc_len_bytes c) last ws) b\<rparr>,
                   if last then s\<lparr>dma_read_cpls := tl (dma_read_cpls s)\<rparr> else s))"

definition pcie_tlp_h2a_cpld ::
  "ss_param_cfg \<Rightarrow> bool \<Rightarrow> u64 \<Rightarrow> h2a_out \<Rightarrow> tlp \<Rightarrow> (bool \<times> h2a_out \<times> tlp) res" where
  "pcie_tlp_h2a_cpld cfg unlimited cycle out s =
     (let out = out\<lparr>tvalid := False, tlast := False\<rparr>;
          ret = (\<lambda>(out, s). Inr (\<not> tvalid out \<or> tlast out, out, s)) in
      if dma_read_cpl_dw_rem s \<noteq> 0
      then let (r, s) = pcie_tlp_rand unlimited s in
        if r AND 0xff > 0xd0 then Inr (False, out, s)
        else (case dma_read_cpls s of
                [] \<Rightarrow> Inl Segv
              | c # _ \<Rightarrow> rbind (h2a_cpld_beat cfg c (dma_read_cpl_dw_rem s)
                  (ucast (rc_start_dw c) + (ucast (rc_len_bytes c) + 3) div 4 - dma_read_cpl_dw_rem s) 0
                  (reset_beat cfg (obeat out)) s) ret)
      else (case dma_read_cpls s of
              [] \<Rightarrow> Inr (True, out, s)
            | c # _ \<Rightarrow>
                let (r, s) = pcie_tlp_rand unlimited s; t = rc_state c; d = dma_read_state s ! t;
                    n = (ucast (rc_len_bytes c) + 3) div 4 in
                if r AND 0xff > 0xd0 then Inr (True, out, s)
                else if t \<ge> length (dma_read_state s) then Inl Segv
                else if cycle - drs_start_cycle d < 250 \<and> \<not> unlimited then Inr (True, out, s)
                else rbind (cpl_hdr (drs_req_hdr d) c) (\<lambda>h.
                  let s = (if rc_is_last c then free_read_state cfg t s else s)
                  in rbind (h2a_cpld_beat cfg c n (ucast (rc_start_dw c)) tlp_hdr_dwords (pack_hdr cfg h (obeat out))
                       (s\<lparr>dma_read_cpl_dw_rem := n\<rparr>)) ret)))"

subsection \<open>One cycle\<close>

definition h2a_sop ::
  "ss_param_cfg \<Rightarrow> bool \<Rightarrow> u64 \<Rightarrow> h2a_out \<Rightarrow> tlp \<Rightarrow> (h2a_out \<times> tlp) res" where
  "h2a_sop cfg unlimited cycle out s =
     rbind (pcie_tlp_h2a_msg cfg out s) (\<lambda>(out, s).
     rbind (if \<not> tvalid out \<and> mmio_reqs s \<noteq> [] then pcie_tlp_h2a_mem cfg unlimited cycle out s
            else Inr (True, out, s)) (\<lambda>(eop, out, s).
     if \<not> eop then Inr (out, s\<lparr>host_to_afu_state := TLP_STATE_MWR\<rparr>)
     else rbind (if \<not> tvalid out \<and> dma_read_cpls s \<noteq> [] then pcie_tlp_h2a_cpld cfg unlimited cycle out s
                 else Inr (True, out, s)) (\<lambda>(eop, out, s).
     Inr (out, if \<not> eop then s\<lparr>host_to_afu_state := TLP_STATE_CPL\<rparr> else s))))"

definition pcie_ss_stream_host_to_afu ::
  "ss_param_cfg \<Rightarrow> bool \<Rightarrow> (nat \<Rightarrow> u8) \<Rightarrow> u64 \<Rightarrow> bool \<Rightarrow> h2a_out \<Rightarrow> tlp \<Rightarrow> (h2a_out \<times> tlp) res" where
  "pcie_ss_stream_host_to_afu cfg unlimited junk cycle tready out s =
     (let out = out\<lparr>tvalid := False\<rparr>; back = (\<lambda>(eop, out, s).
            Inr (out, if eop then s\<lparr>host_to_afu_state := TLP_STATE_SOP\<rparr> else s)) in
      rbind (pcie_receive_dma_reads cfg unlimited junk (pcie_complete_dma_writes (s\<lparr>cur_cycle := cycle\<rparr>))) (\<lambda>s.
        if \<not> tready then Inr (out, s)
        else case host_to_afu_state s of
            TLP_STATE_SOP \<Rightarrow> h2a_sop cfg unlimited cycle out s
          | TLP_STATE_CPL \<Rightarrow> rbind (pcie_tlp_h2a_cpld cfg unlimited cycle out s) back
          | TLP_STATE_MWR \<Rightarrow> rbind (pcie_tlp_h2a_mem cfg unlimited cycle out s) back
          | TLP_STATE_MRD \<Rightarrow> Inr (out, start_simkill_countdown s)))"

end
