(* ===== verification/Tlp_Write.thy ===== *)
theory Tlp_Write
  imports Tlp_Stream
begin

text \<open>
  DMA writes from the hardware: the beats of a packet are collected and one write request is
  sent to the application. The lemmas follow the words of a packet through
  \<^const>\<open>collect_beat\<close>; the theorem covers packets of any number of beats.
\<close>

section \<open>Specification\<close>

text \<open>The beats of one packet with their last-beat flags, and a run of beats.\<close>

fun packet :: "'b list \<Rightarrow> (bool \<times> 'b) list" where
  "packet [] = []"
| "packet [b] = [(True, b)]"
| "packet (b # c # bs) = (False, b) # packet (c # bs)"

fun a2h_run :: "ss_param_cfg \<Rightarrow> u64 \<Rightarrow> (bool \<times> beat) list \<Rightarrow> tlp \<Rightarrow> tlp res" where
  "a2h_run cfg cycle [] s = Inr s"
| "a2h_run cfg cycle ((tlast, b) # bs) s =
     rbind (pcie_ss_stream_afu_to_host cfg cycle tlast b s) (a2h_run cfg cycle bs)"

text \<open>
  The words that the bus of \<open>W\<close> words carries after the header, which takes eight words
  of the first beat, and the number of beats that \<open>N\<close> words need.
\<close>

definition rest_words :: "nat \<Rightarrow> beat list \<Rightarrow> u32 list" where
  "rest_words W bs = concat (map (\<lambda>b. map (tdata b) [0..<W]) bs)"

definition packet_words :: "nat \<Rightarrow> beat \<Rightarrow> beat list \<Rightarrow> u32 list" where
  "packet_words W b bs = map (tdata b) [8..<W] @ rest_words W bs"

definition beats_fit :: "nat \<Rightarrow> nat \<Rightarrow> beat list \<Rightarrow> bool" where
  "beats_fit W N bs \<longleftrightarrow> N \<le> (W - 8) + W * length bs \<and> (bs = [] \<or> (W - 8) + W * (length bs - 1) < N)"

definition bytes_of_words :: "u32 list \<Rightarrow> u8 list" where
  "bytes_of_words ws = concat (map (le_bytes 4) ws)"

text \<open>
  A write that the checks of \<open>pcie_tlp_a2h_mwr\<close> accept, on a bus that is at least as wide as
  a header, with a payload buffer of whole words.
\<close>

definition legal_write :: "ss_param_cfg \<Rightarrow> hdr_upk \<Rightarrow> bool" where
  "legal_write cfg h \<longleftrightarrow> tlp_func_is_mwr_req (fmt_type h) \<and> \<not> func_is_atomic_req (fmt_type h) \<and>
     \<not> mwr_illegal cfg h \<and> 8 \<le> tlp_tdata_dwords cfg \<and> tlp_tdata_dwords cfg < 2 ^ 31 \<and>
     4 dvd max_any_wr_payload_bytes cfg \<and> max_any_wr_payload_bytes cfg < 2 ^ 31"

definition words_needed :: "hdr_upk \<Rightarrow> nat" where
  "words_needed h = (unat (len_bytes h) + 3) div 4"

section \<open>Collecting the words of a packet\<close>

definition collected :: "collect \<Rightarrow> u32 list \<Rightarrow> bool" where
  "collected c ws \<longleftrightarrow> unat (c_next_dw c) = length ws \<and> map (c_payload c) [0..<length ws] = ws"

lemma collectedI:
  "unat (c_next_dw c) = length ws \<Longrightarrow> (\<And>i. i < length ws \<Longrightarrow> c_payload c i = ws ! i) \<Longrightarrow> collected c ws"
  by (auto simp: collected_def intro: nth_equalityI)

lemma collectedD:
  assumes "collected c ws"
  shows "unat (c_next_dw c) = length ws" and "i < length ws \<Longrightarrow> c_payload c i = ws ! i"
proof -
  show "unat (c_next_dw c) = length ws" using assms by (simp add: collected_def)
  assume "i < length ws"
  then show "c_payload c i = ws ! i"
    using assms unfolding collected_def by (metis (no_types, lifting) add_0 diff_zero length_upt nth_map nth_upt)
qed

text \<open>One beat takes the words that are still missing, as far as the bus carries them.\<close>

lemma collect_beat_words:
  assumes c: "collected c ws" and W: "tlp_tdata_dwords cfg = W" "W < 2 ^ 31"
    and N: "length ws \<le> N" "4 * N \<le> sz" "sz < 2 ^ 31" and off: "off = (if sop then 8 else 0)" "off \<le> W"
    and k: "k = min (N - length ws) (W - off)"
  shows "\<exists>c'. collect_beat cfg sz sop tlast (of_nat N) d c = Inr ((N - length ws \<le> W - off) \<noteq> tlast, c') \<and>
    c_hdr c' = c_hdr c \<and> collected c' (ws @ map d [off..<off + k])"
proof -
  define m where "m = W - off"
  define r where "r = N - length ws"
  note cw = collectedD [OF c]
  have num: "of_nat (tdata_width_bits cfg div 32) - of_nat off = (of_nat m :: u32)"
    using off(2) W(1) by (simp add: m_def tlp_tdata_dwords_def of_nat_diff)
  have rem: "of_nat N - c_next_dw c = (of_nat r :: u32)"
  proof -
    have "c_next_dw c = of_nat (unat (c_next_dw c))" by simp
    then have "c_next_dw c = of_nat (length ws)" by (simp only: cw(1))
    then show ?thesis using N(1) by (simp add: r_def of_nat_diff)
  qed
  have m32: "m < 2 ^ 32" "r < 2 ^ 32" using W(2) N by (auto simp: m_def r_def)
  have gt: "(of_nat r > (of_nat m :: u32)) = (r > m)"
    using m32 by (simp add: word_less_nat_alt unat_of_nat)
  have mn: "(if of_nat r > (of_nat m :: u32) then of_nat m else of_nat r) = (of_nat k :: u32)"
    unfolding gt using k by (auto simp: m_def r_def)
  have kn: "unat (of_nat k :: u32) = k" using m32 k by (intro u32_of_nat) (auto simp: m_def r_def)
  have fits: "\<not> (k \<noteq> 0 \<and> 4 * (length ws + k) > sz)" using N k by auto
  have nx: "unat (c_next_dw c + of_nat k) = length ws + k"
  proof -
    have "length ws + k < 2 ^ 32" using N k by auto
    then have "unat (c_next_dw c) + unat (of_nat k :: u32) < 2 ^ LENGTH(32)" using cw(1) kn by simp
    then show ?thesis using unat_add_lem [of "c_next_dw c" "of_nat k"] cw(1) kn by simp
  qed
  have o: "(if sop then tlp_hdr_dwords else 0) = off" using off by (simp add: tlp_hdr_dwords_def)
  let ?p = "\<lambda>j. if length ws \<le> j \<and> j < length ws + k then d (j - length ws + off) else c_payload c j"
  let ?c = "c\<lparr>c_payload := ?p, c_next_dw := c_next_dw c + of_nat k\<rparr>"
  have "collect_beat cfg sz sop tlast (of_nat N) d c = Inr ((r \<le> m) \<noteq> tlast, ?c)"
    unfolding collect_beat_def Let_def o unfolding num rem unfolding mn unfolding copy_words_def cw(1) kn gt
    using fits by (auto simp: not_less)
  moreover have "collected ?c (ws @ map d [off..<off + k])"
    using nx cw by (intro collectedI) (auto simp: nth_append add.commute)
  ultimately show ?thesis by (auto simp: m_def r_def)
qed

lemma legal_writeD:
  assumes "legal_write cfg h"
  shows "tlp_func_is_mem_req (fmt_type h)" "tlp_func_is_mwr_req (fmt_type h)" "\<not> func_is_atomic_req (fmt_type h)"
    "\<not> mwr_illegal cfg h" "8 \<le> tlp_tdata_dwords cfg" "tlp_tdata_dwords cfg < 2 ^ 31"
    "max_any_wr_payload_bytes cfg < 2 ^ 31" "unat (len_bytes h) \<le> max_any_wr_payload_bytes cfg"
    "0 < unat (len_bytes h)" "0 < words_needed h" "4 * words_needed h \<le> max_any_wr_payload_bytes cfg"
    "(len_bytes h + 3) div 4 = of_nat (words_needed h)"
proof -
  show a: "tlp_func_is_mem_req (fmt_type h)" "tlp_func_is_mwr_req (fmt_type h)" "\<not> func_is_atomic_req (fmt_type h)"
    "\<not> mwr_illegal cfg h" "8 \<le> tlp_tdata_dwords cfg" "tlp_tdata_dwords cfg < 2 ^ 31" "max_any_wr_payload_bytes cfg < 2 ^ 31"
    using assms by (simp_all add: legal_write_def tlp_func_is_mwr_req_def)
  show n: "unat (len_bytes h) \<le> max_any_wr_payload_bytes cfg" "0 < unat (len_bytes h)"
    using a(4) by (auto simp: mwr_illegal_def Let_def max_any_wr_payload_bytes_def)
  then show "0 < words_needed h" by (simp add: words_needed_def)
  obtain q where q: "max_any_wr_payload_bytes cfg = 4 * q" using assms by (auto simp: legal_write_def)
  have "(unat (len_bytes h) + 3) div 4 \<le> q" using n(1) q by simp
  then show "4 * words_needed h \<le> max_any_wr_payload_bytes cfg" by (simp add: words_needed_def q)
  have "unat (len_bytes h) + unat (3 :: u32) < 2 ^ LENGTH(32)" using n(1) a(7) by simp
  then have "unat (len_bytes h + 3) = unat (len_bytes h) + 3"
    using unat_add_lem [of "len_bytes h" 3] by simp
  then show "(len_bytes h + 3) div 4 = of_nat (words_needed h)"
    using n(1) a(7) by (simp add: word_unat_eq_iff words_needed_def unat_div unat_of_nat)
qed

lemma payload_bytes_collected:
  assumes "collected c ws" and "length ws = (n + 3) div 4"
  shows "payload_bytes (c_payload c) n = take n (bytes_of_words ws)"
  using assms by (simp add: payload_bytes_def bytes_of_words_def collected_def flip: map_map [unfolded comp_def])

text \<open>One beat of a legal write.\<close>

lemma mwr_beat:
  assumes h: "legal_write cfg h" and W: "W = tlp_tdata_dwords cfg" and N: "N = words_needed h"
    and new: "new_hdr = Some h \<and> ws = [] \<and> off = 8 \<or> new_hdr = None \<and> c_hdr (mwr_pkt s) = h \<and> collected (mwr_pkt s) ws \<and> off = 0"
    and ws: "length ws \<le> N" and last: "tlast = (N - length ws \<le> W - off)"
    and k: "k = min (N - length ws) (W - off)"
  shows "\<exists>c. c_hdr c = h \<and> collected c (ws @ map d [off..<off + k]) \<and>
    pcie_tlp_a2h_mwr cfg tlast new_hdr d s =
      Inr (if tlast then send (OutWrite (mwr_request h) (payload_bytes (c_payload c) (unat (len_bytes h))))
                     (s\<lparr>mwr_pkt := c, num_dma_writes_pending := num_dma_writes_pending s + 1\<rparr>)
           else s\<lparr>mwr_pkt := c\<rparr>)"
proof -
  note l = legal_writeD [OF h]
  define c0 where "c0 = (case new_hdr of None \<Rightarrow> mwr_pkt s | Some h \<Rightarrow> (mwr_pkt s)\<lparr>c_hdr := h, c_next_dw := 0\<rparr>)"
  have c0: "collected c0 ws" "c_hdr c0 = h" using new by (auto simp: c0_def collected_def)
  have st: "(case new_hdr of None \<Rightarrow> (mwr_pkt s, s)
      | Some h \<Rightarrow> ((mwr_pkt s)\<lparr>c_hdr := h, c_next_dw := 0\<rparr>, kill_if (mwr_illegal cfg h) s)) = (c0, s)"
    using new l(4) by (auto simp: c0_def kill_if_def)
  have off: "off = (if new_hdr \<noteq> None then 8 else 0)" "off \<le> W" using new l(5) W by auto
  obtain c where c: "collect_beat cfg (max_any_wr_payload_bytes cfg) (new_hdr \<noteq> None) tlast (of_nat N) d c0 = Inr (False, c)"
    "c_hdr c = c_hdr c0" "collected c (ws @ map d [off..<off + k])"
    using collect_beat_words [OF c0(1) W [symmetric] _ ws _ l(7) off k, of tlast d] l(6,11) last unfolding W N by auto
  have nz: "max_any_wr_payload_bytes cfg \<noteq> 0" using l(8,9) by linarith
  have "pcie_tlp_a2h_mwr cfg tlast new_hdr d s =
      Inr (if tlast then send (OutWrite (mwr_request h) (payload_bytes (c_payload c) (unat (len_bytes h))))
                     (s\<lparr>mwr_pkt := c, num_dma_writes_pending := num_dma_writes_pending s + 1\<rparr>)
           else s\<lparr>mwr_pkt := c\<rparr>)"
    unfolding pcie_tlp_a2h_mwr_def st Let_def
    using nz c l(8) by (auto simp: c0(2) l(12) N [symmetric] kill_if_def not_less)
  then show ?thesis using c c0(2) by auto
qed

section \<open>Whole packets\<close>

text \<open>The state after a packet: one request is sent, the collecting buffer has been used.\<close>

definition write_sent :: "hdr_upk \<Rightarrow> u32 list \<Rightarrow> tlp \<Rightarrow> tlp \<Rightarrow> bool" where
  "write_sent h ws s s' \<longleftrightarrow> (\<exists>c. s' =
     s\<lparr>mwr_pkt := c, num_dma_writes_pending := num_dma_writes_pending s + 1,
       sent := sent s @ [OutWrite (mwr_request h) (take (unat (len_bytes h)) (bytes_of_words ws))],
       afu_to_host_state := TLP_STATE_SOP\<rparr>)"

lemma take_bytes_of_words:
  assumes "length ws = k" and "n \<le> 4 * k"
  shows "take n (bytes_of_words (ws @ vs)) = take n (bytes_of_words ws)"
proof -
  have "length (bytes_of_words ws) = 4 * length ws"
    by (induction ws) (auto simp: bytes_of_words_def)
  then show ?thesis using assms by (simp add: bytes_of_words_def)
qed

lemma write_sentI:
  assumes "collected c (ws @ map d [off..<off + k])" and "length ws + k = words_needed h"
    and "take (unat (len_bytes h)) (bytes_of_words (ws @ map d [off..<off + k])) = take (unat (len_bytes h)) (bytes_of_words vs)"
  shows "write_sent h vs s ((send (OutWrite (mwr_request h) (payload_bytes (c_payload c) (unat (len_bytes h))))
      (s\<lparr>mwr_pkt := c, num_dma_writes_pending := num_dma_writes_pending s + 1\<rparr>))\<lparr>afu_to_host_state := TLP_STATE_SOP\<rparr>)"
  using assms payload_bytes_collected [OF assms(1), of "unat (len_bytes h)"]
  by (auto simp: write_sent_def send_def words_needed_def)

lemma words_cover: "unat (len_bytes h) \<le> 4 * words_needed h"
  by (simp add: words_needed_def)

text \<open>The last beat may carry more words than the packet needs; the rest is ignored.\<close>

lemma last_words:
  assumes "length ws + k = words_needed h" and "k \<le> W - off" and "off \<le> W"
  shows "take (unat (len_bytes h)) (bytes_of_words (ws @ map d [off..<off + k])) =
    take (unat (len_bytes h)) (bytes_of_words (ws @ map d [off..<W]))"
proof -
  have "[off..<W] = [off..<off + k] @ [off + k..<W]"
    using assms(2,3) upt_add_eq_append [of off "off + k" "W - off - k"] by simp
  then show ?thesis
    using take_bytes_of_words [of "ws @ map d [off..<off + k]" "words_needed h" "unat (len_bytes h)" "map d [off + k..<W]"]
      words_cover [of h] assms(1) by simp
qed

lemma a2h_run_rest:
  assumes h: "legal_write cfg h" and W: "W = tlp_tdata_dwords cfg" and N: "N = words_needed h"
    and "afu_to_host_state s = TLP_STATE_MWR" "c_hdr (mwr_pkt s) = h" "collected (mwr_pkt s) ws"
    and "length ws \<le> N" "bs \<noteq> []" "N - length ws \<le> W * length bs" "W * (length bs - 1) < N - length ws"
  shows "\<exists>s'. a2h_run cfg cycle (packet bs) s = Inr s' \<and> write_sent h (ws @ rest_words W bs) s s'"
  using assms(4-)
proof (induction bs arbitrary: s ws rule: packet.induct)
  case (2 b)
  define k where "k = N - length ws"
  have k: "k = min (N - length ws) (W - 0)" "length ws + k = words_needed h" "k \<le> W - 0" using 2 by (auto simp: k_def N)
  obtain c where c: "c_hdr c = h" "collected c (ws @ map (tdata b) [0..<0 + k])" "pcie_tlp_a2h_mwr cfg True None (tdata b) s =
      Inr (send (OutWrite (mwr_request h) (payload_bytes (c_payload c) (unat (len_bytes h))))
         (s\<lparr>mwr_pkt := c, num_dma_writes_pending := num_dma_writes_pending s + 1\<rparr>))"
    using mwr_beat [OF h W N, of None ws 0 s True k "tdata b"] 2 k by auto
  have "write_sent h (ws @ rest_words W [b]) s ((send (OutWrite (mwr_request h) (payload_bytes (c_payload c) (unat (len_bytes h))))
      (s\<lparr>mwr_pkt := c, num_dma_writes_pending := num_dma_writes_pending s + 1\<rparr>))\<lparr>afu_to_host_state := TLP_STATE_SOP\<rparr>)"
    using last_words [OF k(2,3), of "tdata b"] by (intro write_sentI [OF c(2) k(2)]) (simp add: rest_words_def)
  then show ?case using c(3) 2(1) by (simp add: pcie_ss_stream_afu_to_host_def)
next
  case (3 b b' bs)
  have gt: "W < N - length ws" using 3(8) by (simp add: add_lessD1)
  obtain c where c: "c_hdr c = h" "collected c (ws @ map (tdata b) [0..<0 + W])"
    "pcie_tlp_a2h_mwr cfg False None (tdata b) s = Inr (s\<lparr>mwr_pkt := c\<rparr>)"
    using mwr_beat [OF h W N, of None ws 0 s False W "tdata b"] 3 gt by auto
  define s1 where "s1 = s\<lparr>mwr_pkt := c\<rparr>"
  have ar: "length ws + W \<le> N" "N - (length ws + W) \<le> W + W * length bs" "W * length bs < N - (length ws + W)"
    using 3(7,8) gt by simp_all
  obtain s' where s': "a2h_run cfg cycle (packet (b' # bs)) s1 = Inr s'"
    "write_sent h ((ws @ map (tdata b) [0..<W]) @ rest_words W (b' # bs)) s1 s'"
    using 3(1) [of s1 "ws @ map (tdata b) [0..<W]"] 3(2-4) c ar by (auto simp: s1_def)
  have "write_sent h (ws @ rest_words W (b # b' # bs)) s s'"
    using s'(2) by (auto simp: s1_def write_sent_def rest_words_def)
  then show ?case using s'(1) c(3) 3(2) by (auto simp: pcie_ss_stream_afu_to_host_def s1_def)
qed simp

lemma write_packet_run:
  assumes "legal_write cfg h" and "afu_to_host_state s = TLP_STATE_SOP"
    and "pcie_ss_tlp_hdr_unpack b = (h, False)"
    and "W = tlp_tdata_dwords cfg" and "beats_fit W (words_needed h) bs"
  shows "\<exists>s' c. a2h_run cfg cycle (packet (b # bs)) s = Inr s' \<and>
    s' = s\<lparr>a2h_hdr := h, mwr_pkt := c, num_dma_writes_pending := num_dma_writes_pending s + 1,
      sent := sent s @ [OutWrite (mwr_request h) (take (unat (len_bytes h)) (bytes_of_words (packet_words W b bs)))],
      afu_to_host_state := TLP_STATE_SOP\<rparr>"
proof -
  note l = legal_writeD [OF assms(1)] and kinds = tlp_mem_only [OF legal_writeD(1) [OF assms(1)]]
  define s0 where "s0 = s\<lparr>a2h_hdr := h\<rparr>"
  define N where "N = words_needed h"
  have W8: "8 \<le> W" using l(5) assms(4) by simp
  have step: "pcie_ss_stream_afu_to_host cfg cycle tlast b s =
      rbind (pcie_tlp_a2h_mwr cfg tlast (Some h) (tdata b) s0) (\<lambda>s.
        Inr (s\<lparr>afu_to_host_state := if tlast then TLP_STATE_SOP else TLP_STATE_MWR\<rparr>))" for tlast
    using assms(2,3) l(1-3) kinds
    by (auto simp: pcie_ss_stream_afu_to_host_def a2h_sop_def Let_def s0_def kill_if_def rbind_def split: sum.splits)
  have "\<exists>s'. a2h_run cfg cycle (packet (b # bs)) s = Inr s' \<and> write_sent h (packet_words W b bs) s0 s'"
  proof (cases bs)
    case Nil
    have k: "N = min (N - length ([] :: u32 list)) (W - 8)" "length ([] :: u32 list) + N = words_needed h" "N \<le> W - 8"
      using assms(5) Nil by (auto simp: N_def beats_fit_def)
    obtain c where c: "c_hdr c = h" "collected c ([] @ map (tdata b) [8..<8 + N])"
      "pcie_tlp_a2h_mwr cfg True (Some h) (tdata b) s0 =
        Inr (send (OutWrite (mwr_request h) (payload_bytes (c_payload c) (unat (len_bytes h))))
         (s0\<lparr>mwr_pkt := c, num_dma_writes_pending := num_dma_writes_pending s0 + 1\<rparr>))"
      using mwr_beat [OF assms(1,4) N_def, of "Some h" "[]" 8 s0 True N "tdata b"] k by auto
    have "write_sent h (packet_words W b bs) s0 ((send (OutWrite (mwr_request h) (payload_bytes (c_payload c) (unat (len_bytes h))))
        (s0\<lparr>mwr_pkt := c, num_dma_writes_pending := num_dma_writes_pending s0 + 1\<rparr>))\<lparr>afu_to_host_state := TLP_STATE_SOP\<rparr>)"
      using last_words [OF k(2,3) W8, of "tdata b"]
      by (intro write_sentI [OF c(2) k(2)]) (simp add: Nil packet_words_def rest_words_def)
    then show ?thesis by (simp add: Nil step c(3))
  next
    case (Cons b' bs')
    have f: "N \<le> (W - 8) + W * length bs" "(W - 8) + W * (length bs - 1) < N"
      using assms(5) Cons by (auto simp: N_def beats_fit_def)
    then have gt: "W - 8 < N" by linarith
    obtain c where c: "c_hdr c = h" "collected c ([] @ map (tdata b) [8..<8 + (W - 8)])"
      "pcie_tlp_a2h_mwr cfg False (Some h) (tdata b) s0 = Inr (s0\<lparr>mwr_pkt := c\<rparr>)"
      using mwr_beat [OF assms(1,4) N_def, of "Some h" "[]" 8 s0 False "W - 8" "tdata b"] gt by auto
    have ar: "N + 8 - W \<le> W + W * length bs'" "W * length bs' < N + 8 - W" using f W8 Cons by simp_all
    define s1 where "s1 = s0\<lparr>mwr_pkt := c, afu_to_host_state := TLP_STATE_MWR\<rparr>"
    obtain s' where s': "a2h_run cfg cycle (packet bs) s1 = Inr s'"
      "write_sent h (map (tdata b) [8..<W] @ rest_words W bs) s1 s'"
      using a2h_run_rest [OF assms(1,4) N_def, of s1 "map (tdata b) [8..<W]" bs cycle] c ar gt W8 Cons
      by (auto simp: s1_def)
    have "write_sent h (packet_words W b bs) s0 s'"
      using s'(2) by (auto simp: s1_def write_sent_def packet_words_def)
    then show ?thesis using s'(1) by (auto simp: Cons step c(3) s1_def)
  qed
  then show ?thesis using assms(2) by (auto simp: write_sent_def s0_def)
qed


text \<open>A write of 64 bytes to 0x40012344 on a bus of 512 bits: two beats.\<close>

definition demo_wr_beat :: beat where
  "demo_wr_beat = \<lparr>tdata = (\<lambda>i. [0x40000010, 0xff, 0x40012344, 0, 0, 0x4000, 0, 0, 11, 12, 13, 14, 15, 16, 17, 18] ! i),
     tuser = (\<lambda>_. 0), tkeep = (\<lambda>_. 0)\<rparr>"

definition demo_wr_beat2 :: beat where
  "demo_wr_beat2 = \<lparr>tdata = (\<lambda>i. of_nat (21 + i)), tuser = (\<lambda>_. 0), tkeep = (\<lambda>_. 0)\<rparr>"

lemma demo_wr_hdr:
  "pcie_ss_tlp_hdr_unpack demo_wr_beat = (pcie_ss_tlp_hdr_reset\<lparr>vf_active := 1, fmt_type := 0x40, len_bytes := 64,
     u_req := \<lparr>req_addr = 0x40012344, last_dw_be = 0xf, first_dw_be = 0xf,
       req_attr = req_attr (u_req pcie_ss_tlp_hdr_reset)\<rparr>\<rparr>, False)"
  by (simp add: demo_wr_beat_def pcie_ss_tlp_hdr_unpack_def Let_def hdr_unpack_common_def svGet_words
      hdr_unpack_mem_def hdr_get_tag_def tlp_func_is_mem_req_def PCIE_TYPE_MEM_RW_def pcie_ss_tlp_hdr_reset_def
      tlp_func_is_addr64_def tlp_func_is_addr32_def)

lemma demo_wr_legal: "legal_write demo_cfg (fst (pcie_ss_tlp_hdr_unpack demo_wr_beat))"
  by (simp add: demo_wr_hdr legal_write_def demo_cfg_def mwr_illegal_def tlp_func_is_mwr_req_def tlp_func_is_mem_req_def
      tlp_func_has_data_def PCIE_TYPE_MEM_RW_def func_is_atomic_req_def pcie_ss_tlp_hdr_reset_def
      tlp_func_is_addr64_def tlp_func_is_addr32_def tlp_tdata_dwords_def
      max_any_wr_payload_bytes_def)

lemma demo_wr_fits:
  "beats_fit (tlp_tdata_dwords demo_cfg) (words_needed (fst (pcie_ss_tlp_hdr_unpack demo_wr_beat))) [demo_wr_beat2]"
  by (simp add: demo_wr_hdr beats_fit_def words_needed_def demo_cfg_def tlp_tdata_dwords_def)


end
