(* ===== verification/Tlp_Mmio.thy ===== *)
theory Tlp_Mmio
  imports Tlp_Host Tlp_Write
begin

text \<open>
  MMIO through the transaction layer: a read request of the application is tracked under its
  slot, goes to the hardware as a memory read with the slot as tag, and the completion of the
  hardware becomes the response packet with the transaction id of the request.
\<close>

section \<open>A completion in one beat\<close>

text \<open>A completion of an MMIO read of 4 or 8 bytes that the checks accept.\<close>

definition mmio_cpl_ok :: "ss_param_cfg \<Rightarrow> hdr_upk \<Rightarrow> bool" where
  "mmio_cpl_ok cfg h \<longleftrightarrow> tlp_func_is_completion (fmt_type h) \<and> tlp_func_has_data (fmt_type h) \<and>
     (len_bytes h = 4 \<or> len_bytes h = 8) \<and> ucast (byte_count (u_cpl h)) = len_bytes h \<and>
     8 \<le> max_rd_req_bytes cfg \<and> max_rd_req_bytes cfg < 2 ^ 31 \<and> 10 \<le> tlp_tdata_dwords cfg \<and> tlp_tdata_dwords cfg < 2 ^ 31"

lemma mmio_cpl_legal:
  assumes "mmio_cpl_ok cfg h"
  shows "cpld_illegal cfg h \<longleftrightarrow> unat (tag h) > max_outstanding_mmio_rd_reqs cfg"
proof -
  have l: "unat (len_bytes h) \<le> 8" "unat (len_bytes h) \<le> max_rd_req_bytes cfg" using assms by (auto simp: mmio_cpl_ok_def)
  have "unat (byte_count (u_cpl h)) = unat (len_bytes h)"
    using assms unat_u16_u32 [of "byte_count (u_cpl h)"] by (simp add: mmio_cpl_ok_def)
  then show ?thesis using assms l unfolding cpld_illegal_def by (auto simp: mmio_cpl_ok_def word_less_nat_alt)
qed

text \<open>The whole payload is in the first beat.\<close>

lemma mmio_cpl_collect:
  assumes "mmio_cpl_ok cfg h" and "n = unat (len_bytes h)"
  shows "\<exists>c. collect_beat cfg (max_rd_req_bytes cfg) True True (len_bytes h div 4) d (c0\<lparr>c_hdr := h, c_next_dw := 0\<rparr>) = Inr (False, c) \<and>
    c_hdr c = h \<and> payload_bytes (c_payload c) n = take n (bytes_of_words [d 8, d 9])"
proof -
  define N where "N = n div 4"
  have n: "n = 4 \<or> n = 8" using assms by (auto simp: mmio_cpl_ok_def)
  have Nn: "n = 4 \<and> N = 1 \<or> n = 8 \<and> N = 2" using n by (auto simp: N_def)
  have dv: "len_bytes h div 4 = of_nat N" using assms by (auto simp: mmio_cpl_ok_def N_def)
  have cd: "collected (c0\<lparr>c_hdr := h, c_next_dw := 0\<rparr>) []" by (simp add: collected_def)
  have ge: "N \<le> tlp_tdata_dwords cfg - 8" "4 * N \<le> max_rd_req_bytes cfg" using assms(1) n by (auto simp: mmio_cpl_ok_def N_def)
  obtain c where c: "collect_beat cfg (max_rd_req_bytes cfg) True True (of_nat N) d (c0\<lparr>c_hdr := h, c_next_dw := 0\<rparr>) = Inr (False, c)"
    "c_hdr c = h" "collected c ([] @ map d [8..<8 + N])"
    using collect_beat_words [OF cd refl, of cfg N "max_rd_req_bytes cfg" 8 True N True d] assms(1) ge
    by (auto simp: mmio_cpl_ok_def)
  have "payload_bytes (c_payload c) n = take n (bytes_of_words (map d [8..<8 + N]))"
    using payload_bytes_collected [OF c(3), of n] n by (auto simp: N_def)
  also have "\<dots> = take n (bytes_of_words [d 8, d 9])" using Nn
    by (elim disjE conjE) (simp_all add: bytes_of_words_def upt_conv_Cons)
  finally show ?thesis using c by (simp add: dv)
qed

text \<open>The words of the answer.\<close>

lemma le_word_append: "le_word (as @ bs) = (le_word as OR push_bit (8 * length as) (le_word bs) :: 'a::len word)"
  by (induction as) (simp_all add: push_bit_or or.assoc push_bit_push_bit)

lemma le_bytes_widen: "n \<le> 4 \<Longrightarrow> le_bytes n (w :: u32) = le_bytes n (ucast w :: u64)"
  unfolding le_bytes_def by (rule map_cong [OF refl]) (rule bit_word_eqI, auto simp: bit_simps)

lemma le_word_4: "le_word (le_bytes 4 (w :: u32)) = (ucast w :: u64)"
  by (simp add: le_bytes_widen le_word_le_bytes) (rule bit_word_eqI, auto simp: bit_simps dest: bit_imp_le_length)

lemma answer_word:
  assumes "n = 4 \<or> n = 8" and "q = take n (bytes_of_words [w0, w1]) @ r"
  shows "n = 4 \<Longrightarrow> ucast (words_of_bytes q ! 0) = w0"
    and "n = 8 \<Longrightarrow> words_of_bytes q ! 0 = push_bit 32 (ucast w1) OR ucast w0"
proof -
  have w: "words_of_bytes q ! 0 = le_word (take 8 q)" by (simp add: words_of_bytes_def)
  show "ucast (words_of_bytes q ! 0) = w0" if "n = 4"
  proof -
    have "take 8 q = le_bytes 4 w0 @ take 4 r" by (simp add: assms(2) that bytes_of_words_def)
    then have "words_of_bytes q ! 0 = ucast w0 OR push_bit 32 (le_word (take 4 r))"
      unfolding w by (simp add: le_word_append le_word_4)
    then show ?thesis by (auto intro!: bit_word_eqI simp: bit_simps)
  qed
  show "words_of_bytes q ! 0 = push_bit 32 (ucast w1) OR ucast w0" if "n = 8"
  proof -
    have "take 8 q = le_bytes 4 w0 @ le_bytes 4 w1" by (simp add: assms(2) that bytes_of_words_def)
    then show ?thesis unfolding w by (simp add: le_word_append le_word_4 or.commute)
  qed
qed

lemma mmio_completion:
  assumes h: "mmio_cpl_ok cfg h" and s: "afu_to_host_state s = TLP_STATE_SOP" and b: "pcie_ss_tlp_hdr_unpack b = (h, False)"
    and t: "t = unat (tag h)" and n: "n = unat (len_bytes h)" and m: "m = mmio_read_state s ! t" "mrs_busy m"
    and r: "t < length (mmio_read_state s)" "t \<le> max_outstanding_mmio_rd_reqs cfg"
  shows "\<exists>c q. pcie_ss_stream_afu_to_host cfg cycle True b s = Inr (s\<lparr>a2h_hdr := h, cpld_pkt := c, cpld_qword := q,
      mmio_read_state := (mmio_read_state s)[t := m\<lparr>mrs_busy := False\<rparr>], sent := sent s @ [OutMmio (cpld_mmio_pkt m h q)]\<rparr>) \<and>
    q = take n (bytes_of_words [tdata b 8, tdata b 9]) @ drop n (cpld_qword s)"
proof -
  have k: "tlp_func_is_completion (fmt_type h)" "tlp_func_has_data (fmt_type h)" using h by (auto simp: mmio_cpl_ok_def)
  note kinds = tlp_cpl_only [OF k(1)]
  have n8: "\<not> (64 < n \<or> max_rd_req_bytes cfg < n)" "max_rd_req_bytes cfg \<noteq> 0" using h n by (auto simp: mmio_cpl_ok_def)
  obtain c where c: "collect_beat cfg (max_rd_req_bytes cfg) True True (len_bytes h div 4) (tdata b)
      ((cpld_pkt s)\<lparr>c_hdr := h, c_next_dw := 0\<rparr>) = Inr (False, c)" "c_hdr c = h"
    "payload_bytes (c_payload c) n = take n (bytes_of_words [tdata b 8, tdata b 9])"
    using mmio_cpl_collect [OF h n] by blast
  define q where "q = take n (bytes_of_words [tdata b 8, tdata b 9]) @ drop n (cpld_qword s)"
  have "pcie_ss_stream_afu_to_host cfg cycle True b s = Inr (s\<lparr>a2h_hdr := h, cpld_pkt := c, cpld_qword := q,
      mmio_read_state := (mmio_read_state s)[t := m\<lparr>mrs_busy := False\<rparr>], sent := sent s @ [OutMmio (cpld_mmio_pkt m h q)]\<rparr>)"
    using s b k kinds r m n8 c mmio_cpl_legal [OF h]
    by (simp add: pcie_ss_stream_afu_to_host_def a2h_sop_def Let_def pcie_tlp_a2h_cpld_def kill_if_def q_def send_def
        flip: t n)
  then show ?thesis using q_def by blast
qed

section \<open>Examples\<close>

text \<open>A completion of 8 bytes with the tag \<open>t\<close>, and a read request of the slot 1.\<close>

definition demo_cpl_beat :: "u32 \<Rightarrow> beat" where
  "demo_cpl_beat t = \<lparr>tdata = (\<lambda>i. [0x4a000002, 8, push_bit 8 t, 0, 0, 0x4000, 0, 0, 5, 6, 0, 0, 0, 0, 0, 0] ! i),
     tuser = (\<lambda>_. 0), tkeep = (\<lambda>_. 0)\<rparr>"

definition demo_cpl_hdr :: "u16 \<Rightarrow> hdr_upk" where
  "demo_cpl_hdr t = pcie_ss_tlp_hdr_reset\<lparr>vf_active := 1, fmt_type := 0x4a, len_bytes := 8, tag := t,
     u_cpl := (u_cpl pcie_ss_tlp_hdr_reset)\<lparr>byte_count := 8\<rparr>\<rparr>"

definition demo_mmio_read :: mmio_pkt where
  "demo_mmio_read = \<lparr>pkt_tid = 77, pkt_write_en = MMIO_READ_REQ, pkt_width = 64, pkt_addr = 0x20, pkt_qword = replicate 8 0,
     pkt_resp_en = 0, pkt_slot_idx = 1, pkt_afu_idx = 0\<rparr>"

lemma demo_cpl_unpack:
  "pcie_ss_tlp_hdr_unpack (demo_cpl_beat 1) = (demo_cpl_hdr 1, False)"
  "pcie_ss_tlp_hdr_unpack (demo_cpl_beat 2) = (demo_cpl_hdr 2, False)"
  by (simp_all add: demo_cpl_beat_def demo_cpl_hdr_def pcie_ss_tlp_hdr_unpack_def Let_def hdr_unpack_common_def svGet_words
      hdr_unpack_cpl_def hdr_get_tag_def tlp_func_is_mem_req_def func_is_atomic_req_def PCIE_TYPE_MEM_RW_def
      tlp_func_is_completion_def PCIE_TYPE_CPL_def pcie_ss_tlp_hdr_reset_def)

lemma demo_cpl_ok: "mmio_cpl_ok demo_cfg (demo_cpl_hdr t)"
  by (simp add: mmio_cpl_ok_def demo_cfg_def demo_cpl_hdr_def tlp_func_is_completion_def PCIE_TYPE_CPL_def
      tlp_func_has_data_def tlp_tdata_dwords_def)

definition demo_mmio_tlp :: tlp where
  "demo_mmio_tlp = demo_tlp\<lparr>mmio_read_state := replicate 2 \<lparr>mrs_start_cycle = 0, mrs_tid = 0, mrs_busy = False\<rparr>\<rparr>"

section \<open>Requests and their answers\<close>

text \<open>An MMIO read of the application whose slot and transaction id are in range.\<close>

definition mmio_read_req_ok :: "ss_param_cfg \<Rightarrow> mmio_pkt \<Rightarrow> bool" where
  "mmio_read_req_ok cfg m \<longleftrightarrow> pkt_write_en m = MMIO_READ_REQ \<and> pkt_afu_idx m < int (num_afu_ports cfg) \<and>
     0 \<le> pkt_slot_idx m \<and> pkt_slot_idx m < int (max_outstanding_mmio_rd_reqs cfg) \<and>
     max_outstanding_mmio_rd_reqs cfg \<le> 2 ^ 16 \<and> 0 \<le> pkt_tid m \<and> pkt_tid m < 2 ^ 16"

lemma mmio_new_read:
  assumes "mmio_read_req_ok cfg m" and "length (mmio_read_state s) = max_outstanding_mmio_rd_reqs cfg"
    and "i = nat (pkt_slot_idx m)" and "\<not> mrs_busy (mmio_read_state s ! i)"
  shows "pcie_ss_mmio_new_req cfg m s = Inr (s\<lparr>mmio_reqs := mmio_reqs s @ [m], mmio_read_state := (mmio_read_state s)[i :=
    \<lparr>mrs_start_cycle = cur_cycle s, mrs_tid = of_int (pkt_tid m), mrs_busy = True\<rparr>]\<rparr>)"
  using assms by (auto simp: mmio_read_req_ok_def pcie_ss_mmio_new_req_def track_mmio_read_def Let_def kill_if_def)

lemma mmio_hdr_tag:
  assumes "mmio_read_req_ok cfg m"
  shows "unat (tag (mmio_hdr m)) = nat (pkt_slot_idx m)" and "uint (tag (mmio_hdr m)) = pkt_slot_idx m"
proof -
  have "uint (of_int (pkt_slot_idx m) :: u16) = pkt_slot_idx m"
    using assms by (simp add: mmio_read_req_ok_def uint_word_of_int_eq take_bit_int_eq_self)
  then show "unat (tag (mmio_hdr m)) = nat (pkt_slot_idx m)" "uint (tag (mmio_hdr m)) = pkt_slot_idx m"
    by (simp_all add: mmio_hdr_def afu_idx_to_hdr_pf_vf_def unat_eq_nat_uint)
qed

text \<open>
  C10: An MMIO read is answered with the data of its own completion. A read request with an idle
  slot is queued and tracked; whatever the stream does in between, as long as the slot keeps
  its entry, a completion of the hardware with the tag that the request packet carries
  produces one response, without an error: it has the transaction id and the slot of the
  request, and its first data word is the word of the completion. The slot is idle again.
\<close>

theorem mmio_read_answer:
  assumes "mmio_read_req_ok cfg m" and "length (mmio_read_state s) = max_outstanding_mmio_rd_reqs cfg"
    and "i = nat (pkt_slot_idx m)" and "\<not> mrs_busy (mmio_read_state s ! i)"
  shows "\<exists>s1. pcie_ss_mmio_new_req cfg m s = Inr s1 \<and> mmio_reqs s1 = mmio_reqs s @ [m] \<and> killed s1 = killed s \<and>
    (\<forall>s2 b h. mmio_cpl_ok cfg h \<and> tag h = tag (mmio_hdr m) \<and> pcie_ss_tlp_hdr_unpack b = (h, False) \<and>
       afu_to_host_state s2 = TLP_STATE_SOP \<and> length (mmio_read_state s2) = length (mmio_read_state s1) \<and>
       mmio_read_state s2 ! i = mmio_read_state s1 ! i \<longrightarrow>
     (\<exists>s3 a. pcie_ss_stream_afu_to_host cfg cycle True b s2 = Inr s3 \<and> killed s3 = killed s2 \<and>
        sent s3 = sent s2 @ [OutMmio a] \<and> pkt_tid a = pkt_tid m \<and> pkt_slot_idx a = pkt_slot_idx m \<and> pkt_resp_en a = 1 \<and>
        pkt_write_en a = MMIO_READ_REQ \<and> \<not> mrs_busy (mmio_read_state s3 ! i) \<and>
        (if len_bytes h = 4 then ucast (pkt_qword a ! 0) = tdata b 8 else pkt_qword a ! 0 = word_pair (tdata b) 8)))"
proof -
  define e where "e = \<lparr>mrs_start_cycle = cur_cycle s, mrs_tid = of_int (pkt_tid m), mrs_busy = True\<rparr>"
  define s1 where "s1 = s\<lparr>mmio_reqs := mmio_reqs s @ [m], mmio_read_state := (mmio_read_state s)[i := e]\<rparr>"
  have i: "i < max_outstanding_mmio_rd_reqs cfg" using assms(1,3) by (auto simp: mmio_read_req_ok_def)
  have tid: "uint (mrs_tid e) = pkt_tid m"
    using assms(1) by (simp add: e_def mmio_read_req_ok_def uint_word_of_int_eq take_bit_int_eq_self)
  have "\<exists>s3 a. pcie_ss_stream_afu_to_host cfg cycle True b s2 = Inr s3 \<and> killed s3 = killed s2 \<and>
        sent s3 = sent s2 @ [OutMmio a] \<and> pkt_tid a = pkt_tid m \<and> pkt_slot_idx a = pkt_slot_idx m \<and> pkt_resp_en a = 1 \<and>
        pkt_write_en a = MMIO_READ_REQ \<and> \<not> mrs_busy (mmio_read_state s3 ! i) \<and>
        (if len_bytes h = 4 then ucast (pkt_qword a ! 0) = tdata b 8 else pkt_qword a ! 0 = word_pair (tdata b) 8)"
    if h: "mmio_cpl_ok cfg h" "tag h = tag (mmio_hdr m)" "pcie_ss_tlp_hdr_unpack b = (h, False)" "afu_to_host_state s2 = TLP_STATE_SOP"
      "length (mmio_read_state s2) = length (mmio_read_state s1)" "mmio_read_state s2 ! i = mmio_read_state s1 ! i" for s2 b h
  proof -
    have t: "i = unat (tag h)" "uint (tag h) = pkt_slot_idx m" using mmio_hdr_tag [OF assms(1)] h(2) assms(3) by simp_all
    have ent: "e = mmio_read_state s2 ! i" "i < length (mmio_read_state s2)" using h(5,6) i assms(2) by (simp_all add: s1_def)
    have eb: "mrs_busy e" by (simp add: e_def)
    obtain c q where q: "pcie_ss_stream_afu_to_host cfg cycle True b s2 = Inr (s2\<lparr>a2h_hdr := h, cpld_pkt := c, cpld_qword := q,
        mmio_read_state := (mmio_read_state s2)[i := e\<lparr>mrs_busy := False\<rparr>], sent := sent s2 @ [OutMmio (cpld_mmio_pkt e h q)]\<rparr>)"
      "q = take (unat (len_bytes h)) (bytes_of_words [tdata b 8, tdata b 9]) @ drop (unat (len_bytes h)) (cpld_qword s2)"
      using mmio_completion [OF h(1,4,3) t(1) refl ent(1) eb ent(2)] i by fastforce
    have l: "unat (len_bytes h) = 4 \<or> unat (len_bytes h) = 8" "len_bytes h = 4 \<or> len_bytes h = 8" using h(1) by (auto simp: mmio_cpl_ok_def)
    note a = answer_word [OF l(1) q(2)]
    have w: "if len_bytes h = 4 then ucast (words_of_bytes q ! 0) = tdata b 8 else words_of_bytes q ! 0 = word_pair (tdata b) 8"
      using a l(2) by (auto simp: word_pair_def)
    show ?thesis
      by (rule exI, rule exI [of _ "cpld_mmio_pkt e h q"], rule conjI [OF q(1)])
        (use w t(2) tid ent(2) in \<open>simp add: cpld_mmio_pkt_def\<close>)
  qed
  then show ?thesis
    using mmio_new_read [OF assms, folded e_def, folded s1_def] by (intro exI [of _ s1]) (auto simp: s1_def)
qed

theorem mmio_read_answer_witness:
  "\<exists>s1 s3 a. pcie_ss_mmio_new_req demo_cfg demo_mmio_read demo_mmio_tlp = Inr s1 \<and>
     pcie_ss_stream_afu_to_host demo_cfg 9 True (demo_cpl_beat 1) s1 = Inr s3 \<and> sent s3 = sent s1 @ [OutMmio a] \<and>
     pkt_tid a = 77 \<and> pkt_qword a ! 0 = 0x600000005"
proof -
  have ok: "mmio_read_req_ok demo_cfg demo_mmio_read"
    by (simp add: mmio_read_req_ok_def demo_cfg_def demo_mmio_read_def)
  have l: "length (mmio_read_state demo_mmio_tlp) = max_outstanding_mmio_rd_reqs demo_cfg"
    "1 = nat (pkt_slot_idx demo_mmio_read)" "\<not> mrs_busy (mmio_read_state demo_mmio_tlp ! 1)"
    by (simp_all add: demo_mmio_tlp_def demo_cfg_def demo_mmio_read_def)
  have tg: "tag (demo_cpl_hdr 1) = tag (mmio_hdr demo_mmio_read)"
    by (simp add: demo_cpl_hdr_def mmio_hdr_def demo_mmio_read_def afu_idx_to_hdr_pf_vf_def)
  obtain s1 where s1: "pcie_ss_mmio_new_req demo_cfg demo_mmio_read demo_mmio_tlp = Inr s1"
    and n: "\<And>s2 b h. mmio_cpl_ok demo_cfg h \<and> tag h = tag (mmio_hdr demo_mmio_read) \<and> pcie_ss_tlp_hdr_unpack b = (h, False) \<and>
       afu_to_host_state s2 = TLP_STATE_SOP \<and> length (mmio_read_state s2) = length (mmio_read_state s1) \<and>
       mmio_read_state s2 ! 1 = mmio_read_state s1 ! 1 \<longrightarrow>
     (\<exists>s3 a. pcie_ss_stream_afu_to_host demo_cfg 9 True b s2 = Inr s3 \<and> killed s3 = killed s2 \<and>
        sent s3 = sent s2 @ [OutMmio a] \<and> pkt_tid a = pkt_tid demo_mmio_read \<and> pkt_slot_idx a = pkt_slot_idx demo_mmio_read \<and> pkt_resp_en a = 1 \<and>
        pkt_write_en a = MMIO_READ_REQ \<and> \<not> mrs_busy (mmio_read_state s3 ! 1) \<and>
        (if len_bytes h = 4 then ucast (pkt_qword a ! 0) = tdata b 8 else pkt_qword a ! 0 = word_pair (tdata b) 8))"
    using mmio_read_answer [OF ok l, of 9] by blast
  have st: "afu_to_host_state s1 = TLP_STATE_SOP"
    using s1 mmio_new_read [OF ok l] by (auto simp: demo_mmio_tlp_def demo_tlp_def Let_def)
  have len: "len_bytes (demo_cpl_hdr 1) = 8" by (simp add: demo_cpl_hdr_def)
  obtain s3 a where "pcie_ss_stream_afu_to_host demo_cfg 9 True (demo_cpl_beat 1) s1 = Inr s3" "sent s3 = sent s1 @ [OutMmio a]"
    "pkt_tid a = pkt_tid demo_mmio_read" "pkt_qword a ! 0 = word_pair (tdata (demo_cpl_beat 1)) 8"
    using n [of "demo_cpl_hdr 1" "demo_cpl_beat 1" s1] demo_cpl_ok tg demo_cpl_unpack(1) st len by auto
  moreover have "word_pair (tdata (demo_cpl_beat 1)) 8 = 0x600000005" by (simp add: word_pair_def demo_cpl_beat_def)
  ultimately show ?thesis using s1 by (auto simp: demo_mmio_read_def)
qed

text \<open>
  C40: The check of the tag of an MMIO completion is off by one. The number of read states is
  \<open>n\<close> and the tags in use are below \<open>n\<close>, but a completion with the tag \<open>n\<close> passes every
  check, and the code then reads and writes the entry \<open>n\<close>, past the end of the array.
\<close>

theorem mmio_tag_off_by_one:
  assumes "mmio_cpl_ok cfg h" and "unat (tag h) = max_outstanding_mmio_rd_reqs cfg"
    and "length (mmio_read_state s) = max_outstanding_mmio_rd_reqs cfg"
    and "afu_to_host_state s = TLP_STATE_SOP" and "pcie_ss_tlp_hdr_unpack b = (h, False)"
  shows "\<not> cpld_illegal cfg h \<and> pcie_ss_stream_afu_to_host cfg cycle True b s = Inl Segv"
proof -
  have k: "tlp_func_is_completion (fmt_type h)" "tlp_func_has_data (fmt_type h)" using assms(1) by (auto simp: mmio_cpl_ok_def)
  have n8: "max_rd_req_bytes cfg \<noteq> 0" using assms(1) by (auto simp: mmio_cpl_ok_def)
  obtain c where "collect_beat cfg (max_rd_req_bytes cfg) True True (len_bytes h div 4) (tdata b)
      ((cpld_pkt s)\<lparr>c_hdr := h, c_next_dw := 0\<rparr>) = Inr (False, c)" "c_hdr c = h"
    using mmio_cpl_collect [OF assms(1) refl] by blast
  then show ?thesis
    using assms(2-) k tlp_cpl_only [OF k(1)] n8 mmio_cpl_legal [OF assms(1)]
    by (simp add: pcie_ss_stream_afu_to_host_def a2h_sop_def Let_def pcie_tlp_a2h_cpld_def kill_if_def)
qed

theorem mmio_tag_off_by_one_witness:
  "\<not> cpld_illegal demo_cfg (demo_cpl_hdr 2) \<and> pcie_ss_stream_afu_to_host demo_cfg 9 True (demo_cpl_beat 2) demo_mmio_tlp = Inl Segv"
  by (rule mmio_tag_off_by_one [OF demo_cpl_ok])
    (simp_all add: demo_cpl_unpack demo_mmio_tlp_def demo_tlp_def Let_def demo_cfg_def demo_cpl_hdr_def)

end
