(* ===== verification/Tlp_Tags.thy ===== *)
theory Tlp_Tags
  imports Tlp_Host Tag_Pool
begin

text \<open>
  The tag mapper that \<open>pcie_ss_tlp_stream.c\<close> emulates: read states are taken from a free list
  that is threaded through the field \<open>start_cycle\<close>, and put back when the last completion of
  a request is sent. The reads in flight are an instance of the contract of
  \<^theory_text>\<open>Tag_Pool\<close>.
\<close>

section \<open>The free list\<close>

fun free_chain :: "dma_read_st list \<Rightarrow> u64 \<Rightarrow> nat list \<Rightarrow> bool" where
  "free_chain ds p [] \<longleftrightarrow> p = READ_STATE_NULL"
| "free_chain ds p (i # is) \<longleftrightarrow> p = of_nat i \<and> i < length ds \<and> free_chain ds (drs_start_cycle (ds ! i)) is"

definition busy_tags :: "tlp \<Rightarrow> nat set" where
  "busy_tags s = {i. i < length (dma_read_state s) \<and> drs_busy (dma_read_state s ! i)}"

text \<open>The free list holds exactly the idle read states, each once.\<close>

definition tags_ok :: "ss_param_cfg \<Rightarrow> tlp \<Rightarrow> bool" where
  "tags_ok cfg s \<longleftrightarrow> length (dma_read_state s) = max_outstanding_dma_rd_reqs cfg \<and>
     max_outstanding_dma_rd_reqs cfg < 2 ^ 31 \<and>
     (\<exists>is. free_chain (dma_read_state s) (dma_read_state_free_head s) is \<and> distinct is \<and>
        set is = {..<max_outstanding_dma_rd_reqs cfg} - busy_tags s)"

lemma free_chain_update:
  "i \<notin> set is \<Longrightarrow> free_chain (ds[i := d]) p is = free_chain ds p is"
  by (induction "is" arbitrary: p) auto

lemma free_chain_upt:
  assumes "\<And>i. i + 1 < n \<Longrightarrow> drs_start_cycle (ds ! i) = of_nat (i + 1)" and "drs_start_cycle (ds ! (n - 1)) = READ_STATE_NULL"
    and "length ds = n" and "k < n"
  shows "free_chain ds (of_nat k) [k..<n]"
  using assms(4)
proof (induction "n - k" arbitrary: k)
  case (Suc m)
  show ?case
  proof (cases "k + 1 = n")
    case True
    then show ?thesis using assms(2,3) by (auto simp: upt_conv_Cons)
  next
    case False
    then have "free_chain ds (of_nat (k + 1)) [k + 1..<n]" using Suc by (intro Suc.hyps(1)) auto
    then show ?thesis using Suc.prems False assms(1) [of k] assms(3) by (simp add: upt_conv_Cons)
  qed
qed simp

text \<open>Initialisation puts every read state on the free list.\<close>

lemma init_tags_ok:
  assumes "0 < max_outstanding_dma_rd_reqs cfg" and "max_outstanding_dma_rd_reqs cfg < 2 ^ 31"
  shows "\<exists>s'. pcie_ss_param_init cfg s = Inr s' \<and> tags_ok cfg s' \<and> busy_tags s' = {}"
proof -
  define n where "n = max_outstanding_dma_rd_reqs cfg"
  define d0 where "d0 = map (\<lambda>i. \<lparr>drs_start_cycle = of_nat (i + 1), drs_req_hdr = pcie_ss_tlp_hdr_reset, drs_busy = False\<rparr>) [0..<n]"
  define d where "d = d0[n - 1 := (d0 ! (n - 1))\<lparr>drs_start_cycle := READ_STATE_NULL\<rparr>]"
  have d: "length d = n" "\<And>i. i < n \<Longrightarrow> \<not> drs_busy (d ! i)" "drs_start_cycle (d ! (n - 1)) = READ_STATE_NULL"
    "\<And>i. i + 1 < n \<Longrightarrow> drs_start_cycle (d ! i) = of_nat (i + 1)"
    using assms(1) by (auto simp: d_def d0_def n_def nth_list_update)
  obtain s' where s': "pcie_ss_param_init cfg s = Inr s'" "dma_read_state s' = d" "dma_read_state_free_head s' = 0"
    using assms(1) unfolding pcie_ss_param_init_def Let_def n_def [symmetric] d0_def [symmetric] d_def [symmetric] by auto
  have b: "busy_tags s' = {}" using d(1,2) by (auto simp: busy_tags_def s'(2))
  have "free_chain d (of_nat 0) [0..<n]"
    by (rule free_chain_upt [OF d(4,3,1)]) (use assms(1) in \<open>simp_all add: n_def\<close>)
  then have "tags_ok cfg s'"
    unfolding tags_ok_def b s'(2,3) d(1) n_def [symmetric]
    using assms(2) by (auto simp: n_def intro!: exI [of _ "[0..<n]"])
  then show ?thesis using s'(1) b by blast
qed

section \<open>Taking and returning a read state\<close>

lemma null_out_of_range: "unat (ucast READ_STATE_NULL :: u32) = 2 ^ 32 - 1"
  by (simp add: READ_STATE_NULL_def unsigned_ucast_eq unsigned_minus_1_eq_mask mask_eq_exp_minus_1 take_bit_eq_mod)

lemma kill_if_more:
  "dma_read_state (kill_if b s) = dma_read_state s" "dma_read_state_free_head (kill_if b s) = dma_read_state_free_head s"
  "sent (kill_if b s) = sent s" "busy_tags (kill_if b s) = busy_tags s"
  by (simp_all add: kill_if_def start_simkill_countdown_def busy_tags_def)

lemma rd_tag_request: "rd_tag (mrd_request h t d off) = t"
  by (simp add: mrd_request_def Let_def split: prod.split)

text \<open>A read takes the head of the free list, or fails if the list is empty.\<close>

lemma mrd_none_free:
  assumes "emulate_tag_mapper cfg" and "tags_ok cfg s" and "free_chain (dma_read_state s) (dma_read_state_free_head s) []"
  shows "pcie_tlp_a2h_mrd cfg cycle eop h d off s = Inl Segv"
  using assms null_out_of_range
  by (simp add: pcie_tlp_a2h_mrd_def mrd_alloc_def Let_def kill_if_more tags_ok_def)

lemma mrd_takes_head:
  assumes "emulate_tag_mapper cfg" and "tags_ok cfg s" and "free_chain (dma_read_state s) (dma_read_state_free_head s) (i # is)"
    and "\<not> drs_busy (dma_read_state s ! i)"
  shows "\<exists>s'. pcie_tlp_a2h_mrd cfg cycle eop h d off s = Inr s' \<and>
    dma_read_state s' = (dma_read_state s)[i := \<lparr>drs_start_cycle = cycle,
      drs_req_hdr = (let g = mrd_fix_be h in if func_is_atomic_cas_req (fmt_type g) then g\<lparr>len_bytes := drop_bit 1 (len_bytes g)\<rparr> else g),
      drs_busy = True\<rparr>] \<and>
    dma_read_state_free_head s' = drs_start_cycle (dma_read_state s ! i) \<and>
    sent s' = sent s @ [OutRead (mrd_request (mrd_fix_be h) (of_nat i) d off)]"
proof -
  have i: "dma_read_state_free_head s = of_nat i" "i < length (dma_read_state s)" "i < 2 ^ 31"
    using assms(2,3) by (auto simp: tags_ok_def)
  have u: "ucast (of_nat i :: u64) = (of_nat i :: u32)" "unat (of_nat i :: u32) = i"
    using i(3) by (simp_all add: word_unat_eq_iff unsigned_ucast_eq unat_of_nat take_bit_eq_mod)
  show ?thesis
    using assms(1,4) i u by (simp add: pcie_tlp_a2h_mrd_def mrd_alloc_def Let_def kill_if_more send_def)
qed

definition read_tag :: "ss_param_cfg \<Rightarrow> u64 \<Rightarrow> hdr_upk \<Rightarrow> bus \<Rightarrow> nat \<Rightarrow> tlp \<Rightarrow> (nat \<times> tlp) option" where
  "read_tag cfg cycle h d off s =
     (case pcie_tlp_a2h_mrd cfg cycle True h d off s of
        Inl _ \<Rightarrow> None
      | Inr s' \<Rightarrow> (case last (sent s') of OutRead q \<Rightarrow> Some (unat (rd_tag q), s') | _ \<Rightarrow> None))"

lemma tags_okE:
  assumes "tags_ok cfg s"
  obtains "is" where "free_chain (dma_read_state s) (dma_read_state_free_head s) is" "distinct is"
    "set is = {..<max_outstanding_dma_rd_reqs cfg} - busy_tags s" "length (dma_read_state s) = max_outstanding_dma_rd_reqs cfg"
    "max_outstanding_dma_rd_reqs cfg < 2 ^ 31"
  using assms by (auto simp: tags_ok_def)

lemma read_tag_Some:
  assumes "emulate_tag_mapper cfg" and "tags_ok cfg s" and "read_tag cfg cycle h d off s = Some (t, s')"
  shows "t < max_outstanding_dma_rd_reqs cfg \<and> t \<notin> busy_tags s \<and> busy_tags s' = insert t (busy_tags s) \<and> tags_ok cfg s'"
proof -
  obtain "is" where c: "free_chain (dma_read_state s) (dma_read_state_free_head s) is" "distinct is"
    "set is = {..<max_outstanding_dma_rd_reqs cfg} - busy_tags s" "length (dma_read_state s) = max_outstanding_dma_rd_reqs cfg"
    "max_outstanding_dma_rd_reqs cfg < 2 ^ 31"
    using assms(2) by (rule tags_okE)
  have "is \<noteq> []" using mrd_none_free [OF assms(1,2)] c(1) assms(3) by (auto simp: read_tag_def)
  then obtain i js where ij: "is = i # js" by (cases "is") auto
  have i: "i < length (dma_read_state s)" "i \<notin> busy_tags s" "i \<notin> set js" "\<not> drs_busy (dma_read_state s ! i)"
    using c ij by (auto simp: busy_tags_def)
  obtain s1 rh where s1: "pcie_tlp_a2h_mrd cfg cycle True h d off s = Inr s1"
    "dma_read_state s1 = (dma_read_state s)[i := \<lparr>drs_start_cycle = cycle, drs_req_hdr = rh, drs_busy = True\<rparr>]"
    "dma_read_state_free_head s1 = drs_start_cycle (dma_read_state s ! i)"
    "sent s1 = sent s @ [OutRead (mrd_request (mrd_fix_be h) (of_nat i) d off)]"
    using mrd_takes_head [OF assms(1,2) c(1) [unfolded ij] i(4)] by blast
  have t: "t = i" "s' = s1" using assms(3) s1 i(1) c(4,5) by (auto simp: read_tag_def rd_tag_request u32_of_nat)
  have b: "busy_tags s1 = insert i (busy_tags s)" using i(1) by (auto simp: busy_tags_def s1(2) nth_list_update)
  have "free_chain (dma_read_state s1) (dma_read_state_free_head s1) js"
    using c(1) i(3) by (simp add: ij s1(2,3) free_chain_update)
  moreover have "set js = {..<max_outstanding_dma_rd_reqs cfg} - busy_tags s1" using c(2,3) by (auto simp: ij b)
  ultimately have "tags_ok cfg s1" using c(2,4,5) by (auto simp: tags_ok_def ij s1(2))
  then show ?thesis using t b i c(4) by auto
qed

lemma read_tag_None:
  assumes "emulate_tag_mapper cfg" and "tags_ok cfg s"
  shows "read_tag cfg cycle h d off s = None \<longleftrightarrow> busy_tags s = {..<max_outstanding_dma_rd_reqs cfg}"
proof -
  obtain "is" where c: "free_chain (dma_read_state s) (dma_read_state_free_head s) is"
    "set is = {..<max_outstanding_dma_rd_reqs cfg} - busy_tags s" "length (dma_read_state s) = max_outstanding_dma_rd_reqs cfg"
    using assms(2) by (rule tags_okE)
  show ?thesis
  proof (cases "is")
    case Nil
    then show ?thesis using c mrd_none_free [OF assms] by (auto simp: read_tag_def busy_tags_def)
  next
    case (Cons i js)
    then have "\<not> drs_busy (dma_read_state s ! i)" "i < max_outstanding_dma_rd_reqs cfg" "i \<notin> busy_tags s"
      using c by (auto simp: busy_tags_def)
    then show ?thesis using mrd_takes_head [OF assms c(1) [unfolded Cons], of cycle True h d off] by (auto simp: read_tag_def)
  qed
qed

lemma free_read_state_ok:
  assumes "emulate_tag_mapper cfg" and "tags_ok cfg s" and "t \<in> busy_tags s"
  shows "busy_tags (free_read_state cfg t s) = busy_tags s - {t} \<and> tags_ok cfg (free_read_state cfg t s)"
proof -
  obtain "is" where c: "free_chain (dma_read_state s) (dma_read_state_free_head s) is" "distinct is"
    "set is = {..<max_outstanding_dma_rd_reqs cfg} - busy_tags s" "length (dma_read_state s) = max_outstanding_dma_rd_reqs cfg"
    "max_outstanding_dma_rd_reqs cfg < 2 ^ 31"
    using assms(2) by (rule tags_okE)
  have t: "t < length (dma_read_state s)" "t \<notin> set is" using assms(3) c(3) by (auto simp: busy_tags_def)
  let ?s = "free_read_state cfg t s"
  have b: "busy_tags ?s = busy_tags s - {t}"
    using t(1) assms(1) by (auto simp: busy_tags_def free_read_state_def Let_def nth_list_update)
  have "free_chain (dma_read_state ?s) (dma_read_state_free_head ?s) (t # is)"
    using t c(1) assms(1) by (simp add: free_read_state_def Let_def free_chain_update)
  moreover have "set (t # is) = {..<max_outstanding_dma_rd_reqs cfg} - busy_tags ?s" using c(3,4) t(1) b by auto
  moreover have "length (dma_read_state ?s) = max_outstanding_dma_rd_reqs cfg" using c(4) assms(1) by (simp add: free_read_state_def Let_def)
  ultimately have "tags_ok cfg ?s" using c(2,5) t(2) unfolding tags_ok_def by (metis distinct.simps(2))
  then show ?thesis using b by blast
qed

interpretation dma_tags: tag_pool "{..<max_outstanding_dma_rd_reqs cfg}" "\<lambda>s. emulate_tag_mapper cfg \<and> tags_ok cfg s" busy_tags
    "read_tag cfg cycle h d off" "\<lambda>s t. free_read_state cfg t s"
  for cfg cycle h d off
proof unfold_locales
  show "busy_tags s \<subseteq> {..<max_outstanding_dma_rd_reqs cfg}" if "emulate_tag_mapper cfg \<and> tags_ok cfg s" for s
    using that by (auto simp: tags_ok_def busy_tags_def)
qed (use read_tag_Some read_tag_None free_read_state_ok in blast)+

text \<open>
  C9: The emulated tag mapper gives the reads in flight distinct read states, whatever tags
  the hardware uses. After initialisation with \<open>n\<close> read states, \<open>k\<close> reads are accepted exactly
  if \<open>k \<le> n\<close>; their internal tags are distinct and below \<open>n\<close>, and the last completion of any
  of them makes room for another read. When all \<open>n\<close> are in flight the stream is not ready,
  and one more read is not only reported as an error: the code goes on with the tag that
  marks the empty list and accesses memory far outside the array.
\<close>

theorem tag_mapper_reads:
  assumes "emulate_tag_mapper cfg" and "n = max_outstanding_dma_rd_reqs cfg" and "0 < n" and "n < 2 ^ 31"
    and "pcie_ss_param_init cfg s0 = Inr s"
  shows "(alloc_many (read_tag cfg cycle h d off) k s \<noteq> None \<longleftrightarrow> k \<le> n) \<and>
    (\<forall>ts s'. alloc_many (read_tag cfg cycle h d off) k s = Some (ts, s') \<longrightarrow>
       distinct ts \<and> length ts = k \<and> set ts \<subseteq> {..<n} \<and>
       (\<forall>t \<in> set ts. read_tag cfg cycle h' d' off' (free_read_state cfg t s') \<noteq> None) \<and>
       (k = n \<longrightarrow> pcie_tlp_a2h_mrd cfg cycle eop h' d' off' s' = Inl Segv \<and>
          \<not> fst (pcie_ss_stream_afu_to_host_tready unlimited cycle s')))"
proof -
  have ok: "emulate_tag_mapper cfg \<and> tags_ok cfg s" and b: "busy_tags s = {}"
    using init_tags_ok [of cfg s0] assms by auto
  have cap: "alloc_many (read_tag cfg cycle h d off) k s \<noteq> None \<longleftrightarrow> k \<le> n"
    using dma_tags.alloc_many_capacity [OF ok, of cycle h d off k] by (simp add: b assms(2))
  have "distinct ts \<and> length ts = k \<and> set ts \<subseteq> {..<n} \<and>
       (\<forall>t \<in> set ts. read_tag cfg cycle h' d' off' (free_read_state cfg t s') \<noteq> None) \<and>
       (k = n \<longrightarrow> pcie_tlp_a2h_mrd cfg cycle eop h' d' off' s' = Inl Segv \<and>
          \<not> fst (pcie_ss_stream_afu_to_host_tready unlimited cycle s'))"
    if a: "alloc_many (read_tag cfg cycle h d off) k s = Some (ts, s')" for ts s'
  proof -
    note m = dma_tags.alloc_many_distinct [OF ok a]
    have sub: "set ts \<subseteq> {..<n}" using dma_tags.busy_tags [of cfg s'] m by (simp add: assms(2) b)
    have fr: "\<forall>t \<in> set ts. read_tag cfg cycle h' d' off' (free_read_state cfg t s') \<noteq> None"
      using dma_tags.free_makes_room [of cfg s'] m by blast
    have "pcie_tlp_a2h_mrd cfg cycle eop h' d' off' s' = Inl Segv \<and>
        \<not> fst (pcie_ss_stream_afu_to_host_tready unlimited cycle s')" if "k = n"
    proof -
      have "set ts = {..<n}" using card_subset_eq [OF _ sub] m that by (simp add: distinct_card)
      then have full: "{..<max_outstanding_dma_rd_reqs cfg} - busy_tags s' = {}" using m b by (simp add: assms(2))
      have ok': "tags_ok cfg s'" using m by blast
      then obtain "is" where "free_chain (dma_read_state s') (dma_read_state_free_head s') is"
        "set is = {..<max_outstanding_dma_rd_reqs cfg} - busy_tags s'" by (rule tags_okE)
      then have c: "free_chain (dma_read_state s') (dma_read_state_free_head s') []" unfolding full by simp
      have "dma_read_state_free_head (snd (pcie_tlp_rand unlimited (s'\<lparr>cur_cycle := cycle\<rparr>))) = READ_STATE_NULL"
        using c rand_state [of unlimited "s'\<lparr>cur_cycle := cycle\<rparr>"] by auto
      then show ?thesis using mrd_none_free [OF assms(1) ok' c]
        by (auto simp: pcie_ss_stream_afu_to_host_tready_def Let_def split: prod.split)
    qed
    then show ?thesis using m sub fr by blast
  qed
  then show ?thesis using cap by blast
qed

theorem tag_mapper_reads_witness:
  "\<exists>s ts s'. pcie_ss_param_init demo_cfg demo_tlp = Inr s \<and>
     alloc_many (read_tag demo_cfg 7 demo_rd_hdr (\<lambda>_. 0) 8) 4 s = Some (ts, s') \<and> distinct ts \<and> length ts = 4 \<and>
     pcie_tlp_a2h_mrd demo_cfg 7 True demo_rd_hdr (\<lambda>_. 0) 8 s' = Inl Segv"
proof -
  have e: "emulate_tag_mapper demo_cfg" "4 = max_outstanding_dma_rd_reqs demo_cfg" "(0 :: nat) < 4" "(4 :: nat) < 2 ^ 31"
    by (simp_all add: demo_cfg_def)
  obtain s where s: "pcie_ss_param_init demo_cfg demo_tlp = Inr s"
    using init_tags_ok [of demo_cfg demo_tlp] by (auto simp: demo_cfg_def)
  note w = tag_mapper_reads [OF e s, of 7 demo_rd_hdr "\<lambda>_. 0" 8 4 demo_rd_hdr "\<lambda>_. 0" 8 True False]
  then obtain ts s' where "alloc_many (read_tag demo_cfg 7 demo_rd_hdr (\<lambda>_. 0) 8) 4 s = Some (ts, s')" by fastforce
  then show ?thesis using w s by blast
qed

end
