(* ===== verification/Tlp_Read.thy ===== *)
theory Tlp_Read
  imports Tlp_Tags
begin

text \<open>
  DMA reads from the hardware: the beat that carries a legal read takes a read state, records
  the header and sends one request to the application. The recorded header satisfies what
  the splitting of the response relies on.
\<close>

text \<open>
  A plain read that the checks of \<open>pcie_tlp_a2h_mrd\<close> accept. The byte enables have four bits,
  and the decoder sets them all for a data mover request.
\<close>

definition legal_read :: "ss_param_cfg \<Rightarrow> hdr_upk \<Rightarrow> bool" where
  "legal_read cfg h \<longleftrightarrow> tlp_func_is_mrd_req (fmt_type h) \<and> \<not> mrd_illegal cfg True h \<and> at_type (req_attr (u_req h)) \<noteq> 1 \<and>
     first_dw_be (u_req h) < 16 \<and> last_dw_be (u_req h) < 16 \<and>
     (dm_mode h \<longrightarrow> first_dw_be (u_req h) = 0xf \<and> last_dw_be (u_req h) = 0xf) \<and> max_any_rd_req_bytes cfg \<le> 2 ^ 14"

definition idle_tag :: "ss_param_cfg \<Rightarrow> hdr_upk \<Rightarrow> tlp \<Rightarrow> nat \<Rightarrow> bool" where
  "idle_tag cfg h s t \<longleftrightarrow> t < length (dma_read_state s) \<and> \<not> drs_busy (dma_read_state s ! t) \<and> t < 2 ^ 31 \<and>
     (if emulate_tag_mapper cfg then dma_read_state_free_head s = of_nat t else t = unat (tag h))"

lemma legal_readD:
  assumes "legal_read cfg h"
  shows "tlp_func_is_mem_req (fmt_type h)" "\<not> tlp_func_is_mwr_req (fmt_type h)" "\<not> func_is_atomic_req (fmt_type h)"
    "\<not> func_is_atomic_cas_req (fmt_type h)" "\<not> mrd_illegal cfg True h" "mrd_fix_be h = h"
    "unat (len_bytes h) \<le> max_any_rd_req_bytes cfg"
proof -
  show k: "tlp_func_is_mem_req (fmt_type h)" "\<not> tlp_func_is_mwr_req (fmt_type h)" "\<not> mrd_illegal cfg True h"
    using assms by (auto simp: legal_read_def tlp_func_is_mrd_req_def tlp_func_is_mwr_req_def)
  show a: "\<not> func_is_atomic_req (fmt_type h)"
    using k(1,2) by (auto simp: func_is_atomic_req_def tlp_func_is_mwr_req_def tlp_func_has_data_def)
  then show "\<not> func_is_atomic_cas_req (fmt_type h)" "mrd_fix_be h = h"
    by (auto simp: func_is_atomic_cas_req_def func_is_atomic_req_def PCIE_FMTTYPE_CAS32_def PCIE_FMTTYPE_CAS64_def mrd_fix_be_def)
  then show "unat (len_bytes h) \<le> max_any_rd_req_bytes cfg"
    using k(3) by (auto simp: mrd_illegal_def Let_def max_any_rd_req_bytes_def)
qed

lemma legal_read_hdr_ok:
  assumes "legal_read cfg h"
  shows "read_hdr_ok h"
proof -
  note d = legal_readD [OF assms]
  have m: "first_dw_be (u_req h) < 16" "last_dw_be (u_req h) < 16" "max_any_rd_req_bytes cfg \<le> 2 ^ 14"
    "dm_mode h \<Longrightarrow> first_dw_be (u_req h) = 0xf \<and> last_dw_be (u_req h) = 0xf"
    using assms by (simp_all add: legal_read_def)
  have n: "unat (len_bytes h) \<le> 2 ^ 14" using le_trans [OF d(7) m(3)] .
  have i: "unat (len_bytes h) \<noteq> 0"
    "first_dw_be (u_req h) = 0 \<Longrightarrow> last_dw_be (u_req h) = 0"
    "last_dw_be (u_req h) = 0 \<Longrightarrow> unat (len_bytes h) \<le> 4"
    "last_dw_be (u_req h) \<noteq> 0 \<Longrightarrow> unat (len_bytes h) \<le> 4 \<Longrightarrow> dm_mode h"
    using d(5) unfolding mrd_illegal_def Let_def d(6) by (meson not_le)+
  show ?thesis unfolding read_hdr_ok_def Let_def using m n i by blast
qed

lemma read_beat:
  assumes h: "legal_read cfg h" and s: "afu_to_host_state s = TLP_STATE_SOP" and b: "pcie_ss_tlp_hdr_unpack b = (h, False)"
    and t: "idle_tag cfg h s t"
  shows "\<exists>p. pcie_ss_stream_afu_to_host cfg cycle True b s = Inr (s\<lparr>a2h_hdr := h, dma_read_state_free_head := p,
      dma_read_state := (dma_read_state s)[t := \<lparr>drs_start_cycle = cycle, drs_req_hdr = h, drs_busy = True\<rparr>],
      num_dma_reads_pending := num_dma_reads_pending s + 1,
      sent := sent s @ [OutRead (mrd_request h (of_nat t) (tdata b) 8)], afu_to_host_state := TLP_STATE_SOP\<rparr>)"
proof -
  note d = legal_readD [OF h] and kinds = tlp_mem_only [OF legal_readD(1) [OF h]]
  have u: "ucast (of_nat t :: u64) = (of_nat t :: u32)" "unat (of_nat t :: u32) = t"
    using t by (simp_all add: idle_tag_def word_unat_eq_iff unsigned_ucast_eq unat_of_nat take_bit_eq_mod)
  have nn: "emulate_tag_mapper cfg \<Longrightarrow> dma_read_state_free_head s \<noteq> READ_STATE_NULL"
    using t null_out_of_range u by (auto simp: idle_tag_def)
  have tg: "\<not> emulate_tag_mapper cfg \<Longrightarrow> ucast (tag h) = (of_nat t :: u32)"
    using t by (simp add: idle_tag_def)
  define s0 where "s0 = s\<lparr>a2h_hdr := h\<rparr>"
  define p where "p = (if emulate_tag_mapper cfg then drs_start_cycle (dma_read_state s ! t) else dma_read_state_free_head s)"
  have al: "mrd_alloc cfg h s0 = Inr (of_nat t, s0\<lparr>dma_read_state_free_head := p\<rparr>)"
    using t u nn tg by (auto simp: mrd_alloc_def Let_def kill_if_def idle_tag_def s0_def p_def)
  have "pcie_tlp_a2h_mrd cfg cycle True h (tdata b) tlp_hdr_dwords s0 = Inr (s\<lparr>a2h_hdr := h, dma_read_state_free_head := p,
      dma_read_state := (dma_read_state s)[t := \<lparr>drs_start_cycle = cycle, drs_req_hdr = h, drs_busy = True\<rparr>],
      num_dma_reads_pending := num_dma_reads_pending s + 1,
      sent := sent s @ [OutRead (mrd_request h (of_nat t) (tdata b) 8)]\<rparr>)"
    using t d u al by (simp add: pcie_tlp_a2h_mrd_def Let_def kill_if_def tlp_hdr_dwords_def)
      (simp add: s0_def idle_tag_def send_def Let_def kill_if_def)
  then show ?thesis
    using s b d kinds
    by (intro exI [of _ p]) (simp add: pcie_ss_stream_afu_to_host_def a2h_sop_def Let_def kill_if_def s0_def)
qed

end
