(* ===== verification/Dma_Path.thy ===== *)
theory Dma_Path
  imports Tlp_Write Tlp_Read
begin

text \<open>
  The path of a DMA request through both processes: a packet of the simulated hardware, the
  request to the application, the access to its memory, and the response in the simulator.
\<close>

lemma mwr_request_fields:
  "wr_data_bytes (mwr_request h) = len_bytes h" "wr_addr (mwr_request h) = req_addr (u_req h)"
  "wr_afu_idx (mwr_request h) = hdr_pf_vf_to_afu_idx h"
  by (simp_all add: mwr_request_def Let_def)

lemma length_bytes_of_words: "length (bytes_of_words ws) = 4 * length ws"
  by (induction ws) (auto simp: bytes_of_words_def)

lemma length_packet_words: "length (packet_words W b bs) = (W - 8) + W * length bs"
  by (induction bs) (auto simp: packet_words_def rest_words_def)

text \<open>The payload of a packet with enough beats has the length of the header.\<close>

lemma payload_length:
  assumes "beats_fit W (words_needed h) bs"
  shows "unat (len_bytes h) \<le> length (bytes_of_words (packet_words W b bs))"
  using assms words_cover [of h] unfolding length_bytes_of_words length_packet_words
  by (auto simp: beats_fit_def intro: le_trans)

text \<open>One response of the application to the only pending write.\<close>

lemma one_write_response:
  assumes "num_dma_writes_pending s = 1" and "wr_rsp_q s = [r]"
  shows "pcie_complete_dma_writes s = (if wrsp_status r = HOST_MEM_STATUS_VALID
    then s\<lparr>wr_rsp_q := [], num_dma_writes_pending := 0\<rparr> else s\<lparr>wr_rsp_q := [], killed := True\<rparr>)"
  using assms by (simp add: pcie_complete_dma_writes_def start_simkill_countdown_def)

lemma dma_write_path:
  assumes h: "legal_write cfg h" and s: "afu_to_host_state s = TLP_STATE_SOP" and b: "pcie_ss_tlp_hdr_unpack b = (h, False)"
    and W: "W = tlp_tdata_dwords cfg" "beats_fit W (words_needed h) bs"
    and req: "req = mwr_request h" and bytes: "bytes = take (unat (len_bytes h)) (bytes_of_words (packet_words W b bs))"
    and a: "membus_ready a" "wr_addr_type req = HOST_MEM_AT_UNTRANS \<Longrightarrow> afu_idx_ok (wr_afu_idx req)" "itag_alive a"
    and n: "unat (len_bytes h) \<le> 4096"
    and va: "va = membus_va a (wr_addr_type req) (wr_afu_idx req) (wr_addr req)" "va \<noteq> 0"
    and st: "st = write_status page_size mapped va req"
  shows "\<exists>s' a' c. a2h_run cfg cycle (packet (b # bs)) s = Inr s' \<and> s' = s\<lparr>a2h_hdr := h, mwr_pkt := c,
      num_dma_writes_pending := num_dma_writes_pending s + 1, sent := sent s @ [OutWrite req bytes], afu_to_host_state := TLP_STATE_SOP\<rparr> \<and>
    membus_wr_watcher page_size mapped a req bytes = Inr a' \<and> membus_ready a' \<and>
    app2sim_membus_wr_rsp a' = app2sim_membus_wr_rsp a @
      [\<lparr>wrsp_pa = wr_addr req, wrsp_va = va, wrsp_afu_idx = wr_afu_idx req, wrsp_status = st\<rparr>] \<and>
    (\<forall>x. mb_mem a' x = (if st = HOST_MEM_STATUS_VALID \<and> byte_enabled req (unat (x - va)) then bytes ! unat (x - va) else mb_mem a x))"
proof -
  obtain s' c where s': "a2h_run cfg cycle (packet (b # bs)) s = Inr s'" "s' = s\<lparr>a2h_hdr := h, mwr_pkt := c,
      num_dma_writes_pending := num_dma_writes_pending s + 1, sent := sent s @ [OutWrite req bytes], afu_to_host_state := TLP_STATE_SOP\<rparr>"
    using write_packet_run [OF h s b W] unfolding req bytes by blast
  have len: "length bytes = unat (wr_data_bytes req)" using payload_length [OF W(2), of b] by (simp add: bytes req mwr_request_fields)
  have n': "unat (wr_data_bytes req) \<le> 4096" using n by (simp add: req mwr_request_fields)
  obtain a' where a': "membus_wr_watcher page_size mapped a req bytes = Inr a'"
    using membus_write_total [OF a(1,2) _ n' a(3)] va by blast
  show ?thesis
    using s' a' membus_write_Inr [OF a(1,2) a' len, folded va(1), folded st] by blast
qed

section \<open>Reads\<close>

lemma plain_read_request:
  assumes "\<not> func_is_atomic_req (fmt_type h)" and "first_dw_be (u_req h) \<noteq> 0" and "q = mrd_request h t d off"
  shows "rd_data_bytes q = len_bytes h" "rd_tag q = t" "rd_req q = HOST_MEM_REQ_READ" "rd_addr q = req_addr (u_req h)"
    "rd_addr_type q = addr_type_of (at_type (req_attr (u_req h)))" "rd_afu_idx q = hdr_pf_vf_to_afu_idx h"
  using assms by (simp_all add: mrd_request_def Let_def)

text \<open>The response to the only pending read, with its data.\<close>

lemma one_read_response:
  assumes "num_dma_reads_pending s = 1" and "rsp_status r = HOST_MEM_STATUS_VALID" and "rsp_data_bytes r \<noteq> 0"
    and q: "queue_read_rsp cfg unlimited junk r data (s\<lparr>rd_rsp_q := q0\<rparr>) = Inr s'" and p: "num_dma_reads_pending s' = 0"
    and "q0 = [RdRsp r, RdPayload data]"
  shows "pcie_receive_dma_reads cfg unlimited junk (s\<lparr>rd_rsp_q := q0\<rparr>) = Inr (s'\<lparr>rd_rsp_q := []\<rparr>)"
proof -
  have e: "read_responses cfg unlimited junk [] s' = Inr (s'\<lparr>rd_rsp_q := []\<rparr>)" using p by simp
  show ?thesis
    using assms(1-3) q unfolding pcie_receive_dma_reads_def assms(6)
    by (subst read_responses.simps) (simp add: e del: read_responses.simps)
qed

lemma dma_read_path:
  assumes cfg: "split_cfg_ok cfg" and h: "legal_read cfg h" "first_dw_be (u_req h) \<noteq> 0"
    and s: "afu_to_host_state s = TLP_STATE_SOP" "num_dma_reads_pending s = 0" and b: "pcie_ss_tlp_hdr_unpack b = (h, False)"
    and t: "idle_tag cfg h s t" and q: "q = mrd_request h (of_nat t) (tdata b) 8"
    and a: "membus_ready a" "rd_addr_type q = HOST_MEM_AT_UNTRANS \<Longrightarrow> afu_idx_ok (rd_afu_idx q)" "itag_alive a" "app2sim_membus_rd_rsp a = []"
    and va: "va = membus_va a (rd_addr_type q) (rd_afu_idx q) (rd_addr q)" "va \<noteq> 0"
  shows "\<exists>s1 a1 s2 cs. pcie_ss_stream_afu_to_host cfg cycle True b s = Inr s1 \<and> sent s1 = sent s @ [OutRead q] \<and>
    membus_rd_watcher mm smaps a q = Inr a1 \<and> mb_mem a1 = mb_mem a \<and>
    pcie_receive_dma_reads cfg unlimited junk (s1\<lparr>rd_rsp_q := app2sim_membus_rd_rsp a1\<rparr>) = Inr s2 \<and>
    covers (request_completion_boundary cfg) h 0 cs \<and> concat (map cpl_data cs) = mem_read (mb_mem a) va (unat (len_bytes h)) \<and>
    filter (\<lambda>c. rc_state c = t) (dma_read_cpls s2) = filter (\<lambda>c. rc_state c = t) (dma_read_cpls s) @ cs \<and>
    filter (\<lambda>c. rc_state c \<noteq> t) (dma_read_cpls s2) = filter (\<lambda>c. rc_state c \<noteq> t) (dma_read_cpls s) \<and>
    drs_req_hdr (dma_read_state s2 ! t) = h \<and> killed s2 = killed s \<and> num_dma_reads_pending s2 = 0 \<and> rd_rsp_q s2 = []"
proof -
  note d = legal_readD [OF h(1)] and ok = legal_read_hdr_ok [OF h(1)]
  have tl: "t < length (dma_read_state s)" "unat (of_nat t :: u32) = t" using t by (simp_all add: idle_tag_def unat_of_nat)
  note qf = plain_read_request [OF d(3) h(2) q]
  have n0: "len_bytes h \<noteq> 0" using ok by (auto simp: read_hdr_ok_def Let_def)
  obtain p where s1: "pcie_ss_stream_afu_to_host cfg cycle True b s = Inr (s\<lparr>a2h_hdr := h, dma_read_state_free_head := p,
      dma_read_state := (dma_read_state s)[t := \<lparr>drs_start_cycle = cycle, drs_req_hdr = h, drs_busy = True\<rparr>],
      num_dma_reads_pending := num_dma_reads_pending s + 1, sent := sent s @ [OutRead q], afu_to_host_state := TLP_STATE_SOP\<rparr>)"
    using read_beat [OF h(1) s(1) b t] unfolding q by blast
  define s1' where "s1' = s\<lparr>a2h_hdr := h, dma_read_state_free_head := p,
      dma_read_state := (dma_read_state s)[t := \<lparr>drs_start_cycle = cycle, drs_req_hdr = h, drs_busy = True\<rparr>],
      num_dma_reads_pending := num_dma_reads_pending s + 1, sent := sent s @ [OutRead q], afu_to_host_state := TLP_STATE_SOP\<rparr>"
  have at: "rd_addr_type q \<noteq> HOST_MEM_AT_REQ_TRANS" "rd_req q \<noteq> HOST_MEM_REQ_ATOMIC"
    using h(1) by (auto simp: qf legal_read_def addr_type_of_def)
  obtain a1 where a1: "membus_rd_watcher mm smaps a q = Inr a1" using membus_read_total [OF a(1,2) at _ a(3)] va by blast
  define r where "r = \<lparr>rsp_pa = rd_addr q, rsp_va = va, rsp_data_bytes = rd_data_bytes q,
        rsp_tag = rd_tag q, rsp_afu_idx = rd_afu_idx q, rsp_status = HOST_MEM_STATUS_VALID\<rparr>"
  define data where "data = mem_read (mb_mem a) va (unat (len_bytes h))"
  have m: "mb_mem a1 = mb_mem a" "app2sim_membus_rd_rsp a1 = [RdRsp r, RdPayload data]"
    using membus_read_Inr(2,4) [OF a(1,2) at a1, folded va(1)] a(4) n0 by (simp_all add: r_def data_def qf)
  define s0 where "s0 = s1'\<lparr>rd_rsp_q := [RdRsp r, RdPayload data]\<rparr>"
  have sp: "t = unat (rsp_tag r)" "t < length (dma_read_state s0)" "h = drs_req_hdr (dma_read_state s0 ! t)" "length data \<le> max_any_rd_req_bytes cfg"
    using tl d(7) by (simp_all add: r_def qf s0_def s1'_def data_def)
  obtain cs s2 where c: "queue_read_rsp cfg unlimited junk r data s0 = Inr s2"
    "queued t cs (s0\<lparr>num_dma_reads_pending := num_dma_reads_pending s0 - 1\<rparr>) s2" "covers (request_completion_boundary cfg) h 0 cs"
    "\<forall>c \<in> set cs. rc_state c = t \<and> rc_data c = data @ map junk [length data..<max_any_rd_req_bytes cfg]"
    using queue_read_rsp_done [OF cfg sp(1-3) ok sp(4) refl refl] by blast
  have cd: "concat (map cpl_data cs) = data"
    using covers_data [OF c(3), of "data @ map junk [length data..<max_any_rd_req_bytes cfg]"] cfg c(4)
    by (simp add: split_cfg_ok_def data_def)
  have e2: "s2 = s0\<lparr>num_dma_reads_pending := num_dma_reads_pending s0 - 1, next_rand := next_rand s2, dma_read_cpls := dma_read_cpls s2\<rparr>"
    using c(2) by (simp add: queued_def)
  have f2: "num_dma_reads_pending s2 = 0" "killed s2 = killed s" "drs_req_hdr (dma_read_state s2 ! t) = h"
    by (subst e2, use s(2) tl in \<open>simp add: s0_def s1'_def\<close>)+
  have "pcie_receive_dma_reads cfg unlimited junk (s1'\<lparr>rd_rsp_q := [RdRsp r, RdPayload data]\<rparr>) = Inr (s2\<lparr>rd_rsp_q := []\<rparr>)"
    by (rule one_read_response [OF _ _ _ _ f2(1) refl]) (use c(1) s(2) n0 in \<open>simp_all add: s0_def s1'_def r_def qf\<close>)
  then show ?thesis
    using s1 [folded s1'_def] a1 m c(2,3) cd f2 unfolding data_def [symmetric]
    by (intro exI [of _ s1'] exI [of _ a1] exI [of _ "s2\<lparr>rd_rsp_q := []\<rparr>"] exI [of _ cs]) (simp add: queued_def s0_def s1'_def)
qed

section \<open>Examples\<close>

text \<open>An application with a pinned page that holds the address 0x40012344.\<close>

lemma demo_app:
  "\<exists>a :: unit membus. membus_ready a \<and> itag_alive a \<and> app2sim_membus_wr_rsp a = [] \<and> app2sim_membus_rd_rsp a = [] \<and>
     membus_va a HOST_MEM_AT_UNTRANS 0 0x40012344 = 0x7f0000212344 \<and> mb_mem a = (\<lambda>_. 0)"
proof -
  obtain hm :: "unit hm_state" where hm: "hm_ok hm" "\<not> ase_pt_lock hm"
    "hm_va (hm_entry hm (Some 0) 0x40012344) 0x40012344 = 0x7f0000212344" using demo_pinned by blast
  show ?thesis
    by (rule exI [of _ "demo_membus hm"])
      (use hm demo_membus_alive in \<open>simp add: membus_ready_def demo_membus_def membus_va_def membus_space_def\<close>)
qed

definition demo_rd_beat :: beat where
  "demo_rd_beat = \<lparr>tdata = (\<lambda>i. [0x00000010, 0x2ff, 0x40012344, 0, 0, 0x4000, 0, 0, 0, 0, 0, 0, 0, 0, 0, 0] ! i),
     tuser = (\<lambda>_. 0), tkeep = (\<lambda>_. 0)\<rparr>"

definition demo_rd32_hdr :: hdr_upk where
  "demo_rd32_hdr = pcie_ss_tlp_hdr_reset\<lparr>vf_active := 1, tag := 2, len_bytes := 64, u_req := (u_req pcie_ss_tlp_hdr_reset)\<lparr>
     req_addr := 0x40012344, last_dw_be := 0xf, first_dw_be := 0xf\<rparr>\<rparr>"

lemma demo_rd_unpack: "pcie_ss_tlp_hdr_unpack demo_rd_beat = (demo_rd32_hdr, False)"
  by (simp add: demo_rd_beat_def demo_rd32_hdr_def pcie_ss_tlp_hdr_unpack_def Let_def hdr_unpack_common_def svGet_words
      hdr_unpack_mem_def hdr_get_tag_def tlp_func_is_mem_req_def PCIE_TYPE_MEM_RW_def pcie_ss_tlp_hdr_reset_def
      tlp_func_is_addr64_def tlp_func_is_addr32_def)

lemma demo_rd_legal: "legal_read demo_cfg demo_rd32_hdr"
  by (simp add: legal_read_def demo_rd32_hdr_def mrd_illegal_def mrd_fix_be_def mrd_illegal_atomic_def mrd_illegal_ats_def Let_def
      tlp_func_is_mrd_req_def tlp_func_is_mem_req_def tlp_func_has_data_def PCIE_TYPE_MEM_RW_def func_is_atomic_req_def
      pcie_ss_tlp_hdr_reset_def tlp_func_is_addr64_def tlp_func_is_addr32_def demo_cfg_def max_any_rd_req_bytes_def)

end
